(* ===== verification/Prelude.thy ===== *)
theory Prelude
  imports Main "HOL-Library.Word"
begin

text \<open>
  Shared vocabulary of the development: the fixed-width types the sources use, the
  behaviours of C++ that are values of the model (faults), the memory representation of
  machine words as byte lists, and generic lemmas on lists, words and byte lists.

  Conventions.  A \<^theory_text>\<open>w word\<close> is an unsigned integer of \<open>w\<close> bits.
  \<open>int\<close> and \<open>std::int64_t\<close> values are HOL integers; \<open>i32\<close> writes out the
  wrap-around of 32-bit arithmetic where a computation of the code could leave the range.
  An operation whose execution is undefined in C++ (a read or a write outside an array, a
  conversion of a floating point number that does not fit, a call through a pointer to an
  object that is gone, a branch that the code declares unreachable) yields \<open>Inl\<close> of a
  fault, and so does a socket operation that ZeroMQ refuses in the socket's state (\<open>Wrong_State\<close>).
\<close>

unbundle bit_operations_syntax

section \<open>Types\<close>

type_synonym u8 = "8 word"
type_synonym u16 = "16 word"
type_synonym u32 = "32 word"
type_synonym u64 = "64 word"

type_synonym bytes = "u8 list"

datatype fault = Out_Of_Bounds | Bad_Cast | Wrong_State | Dangling | Unreachable

type_synonym 'a result = "fault + 'a"

text \<open>Collections of rewrite rules used by the component theories.\<close>

named_theorems codec \<open>byte-level encoding and decoding\<close>
named_theorems frame \<open>fields an operation leaves unchanged\<close>

section \<open>Fallible computations\<close>

definition and_then :: "'e + 'a \<Rightarrow> ('a \<Rightarrow> 'e + 'b) \<Rightarrow> 'e + 'b" where
  "and_then r f = case_sum Inl f r"

lemma and_then_simps [simp]:
  "and_then (Inl e) f = Inl e"
  "and_then (Inr x) f = f x"
  by (simp_all add: and_then_def)

lemma and_then_eq_Inr: "and_then r f = Inr y \<longleftrightarrow> (\<exists>x. r = Inr x \<and> f x = Inr y)"
  by (cases r) auto

lemma and_then_eq_Inl: "and_then r f = Inl e \<longleftrightarrow> r = Inl e \<or> (\<exists>x. r = Inr x \<and> f x = Inl e)"
  by (cases r) auto

text \<open>Run a fallible computation on every element, stopping at the first fault.\<close>

fun map_result :: "('a \<Rightarrow> 'e + 'b) \<Rightarrow> 'a list \<Rightarrow> 'e + 'b list" where
  "map_result f [] = Inr []"
| "map_result f (x # xs) = and_then (f x) (\<lambda>y. and_then (map_result f xs) (\<lambda>ys. Inr (y # ys)))"

lemma map_result_total:
  "(\<And>x. x \<in> set xs \<Longrightarrow> \<exists>y. f x = Inr y) \<Longrightarrow> \<exists>ys. map_result f xs = Inr ys"
proof (induction xs)
  case Nil
  then show ?case by simp
next
  case (Cons x xs)
  then obtain y ys where "f x = Inr y" and "map_result f xs = Inr ys" by fastforce
  then show ?case by simp
qed

lemma map_result_length: "map_result f xs = Inr ys \<Longrightarrow> length ys = length xs"
  by (induction xs arbitrary: ys) (auto simp: and_then_eq_Inr)

lemma map_result_pure: "map_result (\<lambda>x. Inr (g x)) xs = Inr (map g xs)"
  by (induction xs) auto

section \<open>32-bit signed arithmetic\<close>

definition i32 :: "int \<Rightarrow> int" where
  "i32 n = signed_take_bit 31 n"

definition in_i32 :: "int \<Rightarrow> bool" where
  "in_i32 n \<longleftrightarrow> - (2 ^ 31) \<le> n \<and> n < 2 ^ 31"

lemma i32_id: "in_i32 n \<Longrightarrow> i32 n = n"
  unfolding in_i32_def i32_def by (rule signed_take_bit_int_eq_self) simp_all

lemma in_i32_i32 [simp]: "in_i32 (i32 n)"
  unfolding in_i32_def i32_def
  by (simp only: signed_take_bit_int_greater_eq_minus_exp [of 31 n]
      signed_take_bit_int_less_exp [of 31 n] simp_thms)

text \<open>\<open>std::chrono::duration_cast\<close> to a coarser unit truncates towards zero.\<close>

definition duration_cast :: "int \<Rightarrow> int \<Rightarrow> int" where
  "duration_cast unit d = (if d < 0 then - ((- d) div unit) else d div unit)"

section \<open>Words as bytes\<close>

definition to_le :: "nat \<Rightarrow> 'a::len word \<Rightarrow> bytes" where
  "to_le n w = map (\<lambda>i. ucast (drop_bit (8 * i) w)) [0..<n]"

definition to_be :: "nat \<Rightarrow> 'a::len word \<Rightarrow> bytes" where
  "to_be n w = rev (to_le n w)"

fun from_le :: "bytes \<Rightarrow> 'a::len word" where
  "from_le [] = 0"
| "from_le (b # bs) = ucast b OR push_bit 8 (from_le bs)"

definition from_be :: "bytes \<Rightarrow> 'a::len word" where
  "from_be bs = from_le (rev bs)"

lemma length_to_le [simp]: "length (to_le n w) = n"
  by (simp add: to_le_def)

lemma length_to_be [simp]: "length (to_be n w) = n"
  by (simp add: to_be_def)

lemma nth_to_le: "i < n \<Longrightarrow> to_le n w ! i = ucast (drop_bit (8 * i) w)"
  by (simp add: to_le_def)

lemma nth_to_be: "i < n \<Longrightarrow> to_be n w ! i = ucast (drop_bit (8 * (n - Suc i)) w)"
  by (simp add: to_be_def rev_nth nth_to_le)

lemma rev_to_be: "rev (to_be n w) = to_le n w"
  by (simp add: to_be_def)

lemma bit_from_le:
  "bit (from_le bs :: 'a::len word) i \<longleftrightarrow>
     i < LENGTH('a) \<and> i < 8 * length bs \<and> bit (bs ! (i div 8)) (i mod 8)"
proof (induction bs arbitrary: i)
  case Nil
  then show ?case by simp
next
  case (Cons b bs)
  show ?case
  proof (cases "i < 8")
    case True
    then show ?thesis by (auto simp: bit_simps)
  next
    case False
    then obtain j where i: "i = 8 + j" by (metis add_diff_inverse)
    have "\<not> bit b i" using False by (auto dest: bit_imp_le_length)
    have "(8 + j) div 8 = Suc (j div 8)" and "(8 + j) mod 8 = j mod 8" by simp_all
    with i \<open>\<not> bit b i\<close> show ?thesis by (auto simp: bit_simps Cons.IH)
  qed
qed

lemma from_le_to_le:
  assumes "LENGTH('a) \<le> 8 * n"
  shows "from_le (to_le n w) = (w :: 'a::len word)"
proof (rule bit_word_eqI)
  fix i assume i: "i < LENGTH('a)"
  with assms have "i div 8 < n" by simp
  with i assms show "bit (from_le (to_le n w) :: 'a word) i \<longleftrightarrow> bit w i"
    by (simp add: bit_from_le to_le_def bit_simps)
qed

lemma to_le_from_le:
  assumes "length bs = n" and "8 * n \<le> LENGTH('a)"
  shows "to_le n (from_le bs :: 'a::len word) = bs"
proof (rule nth_equalityI)
  show "length (to_le n (from_le bs :: 'a word)) = length bs" using assms by simp
next
  fix k assume k: "k < length (to_le n (from_le bs :: 'a word))"
  show "to_le n (from_le bs :: 'a word) ! k = bs ! k"
  proof (rule bit_word_eqI)
    fix i assume i: "i < LENGTH(8)"
    from k assms have "8 * k + 8 \<le> LENGTH('a)" and "8 * k + 8 \<le> 8 * n" by simp_all
    with i k assms show "bit (to_le n (from_le bs :: 'a word) ! k) i \<longleftrightarrow> bit (bs ! k) i"
      by (simp add: bit_from_le to_le_def bit_simps)
  qed
qed

lemma from_be_to_be:
  "LENGTH('a) \<le> 8 * n \<Longrightarrow> from_be (to_be n w) = (w :: 'a::len word)"
  by (simp add: from_be_def to_be_def from_le_to_le)

lemma to_be_from_be:
  "length bs = n \<Longrightarrow> 8 * n \<le> LENGTH('a) \<Longrightarrow> to_be n (from_be bs :: 'a::len word) = bs"
  by (simp add: from_be_def to_be_def to_le_from_le)

lemma u8_via_u32: "ucast (ucast (b :: u8) :: u32) = b"
  by (rule bit_word_eqI) (simp add: bit_simps)

section \<open>Fields of a word\<close>

declare bit_numeral_word_iff [simp del]
  push_bit_and [simp del] push_bit_or [simp del] push_bit_xor [simp del]
  drop_bit_and [simp del] drop_bit_or [simp del] drop_bit_xor [simp del]

text \<open>A constant whose set bits are an interval, as the masks of the sources are.\<close>

lemma bit_field:
  assumes "c = push_bit k (mask m :: 'a::len word)" and "k + m \<le> LENGTH('a)"
  shows "bit c n \<longleftrightarrow> k \<le> n \<and> n < k + m"
  using assms by (auto simp: bit_simps)

lemma bit_masks [simp]:
  "bit (0x0001 :: u64) n \<longleftrightarrow> n < 1"
  "bit (0x0004 :: u64) n \<longleftrightarrow> 2 \<le> n \<and> n < 3"
  "bit (0x0003 :: u64) n \<longleftrightarrow> n < 2"
  "bit (0x00FC :: u64) n \<longleftrightarrow> 2 \<le> n \<and> n < 8"
  "bit (0x00FE :: u64) n \<longleftrightarrow> 1 \<le> n \<and> n < 8"
  "bit (0x3F :: u64) n \<longleftrightarrow> n < 6"
  "bit (0x7F :: u64) n \<longleftrightarrow> n < 7"
  "bit (0xFF :: u64) n \<longleftrightarrow> n < 8"
  "bit (0x3FF :: u64) n \<longleftrightarrow> n < 10"
  "bit (0x3FFFFFFFFF :: u64) n \<longleftrightarrow> n < 38"
  "bit (0xF000000000000000 :: u64) n \<longleftrightarrow> 60 \<le> n \<and> n < 64"
  "bit (0x0FFFF00000000000 :: u64) n \<longleftrightarrow> 44 \<le> n \<and> n < 60"
  "bit (0x3FF00000 :: u64) n \<longleftrightarrow> 20 \<le> n \<and> n < 30"
  "bit (0x00000FFFC0000000 :: u64) n \<longleftrightarrow> 30 \<le> n \<and> n < 44"
  "bit (0xF0000 :: u64) n \<longleftrightarrow> 16 \<le> n \<and> n < 20"
  "bit (0xFFFF :: u64) n \<longleftrightarrow> n < 16"
  subgoal by (rule trans [OF bit_field [where k = 0 and m = 1]]) (auto simp: mask_eq_exp_minus_1)
  subgoal by (rule trans [OF bit_field [where k = 2 and m = 1]]) (auto simp: mask_eq_exp_minus_1)
  subgoal by (rule trans [OF bit_field [where k = 0 and m = 2]]) (auto simp: mask_eq_exp_minus_1)
  subgoal by (rule trans [OF bit_field [where k = 2 and m = 6]]) (auto simp: mask_eq_exp_minus_1)
  subgoal by (rule trans [OF bit_field [where k = 1 and m = 7]]) (auto simp: mask_eq_exp_minus_1)
  subgoal by (rule trans [OF bit_field [where k = 0 and m = 6]]) (auto simp: mask_eq_exp_minus_1)
  subgoal by (rule trans [OF bit_field [where k = 0 and m = 7]]) (auto simp: mask_eq_exp_minus_1)
  subgoal by (rule trans [OF bit_field [where k = 0 and m = 8]]) (auto simp: mask_eq_exp_minus_1)
  subgoal by (rule trans [OF bit_field [where k = 0 and m = 10]]) (auto simp: mask_eq_exp_minus_1)
  subgoal by (rule trans [OF bit_field [where k = 0 and m = 38]]) (auto simp: mask_eq_exp_minus_1)
  subgoal by (rule trans [OF bit_field [where k = 60 and m = 4]]) (auto simp: mask_eq_exp_minus_1)
  subgoal by (rule trans [OF bit_field [where k = 44 and m = 16]]) (auto simp: mask_eq_exp_minus_1)
  subgoal by (rule trans [OF bit_field [where k = 20 and m = 10]]) (auto simp: mask_eq_exp_minus_1)
  subgoal by (rule trans [OF bit_field [where k = 30 and m = 14]]) (auto simp: mask_eq_exp_minus_1)
  subgoal by (rule trans [OF bit_field [where k = 16 and m = 4]]) (auto simp: mask_eq_exp_minus_1)
  subgoal by (rule trans [OF bit_field [where k = 0 and m = 16]]) (auto simp: mask_eq_exp_minus_1)
  done

lemma not_bit_high:
  assumes "unat (w :: 'a::len word) < 2 ^ k" and "k \<le> n"
  shows "\<not> bit w n"
proof -
  note assms(1)
  also have "(2 :: nat) ^ k \<le> 2 ^ n" using assms(2) by (intro power_increasing) simp_all
  finally have "take_bit n (unat w) = unat w" by (simp add: take_bit_nat_eq_self_iff)
  then have "\<not> bit (unat w) n" by (metis bit_take_bit_iff less_irrefl)
  then show ?thesis by (simp add: bit_unsigned_iff)
qed

section \<open>The host's memory representation\<close>

datatype endian = Little | Big

definition store :: "endian \<Rightarrow> nat \<Rightarrow> 'a::len word \<Rightarrow> bytes" where
  "store e n w = (case e of Little \<Rightarrow> to_le n w | Big \<Rightarrow> to_be n w)"

definition load :: "endian \<Rightarrow> bytes \<Rightarrow> 'a::len word" where
  "load e bs = (case e of Little \<Rightarrow> from_le bs | Big \<Rightarrow> from_be bs)"

lemma length_store [simp]: "length (store e n w) = n"
  by (simp add: store_def split: endian.split)

lemma load_store [codec]:
  "LENGTH('a) \<le> 8 * n \<Longrightarrow> load e (store e n w) = (w :: 'a::len word)"
  by (simp add: load_def store_def from_le_to_le from_be_to_be split: endian.split)

lemma store_load [codec]:
  "length bs = n \<Longrightarrow> 8 * n \<le> LENGTH('a) \<Longrightarrow> store e n (load e bs :: 'a::len word) = bs"
  by (simp add: load_def store_def to_le_from_le to_be_from_be split: endian.split)

text \<open>An array of machine words in memory, and a buffer read back as such an array.\<close>

definition store_words :: "endian \<Rightarrow> nat \<Rightarrow> 'a::len word list \<Rightarrow> bytes" where
  "store_words e n ws = concat (map (store e n) ws)"

definition load_at :: "endian \<Rightarrow> nat \<Rightarrow> bytes \<Rightarrow> nat \<Rightarrow> 'a::len word" where
  "load_at e n bs i = load e (take n (drop (n * i) bs))"

definition load_words :: "endian \<Rightarrow> nat \<Rightarrow> nat \<Rightarrow> bytes \<Rightarrow> 'a::len word list" where
  "load_words e n count bs = map (load_at e n bs) [0..<count]"

lemma length_store_words [simp]: "length (store_words e n ws) = n * length ws"
  by (induction ws) (simp_all add: store_words_def)

lemma store_words_simps [simp]:
  "store_words e n [] = []"
  "store_words e n (w # ws) = store e n w @ store_words e n ws"
  "store_words e n (us @ ws) = store_words e n us @ store_words e n ws"
  by (simp_all add: store_words_def)

lemma length_load_words [simp]: "length (load_words e n c bs) = c"
  by (simp add: load_words_def)

lemma drop_store_words: "drop (n * i) (store_words e n ws) = store_words e n (drop i ws)"
proof (induction i arbitrary: ws)
  case 0
  then show ?case by simp
next
  case (Suc i)
  show ?case
  proof (cases ws)
    case Nil
    then show ?thesis by simp
  next
    case (Cons w ws')
    have "drop (n * Suc i) (store e n w @ store_words e n ws') = drop (n * i) (store_words e n ws')"
      by simp
    with Cons show ?thesis by (simp add: Suc.IH)
  qed
qed

lemma load_at_store_words [codec]:
  assumes "i < length ws" and "LENGTH('a) \<le> 8 * n"
  shows "load_at e n (store_words e n ws @ rest) i = (ws ! i :: 'a::len word)"
proof -
  from assms(1) have d: "drop i ws = ws ! i # drop (Suc i) ws"
    by (rule Cons_nth_drop_Suc [symmetric])
  from assms(1) have "n * i \<le> length (store_words e n ws)" by simp
  then have "take n (drop (n * i) (store_words e n ws @ rest)) = store e n (ws ! i)"
    by (simp add: drop_store_words d)
  with assms(2) show ?thesis by (simp add: load_at_def load_store)
qed

lemma load_words_store_words [codec]:
  assumes "LENGTH('a) \<le> 8 * n" and "c = length ws"
  shows "load_words e n c (store_words e n ws @ rest) = (ws :: 'a::len word list)"
  using assms by (intro nth_equalityI) (simp_all add: load_words_def load_at_store_words)

section \<open>Lists\<close>

lemma concat_length_const:
  "(\<And>x. x \<in> set xs \<Longrightarrow> length (f x) = n) \<Longrightarrow> length (concat (map f xs)) = n * length xs"
  by (induction xs) simp_all

lemma filter_update_length:
  "i < length xs \<Longrightarrow> P (xs ! i) = P y \<Longrightarrow>
     length (filter P (xs[i := y])) = length (filter P xs)"
proof (induction xs arbitrary: i)
  case Nil
  then show ?case by simp
next
  case (Cons x xs)
  then show ?case by (cases i) auto
qed

section \<open>Decimal and hexadecimal text\<close>

definition digit_char :: "nat \<Rightarrow> char" where
  "digit_char d = (if d < 10 then char_of (48 + d) else char_of (55 + d))"

fun show_base :: "nat \<Rightarrow> nat \<Rightarrow> string" where
  "show_base b n = (if b < 2 \<or> n < b then [digit_char n]
                    else show_base b (n div b) @ [digit_char (n mod b)])"

declare show_base.simps [simp del]

text \<open>\<open>std::to_string\<close> on integers, and \<open>std::hex << std::uppercase\<close> on unsigned ones.\<close>

definition to_string :: "int \<Rightarrow> string" where
  "to_string n = (if n < 0 then CHR ''-'' # show_base 10 (nat (- n)) else show_base 10 (nat n))"

definition to_hex :: "u32 \<Rightarrow> string" where
  "to_hex w = show_base 16 (unat w)"

section \<open>Log messages\<close>

text \<open>The signals \<open>log\<close>, \<open>warn\<close> and \<open>err\<close> of \<open>BgThread\<close>, in the order emitted.\<close>

datatype log_entry = Log string | Warn string | Err string

end
