(* ===== verification/ByteOrder.thy ===== *)
theory ByteOrder
  imports Prelude
begin

text \<open>
  Network byte order (\<open>namespace io\<close> of include/server/CommsThread.h).  The host's byte
  order is the argument \<open>e\<close>: the wire format must not depend on it.  \<open>htonl\<close> is
  asio's: it fills the four bytes of its result most significant byte first and returns
  them as a native word.
\<close>

definition htonl :: "endian \<Rightarrow> u32 \<Rightarrow> u32" where
  "htonl e x = load e (to_be 4 x)"

definition ntohl :: "endian \<Rightarrow> u32 \<Rightarrow> u32" where
  "ntohl e x = from_be (store e 4 x)"

definition htonll :: "endian \<Rightarrow> u64 \<Rightarrow> u64" where
  "htonll e x =
     (let ordered = htonl e 1 = 1
      in if ordered then x
         else ucast (htonl e (ucast (drop_bit 32 x AND 0xFFFFFFFF)))
              OR push_bit 32 (ucast (htonl e (ucast (x AND 0xFFFFFFFF)))))"

definition ntohll :: "endian \<Rightarrow> u64 \<Rightarrow> u64" where
  "ntohll e x = htonll e x"

section \<open>The contract of a conversion pair\<close>

text \<open>
  What the users of a conversion rely on: the converted word, stored in the host's own
  order, is the value's big-endian representation, and the second conversion undoes the
  first.
\<close>

locale network_order =
  fixes to_net :: "endian \<Rightarrow> 'a::len word \<Rightarrow> 'a word"
    and from_net :: "endian \<Rightarrow> 'a word \<Rightarrow> 'a word"
    and n :: nat
  assumes size: "LENGTH('a) = 8 * n"
    and wire: "store e n (to_net e x) = to_be n x"
    and from_to: "from_net e (to_net e x) = x"
begin

lemma wire_words: "store_words e n (map (to_net e) ws) = concat (map (to_be n) ws)"
  by (induction ws) (simp_all add: wire)

lemma host_independent:
  "store_words e n (map (to_net e) ws) = store_words e' n (map (to_net e') ws)"
  by (simp add: wire_words)

lemma read_back:
  assumes "i < length ws"
  shows "from_net e (load_at e n (concat (map (to_be n) ws) @ rest) i) = ws ! i"
proof -
  have "load_at e n (store_words e n (map (to_net e) ws) @ rest) i = map (to_net e) ws ! i"
    using assms size by (intro load_at_store_words) simp_all
  with assms show ?thesis by (simp add: wire_words from_to)
qed

end

section \<open>The two instances\<close>

lemma store_htonl [codec]: "store e 4 (htonl e x) = to_be 4 x"
  by (simp add: htonl_def store_load)

lemma ntohl_htonl [codec]: "ntohl e (htonl e x) = x"
  by (simp add: ntohl_def store_htonl from_be_to_be)

lemma htonl_ordered: "htonl e 1 = 1 \<longleftrightarrow> e = Big"
proof (cases e)
  case Little
  have "(load Little (to_be 4 (1 :: u32)) :: u32) = 0x1000000"
    by (simp add: load_def to_be_def to_le_def upt_conv_Cons)
  with Little show ?thesis by (simp add: htonl_def)
next
  case Big
  then show ?thesis by (simp add: htonl_def load_def from_be_to_be)
qed

text \<open>On a little-endian host the two halves are swapped and each is byte-reversed.\<close>

lemma bit_htonl_Little:
  assumes "i < 32"
  shows "bit (htonl Little x) i \<longleftrightarrow> bit x (8 * (3 - i div 8) + i mod 8)"
proof -
  from assms have "i div 8 < 4" by simp
  with assms show ?thesis
    by (simp add: htonl_def load_def bit_from_le nth_to_be bit_simps)
qed

lemma low_half: "(x :: u64) AND 0xFFFFFFFF = take_bit 32 x"
proof -
  have "(0xFFFFFFFF :: u64) = mask 32" by (simp add: mask_eq_exp_minus_1)
  then show ?thesis by (simp only: take_bit_eq_mask)
qed

lemma bit_htonll_Little:
  assumes i: "i < 64"
  shows "bit (htonll Little x) i \<longleftrightarrow> bit x (8 * (7 - i div 8) + i mod 8)"
proof (cases "i < 32")
  case True
  then have "8 * (3 - i div 8) + i mod 8 < 32"
    and "32 + (8 * (3 - i div 8) + i mod 8) = 8 * (7 - i div 8) + i mod 8" by presburger+
  with True show ?thesis
    by (simp add: htonll_def htonl_ordered low_half bit_simps bit_htonl_Little flip: add.assoc)
next
  case False
  define j where "j = i - 32"
  with False i have i': "i = 32 + j" and j: "j < 32" by simp_all
  then have "i div 8 = 4 + j div 8" and "j div 8 \<le> 3" by simp_all
  moreover from i' have "i mod 8 = j mod 8" by presburger
  moreover from j have "8 * (3 - j div 8) + j mod 8 < 32" by presburger
  moreover have "\<not> bit (w :: u32) (32 + j)" for w by (auto dest: bit_imp_le_length)
  ultimately show ?thesis using i' j
    by (simp add: htonll_def htonl_ordered low_half bit_simps bit_htonl_Little)
qed

lemma store_htonll [codec]: "store e 8 (htonll e x) = to_be 8 x"
proof (cases e)
  case Little
  have "htonll Little x = load Little (to_be 8 x)"
    by (rule bit_word_eqI)
       (simp add: bit_htonll_Little load_def bit_from_le nth_to_be bit_simps)
  with Little show ?thesis by (simp add: store_load)
next
  case Big
  then show ?thesis by (simp add: htonll_def htonl_ordered store_def)
qed

lemma ntohll_htonll [codec]: "ntohll e (htonll e x) = x"
proof (cases e)
  case Little
  have "htonll Little (htonll Little x) = x"
    by (rule bit_word_eqI) (simp add: bit_htonll_Little)
  with Little show ?thesis by (simp add: ntohll_def)
next
  case Big
  then show ?thesis by (simp add: ntohll_def htonll_def htonl_ordered)
qed

interpretation net32: network_order htonl ntohl 4
  by unfold_locales (simp_all add: codec)

interpretation net64: network_order htonll ntohll 8
  by unfold_locales (simp_all add: codec)

end
