(* ===== verification/Codes.thy ===== *)
theory Codes
  imports Prelude
begin

text \<open>
  The two command vocabularies: \<open>ServerCommand\<close> (include/server/ServerCodes.h), spoken
  between clients and the server, and \<open>TpxCommand\<close> (include/server/TimepixCodes.h), spoken
  between the server and the SPIDR board.

  Both are \<open>enum class : std::uint32_t\<close>: a distinct type over all 32-bit values, of which
  some have names; \<open>static_cast\<close> admits unnamed values, and the code relies on that for
  codes it receives.  So each is a one-constructor datatype over \<^typ>\<open>u32\<close>, ordered by the
  underlying value as the \<open>std::map\<close> and \<open>std::set\<close> tables need, and each enumerator
  is an abbreviation.  The enumerator tables list all names with their values.
\<close>

section \<open>Client commands\<close>

datatype server_command = ServerCommand (server_code: u32)

instantiation server_command :: linorder
begin

definition less_eq_server_command :: "server_command \<Rightarrow> server_command \<Rightarrow> bool" where
  "less_eq_server_command a b \<longleftrightarrow> server_code a \<le> server_code b"

definition less_server_command :: "server_command \<Rightarrow> server_command \<Rightarrow> bool" where
  "less_server_command a b \<longleftrightarrow> server_code a < server_code b"

instance
  by standard
    (auto simp: less_eq_server_command_def less_server_command_def intro: server_command.expand)

end

abbreviation NOP :: server_command where "NOP \<equiv> ServerCommand 0"
abbreviation GET_SOFTWARE_VERSION :: server_command where "GET_SOFTWARE_VERSION \<equiv> ServerCommand 1"
abbreviation GET_FIRMWARE_VERSION :: server_command where "GET_FIRMWARE_VERSION \<equiv> ServerCommand 2"
abbreviation GET_CAMERA_ID :: server_command where "GET_CAMERA_ID \<equiv> ServerCommand 3"
abbreviation GET_DEVICE_IDS :: server_command where "GET_DEVICE_IDS \<equiv> ServerCommand 4"
abbreviation GET_LOCAL_TEMP :: server_command where "GET_LOCAL_TEMP \<equiv> ServerCommand 5"
abbreviation GET_REMOTE_TEMP :: server_command where "GET_REMOTE_TEMP \<equiv> ServerCommand 6"
abbreviation GET_FPGA_TEMP :: server_command where "GET_FPGA_TEMP \<equiv> ServerCommand 7"
abbreviation GET_FAN_SPEED :: server_command where "GET_FAN_SPEED \<equiv> ServerCommand 8"
abbreviation GET_PRESSURE :: server_command where "GET_PRESSURE \<equiv> ServerCommand 9"
abbreviation GET_HUMIDITY :: server_command where "GET_HUMIDITY \<equiv> ServerCommand 10"
abbreviation GET_SPIDR_ADC :: server_command where "GET_SPIDR_ADC \<equiv> ServerCommand 11"
abbreviation SET_BIAS_VOLTAGE :: server_command where "SET_BIAS_VOLTAGE \<equiv> ServerCommand 12"
abbreviation SET_BIAS_SUPPLY_ENABLED :: server_command where "SET_BIAS_SUPPLY_ENABLED \<equiv> ServerCommand 13"
abbreviation GET_DEVICE_PORT :: server_command where "GET_DEVICE_PORT \<equiv> ServerCommand 14"
abbreviation GET_SERVER_PORT :: server_command where "GET_SERVER_PORT \<equiv> ServerCommand 15"
abbreviation SET_SERVER_PORT :: server_command where "SET_SERVER_PORT \<equiv> ServerCommand 16"
abbreviation SET_TOA_DECODERS_ENABLED :: server_command where "SET_TOA_DECODERS_ENABLED \<equiv> ServerCommand 17"
abbreviation RESTART_TIMERS :: server_command where "RESTART_TIMERS \<equiv> ServerCommand 18"
abbreviation RESET_TIMERS :: server_command where "RESET_TIMERS \<equiv> ServerCommand 19"
abbreviation RESET_PIXELS :: server_command where "RESET_PIXELS \<equiv> ServerCommand 20"
abbreviation GET_SPIDR_REGISTER :: server_command where "GET_SPIDR_REGISTER \<equiv> ServerCommand 21"
abbreviation SET_SPIDR_REGISTER :: server_command where "SET_SPIDR_REGISTER \<equiv> ServerCommand 22"
abbreviation GET_PLL_CONFIG :: server_command where "GET_PLL_CONFIG \<equiv> ServerCommand 23"
abbreviation SET_PLL_CONFIG :: server_command where "SET_PLL_CONFIG \<equiv> ServerCommand 24"
abbreviation GET_HEADER_FILTER :: server_command where "GET_HEADER_FILTER \<equiv> ServerCommand 25"
abbreviation SET_HEADER_FILTER :: server_command where "SET_HEADER_FILTER \<equiv> ServerCommand 26"
abbreviation GET_GEN_CONFIG :: server_command where "GET_GEN_CONFIG \<equiv> ServerCommand 27"
abbreviation SET_GEN_CONFIG :: server_command where "SET_GEN_CONFIG \<equiv> ServerCommand 28"
abbreviation GET_PERIOD_PHASE :: server_command where "GET_PERIOD_PHASE \<equiv> ServerCommand 29"
abbreviation SET_PERIOD_PHASE :: server_command where "SET_PERIOD_PHASE \<equiv> ServerCommand 30"
abbreviation GET_TRIGGER_CONF :: server_command where "GET_TRIGGER_CONF \<equiv> ServerCommand 31"
abbreviation SET_TRIGGER_CONF :: server_command where "SET_TRIGGER_CONF \<equiv> ServerCommand 32"
abbreviation GET_DAC :: server_command where "GET_DAC \<equiv> ServerCommand 33"
abbreviation SET_DAC :: server_command where "SET_DAC \<equiv> ServerCommand 34"
abbreviation START_READOUT :: server_command where "START_READOUT \<equiv> ServerCommand 35"
abbreviation STOP_READOUT :: server_command where "STOP_READOUT \<equiv> ServerCommand 36"
abbreviation AUTOTRIG_START :: server_command where "AUTOTRIG_START \<equiv> ServerCommand 37"
abbreviation AUTOTRIG_STOP :: server_command where "AUTOTRIG_STOP \<equiv> ServerCommand 38"
abbreviation GET_PIXEL_CONFIG :: server_command where "GET_PIXEL_CONFIG \<equiv> ServerCommand 39"
abbreviation SET_PIXEL_CONFIG :: server_command where "SET_PIXEL_CONFIG \<equiv> ServerCommand 40"
abbreviation RESET_MODULE :: server_command where "RESET_MODULE \<equiv> ServerCommand 41"
abbreviation GET_READOUT_SPEED :: server_command where "GET_READOUT_SPEED \<equiv> ServerCommand 42"
abbreviation SET_SENSEDAC :: server_command where "SET_SENSEDAC \<equiv> ServerCommand 48"
abbreviation SET_UDP_PORT :: server_command where "SET_UDP_PORT \<equiv> ServerCommand 500"
abbreviation SET_RAW_TPX3_PATH :: server_command where "SET_RAW_TPX3_PATH \<equiv> ServerCommand 501"
abbreviation GET_RAW_DATA_SERVER_PATH :: server_command where "GET_RAW_DATA_SERVER_PATH \<equiv> ServerCommand 502"
abbreviation RESET_TOA_ROLLOVER_COUNTER :: server_command where "RESET_TOA_ROLLOVER_COUNTER \<equiv> ServerCommand 503"
abbreviation GET_CLUSTER_SERVER_PATH :: server_command where "GET_CLUSTER_SERVER_PATH \<equiv> ServerCommand 600"
abbreviation SET_CLUSTER_INPUT_SERVER :: server_command where "SET_CLUSTER_INPUT_SERVER \<equiv> ServerCommand 601"
abbreviation SET_CLUSTER_PARAMETERS :: server_command where "SET_CLUSTER_PARAMETERS \<equiv> ServerCommand 602"
abbreviation FLUSH_CLUSTERS :: server_command where "FLUSH_CLUSTERS \<equiv> ServerCommand 603"
abbreviation SET_CLUSTER_PATH :: server_command where "SET_CLUSTER_PATH \<equiv> ServerCommand 604"
abbreviation GET_HISTOGRAM_SERVER_PATH :: server_command where "GET_HISTOGRAM_SERVER_PATH \<equiv> ServerCommand 700"
abbreviation SET_HISTOGRAM_INPUT_SERVER :: server_command where "SET_HISTOGRAM_INPUT_SERVER \<equiv> ServerCommand 701"
abbreviation SET_HISTOGRAM_OUTPUT_PERIOD :: server_command where "SET_HISTOGRAM_OUTPUT_PERIOD \<equiv> ServerCommand 702"
abbreviation INVALID_COMMAND_DATA :: server_command where "INVALID_COMMAND_DATA \<equiv> ServerCommand 993"
abbreviation CANT_OPEN_FILE :: server_command where "CANT_OPEN_FILE \<equiv> ServerCommand 994"
abbreviation THREAD_NOT_CONNECTED :: server_command where "THREAD_NOT_CONNECTED \<equiv> ServerCommand 995"
abbreviation THREAD_NOT_STARTED :: server_command where "THREAD_NOT_STARTED \<equiv> ServerCommand 996"
abbreviation SERVER_RESET :: server_command where "SERVER_RESET \<equiv> ServerCommand 997"
abbreviation ERROR_OCCURED :: server_command where "ERROR_OCCURED \<equiv> ServerCommand 998"
abbreviation UNKNOWN_COMMAND :: server_command where "UNKNOWN_COMMAND \<equiv> ServerCommand 999"

definition server_enumerators :: "(string \<times> u32) list" where
  "server_enumerators = [
    (''NOP'', 0),
    (''GET_SOFTWARE_VERSION'', 1),
    (''GET_FIRMWARE_VERSION'', 2),
    (''GET_CAMERA_ID'', 3),
    (''GET_DEVICE_IDS'', 4),
    (''GET_LOCAL_TEMP'', 5),
    (''GET_REMOTE_TEMP'', 6),
    (''GET_FPGA_TEMP'', 7),
    (''GET_FAN_SPEED'', 8),
    (''GET_PRESSURE'', 9),
    (''GET_HUMIDITY'', 10),
    (''GET_SPIDR_ADC'', 11),
    (''SET_BIAS_VOLTAGE'', 12),
    (''SET_BIAS_SUPPLY_ENABLED'', 13),
    (''GET_DEVICE_PORT'', 14),
    (''GET_SERVER_PORT'', 15),
    (''SET_SERVER_PORT'', 16),
    (''SET_TOA_DECODERS_ENABLED'', 17),
    (''RESTART_TIMERS'', 18),
    (''RESET_TIMERS'', 19),
    (''RESET_PIXELS'', 20),
    (''GET_SPIDR_REGISTER'', 21),
    (''SET_SPIDR_REGISTER'', 22),
    (''GET_PLL_CONFIG'', 23),
    (''SET_PLL_CONFIG'', 24),
    (''GET_HEADER_FILTER'', 25),
    (''SET_HEADER_FILTER'', 26),
    (''GET_GEN_CONFIG'', 27),
    (''SET_GEN_CONFIG'', 28),
    (''GET_PERIOD_PHASE'', 29),
    (''SET_PERIOD_PHASE'', 30),
    (''GET_TRIGGER_CONF'', 31),
    (''SET_TRIGGER_CONF'', 32),
    (''GET_DAC'', 33),
    (''SET_DAC'', 34),
    (''START_READOUT'', 35),
    (''STOP_READOUT'', 36),
    (''AUTOTRIG_START'', 37),
    (''AUTOTRIG_STOP'', 38),
    (''GET_PIXEL_CONFIG'', 39),
    (''SET_PIXEL_CONFIG'', 40),
    (''RESET_MODULE'', 41),
    (''GET_READOUT_SPEED'', 42),
    (''SET_SENSEDAC'', 48),
    (''SET_UDP_PORT'', 500),
    (''SET_RAW_TPX3_PATH'', 501),
    (''GET_RAW_DATA_SERVER_PATH'', 502),
    (''RESET_TOA_ROLLOVER_COUNTER'', 503),
    (''GET_CLUSTER_SERVER_PATH'', 600),
    (''SET_CLUSTER_INPUT_SERVER'', 601),
    (''SET_CLUSTER_PARAMETERS'', 602),
    (''FLUSH_CLUSTERS'', 603),
    (''SET_CLUSTER_PATH'', 604),
    (''GET_HISTOGRAM_SERVER_PATH'', 700),
    (''SET_HISTOGRAM_INPUT_SERVER'', 701),
    (''SET_HISTOGRAM_OUTPUT_PERIOD'', 702),
    (''INVALID_COMMAND_DATA'', 993),
    (''CANT_OPEN_FILE'', 994),
    (''THREAD_NOT_CONNECTED'', 995),
    (''THREAD_NOT_STARTED'', 996),
    (''SERVER_RESET'', 997),
    (''ERROR_OCCURED'', 998),
    (''UNKNOWN_COMMAND'', 999)]"

section \<open>SPIDR commands\<close>

datatype tpx_command = TpxCommand (tpx_code: u32)

instantiation tpx_command :: linorder
begin

definition less_eq_tpx_command :: "tpx_command \<Rightarrow> tpx_command \<Rightarrow> bool" where
  "less_eq_tpx_command a b \<longleftrightarrow> tpx_code a \<le> tpx_code b"

definition less_tpx_command :: "tpx_command \<Rightarrow> tpx_command \<Rightarrow> bool" where
  "less_tpx_command a b \<longleftrightarrow> tpx_code a < tpx_code b"

instance
  by standard
    (auto simp: less_eq_tpx_command_def less_tpx_command_def intro: tpx_command.expand)

end

abbreviation CMD_NOP :: tpx_command where "CMD_NOP \<equiv> TpxCommand 0x000"
abbreviation CMD_GET_SOFTWVERSION :: tpx_command where "CMD_GET_SOFTWVERSION \<equiv> TpxCommand 0x901"
abbreviation CMD_GET_FIRMWVERSION :: tpx_command where "CMD_GET_FIRMWVERSION \<equiv> TpxCommand 0x902"
abbreviation CMD_GET_HEADERFILTER :: tpx_command where "CMD_GET_HEADERFILTER \<equiv> TpxCommand 0x905"
abbreviation CMD_SET_HEADERFILTER :: tpx_command where "CMD_SET_HEADERFILTER \<equiv> TpxCommand 0x906"
abbreviation CMD_RESET_MODULE :: tpx_command where "CMD_RESET_MODULE \<equiv> TpxCommand 0x907"
abbreviation CMD_SET_BUSY :: tpx_command where "CMD_SET_BUSY \<equiv> TpxCommand 0x908"
abbreviation CMD_CLEAR_BUSY :: tpx_command where "CMD_CLEAR_BUSY \<equiv> TpxCommand 0x909"
abbreviation CMD_SET_LOGLEVEL :: tpx_command where "CMD_SET_LOGLEVEL \<equiv> TpxCommand 0x90A"
abbreviation CMD_DISPLAY_INFO :: tpx_command where "CMD_DISPLAY_INFO \<equiv> TpxCommand 0x90B"
abbreviation CMD_SET_TIMEOFDAY :: tpx_command where "CMD_SET_TIMEOFDAY \<equiv> TpxCommand 0x90C"
abbreviation CMD_GET_DEVICECOUNT :: tpx_command where "CMD_GET_DEVICECOUNT \<equiv> TpxCommand 0x90D"
abbreviation CMD_GET_BOARDID :: tpx_command where "CMD_GET_BOARDID \<equiv> TpxCommand 0x90E"
abbreviation CMD_GET_CHIPBOARDID :: tpx_command where "CMD_GET_CHIPBOARDID \<equiv> TpxCommand 0x90F"
abbreviation CMD_GET_DEVICEID :: tpx_command where "CMD_GET_DEVICEID \<equiv> TpxCommand 0x110"
abbreviation CMD_GET_DEVICEIDS :: tpx_command where "CMD_GET_DEVICEIDS \<equiv> TpxCommand 0x111"
abbreviation CMD_GET_IPADDR_SRC :: tpx_command where "CMD_GET_IPADDR_SRC \<equiv> TpxCommand 0x112"
abbreviation CMD_SET_IPADDR_SRC :: tpx_command where "CMD_SET_IPADDR_SRC \<equiv> TpxCommand 0x113"
abbreviation CMD_GET_IPADDR_DEST :: tpx_command where "CMD_GET_IPADDR_DEST \<equiv> TpxCommand 0x114"
abbreviation CMD_SET_IPADDR_DEST :: tpx_command where "CMD_SET_IPADDR_DEST \<equiv> TpxCommand 0x115"
abbreviation CMD_GET_DEVICEPORT :: tpx_command where "CMD_GET_DEVICEPORT \<equiv> TpxCommand 0x116"
abbreviation CMD_GET_SERVERPORT :: tpx_command where "CMD_GET_SERVERPORT \<equiv> TpxCommand 0x117"
abbreviation CMD_SET_SERVERPORT :: tpx_command where "CMD_SET_SERVERPORT \<equiv> TpxCommand 0x119"
abbreviation CMD_GET_DAC :: tpx_command where "CMD_GET_DAC \<equiv> TpxCommand 0x11A"
abbreviation CMD_SET_DAC :: tpx_command where "CMD_SET_DAC \<equiv> TpxCommand 0x11B"
abbreviation CMD_SET_DACS_DFLT :: tpx_command where "CMD_SET_DACS_DFLT \<equiv> TpxCommand 0x11F"
abbreviation CMD_CONFIG_CTPR :: tpx_command where "CMD_CONFIG_CTPR \<equiv> TpxCommand 0x120"
abbreviation CMD_SET_CTPR :: tpx_command where "CMD_SET_CTPR \<equiv> TpxCommand 0x121"
abbreviation CMD_GET_CTPR :: tpx_command where "CMD_GET_CTPR \<equiv> TpxCommand 0x122"
abbreviation CMD_SET_CTPR_LEON :: tpx_command where "CMD_SET_CTPR_LEON \<equiv> TpxCommand 0x123"
abbreviation CMD_RESET_DEVICE :: tpx_command where "CMD_RESET_DEVICE \<equiv> TpxCommand 0x124"
abbreviation CMD_RESET_DEVICES :: tpx_command where "CMD_RESET_DEVICES \<equiv> TpxCommand 0x125"
abbreviation CMD_REINIT_DEVICE :: tpx_command where "CMD_REINIT_DEVICE \<equiv> TpxCommand 0x126"
abbreviation CMD_REINIT_DEVICES :: tpx_command where "CMD_REINIT_DEVICES \<equiv> TpxCommand 0x127"
abbreviation CMD_GET_EFUSES :: tpx_command where "CMD_GET_EFUSES \<equiv> TpxCommand 0x128"
abbreviation CMD_SET_PIXCONF :: tpx_command where "CMD_SET_PIXCONF \<equiv> TpxCommand 0x22A"
abbreviation CMD_GET_PIXCONF :: tpx_command where "CMD_GET_PIXCONF \<equiv> TpxCommand 0x22D"
abbreviation CMD_RESET_PIXELS :: tpx_command where "CMD_RESET_PIXELS \<equiv> TpxCommand 0x22E"
abbreviation CMD_GET_TPPERIODPHASE :: tpx_command where "CMD_GET_TPPERIODPHASE \<equiv> TpxCommand 0x330"
abbreviation CMD_SET_TPPERIODPHASE :: tpx_command where "CMD_SET_TPPERIODPHASE \<equiv> TpxCommand 0x331"
abbreviation CMD_SET_TPNUMBER :: tpx_command where "CMD_SET_TPNUMBER \<equiv> TpxCommand 0x332"
abbreviation CMD_GET_TPNUMBER :: tpx_command where "CMD_GET_TPNUMBER \<equiv> TpxCommand 0x333"
abbreviation CMD_GET_GENCONFIG :: tpx_command where "CMD_GET_GENCONFIG \<equiv> TpxCommand 0x334"
abbreviation CMD_SET_GENCONFIG :: tpx_command where "CMD_SET_GENCONFIG \<equiv> TpxCommand 0x335"
abbreviation CMD_GET_PLLCONFIG :: tpx_command where "CMD_GET_PLLCONFIG \<equiv> TpxCommand 0x336"
abbreviation CMD_SET_PLLCONFIG :: tpx_command where "CMD_SET_PLLCONFIG \<equiv> TpxCommand 0x337"
abbreviation CMD_SET_SENSEDAC :: tpx_command where "CMD_SET_SENSEDAC \<equiv> TpxCommand 0x338"
abbreviation CMD_SET_EXTDAC :: tpx_command where "CMD_SET_EXTDAC \<equiv> TpxCommand 0x33A"
abbreviation CMD_UPLOAD_PACKET :: tpx_command where "CMD_UPLOAD_PACKET \<equiv> TpxCommand 0x33B"
abbreviation CMD_GET_OUTBLOCKCONFIG :: tpx_command where "CMD_GET_OUTBLOCKCONFIG \<equiv> TpxCommand 0x33C"
abbreviation CMD_SET_OUTBLOCKCONFIG :: tpx_command where "CMD_SET_OUTBLOCKCONFIG \<equiv> TpxCommand 0x33D"
abbreviation CMD_GET_SLVSCONFIG :: tpx_command where "CMD_GET_SLVSCONFIG \<equiv> TpxCommand 0x33E"
abbreviation CMD_SET_SLVSCONFIG :: tpx_command where "CMD_SET_SLVSCONFIG \<equiv> TpxCommand 0x33F"
abbreviation CMD_GET_TRIGCONFIG :: tpx_command where "CMD_GET_TRIGCONFIG \<equiv> TpxCommand 0x440"
abbreviation CMD_SET_TRIGCONFIG :: tpx_command where "CMD_SET_TRIGCONFIG \<equiv> TpxCommand 0x441"
abbreviation CMD_AUTOTRIG_START :: tpx_command where "CMD_AUTOTRIG_START \<equiv> TpxCommand 0x442"
abbreviation CMD_AUTOTRIG_STOP :: tpx_command where "CMD_AUTOTRIG_STOP \<equiv> TpxCommand 0x443"
abbreviation CMD_SEQ_READOUT :: tpx_command where "CMD_SEQ_READOUT \<equiv> TpxCommand 0x445"
abbreviation CMD_DDRIVEN_READOUT :: tpx_command where "CMD_DDRIVEN_READOUT \<equiv> TpxCommand 0x446"
abbreviation CMD_PAUSE_READOUT :: tpx_command where "CMD_PAUSE_READOUT \<equiv> TpxCommand 0x447"
abbreviation CMD_GET_ADC :: tpx_command where "CMD_GET_ADC \<equiv> TpxCommand 0x548"
abbreviation CMD_GET_REMOTETEMP :: tpx_command where "CMD_GET_REMOTETEMP \<equiv> TpxCommand 0x549"
abbreviation CMD_GET_LOCALTEMP :: tpx_command where "CMD_GET_LOCALTEMP \<equiv> TpxCommand 0x54A"
abbreviation CMD_GET_AVDD :: tpx_command where "CMD_GET_AVDD \<equiv> TpxCommand 0x54B"
abbreviation CMD_GET_DVDD :: tpx_command where "CMD_GET_DVDD \<equiv> TpxCommand 0x54C"
abbreviation CMD_GET_AVDD_NOW :: tpx_command where "CMD_GET_AVDD_NOW \<equiv> TpxCommand 0x54D"
abbreviation CMD_GET_SPIDR_ADC :: tpx_command where "CMD_GET_SPIDR_ADC \<equiv> TpxCommand 0x54E"
abbreviation CMD_GET_DVDD_NOW :: tpx_command where "CMD_GET_DVDD_NOW \<equiv> TpxCommand 0x54F"
abbreviation CMD_RESTART_TIMERS :: tpx_command where "CMD_RESTART_TIMERS \<equiv> TpxCommand 0x550"
abbreviation CMD_RESET_TIMER :: tpx_command where "CMD_RESET_TIMER \<equiv> TpxCommand 0x551"
abbreviation CMD_GET_TIMER :: tpx_command where "CMD_GET_TIMER \<equiv> TpxCommand 0x552"
abbreviation CMD_SET_TIMER :: tpx_command where "CMD_SET_TIMER \<equiv> TpxCommand 0x553"
abbreviation CMD_GET_SHUTTERSTART :: tpx_command where "CMD_GET_SHUTTERSTART \<equiv> TpxCommand 0x554"
abbreviation CMD_GET_SHUTTEREND :: tpx_command where "CMD_GET_SHUTTEREND \<equiv> TpxCommand 0x555"
abbreviation CMD_GET_EXTSHUTTERCNTR :: tpx_command where "CMD_GET_EXTSHUTTERCNTR \<equiv> TpxCommand 0x556"
abbreviation CMD_GET_SHUTTERCNTR :: tpx_command where "CMD_GET_SHUTTERCNTR \<equiv> TpxCommand 0x557"
abbreviation CMD_RESET_COUNTERS :: tpx_command where "CMD_RESET_COUNTERS \<equiv> TpxCommand 0x558"
abbreviation CMD_GET_PWRPULSECONFIG :: tpx_command where "CMD_GET_PWRPULSECONFIG \<equiv> TpxCommand 0x55B"
abbreviation CMD_SET_PWRPULSECONFIG :: tpx_command where "CMD_SET_PWRPULSECONFIG \<equiv> TpxCommand 0x55C"
abbreviation CMD_PWRPULSE_ENA :: tpx_command where "CMD_PWRPULSE_ENA \<equiv> TpxCommand 0x55D"
abbreviation CMD_TPX_POWER_ENA :: tpx_command where "CMD_TPX_POWER_ENA \<equiv> TpxCommand 0x55E"
abbreviation CMD_BIAS_SUPPLY_ENA :: tpx_command where "CMD_BIAS_SUPPLY_ENA \<equiv> TpxCommand 0x55F"
abbreviation CMD_SET_BIAS_ADJUST :: tpx_command where "CMD_SET_BIAS_ADJUST \<equiv> TpxCommand 0x560"
abbreviation CMD_DECODERS_ENA :: tpx_command where "CMD_DECODERS_ENA \<equiv> TpxCommand 0x561"
abbreviation CMD_SET_OUTPUTMASK :: tpx_command where "CMD_SET_OUTPUTMASK \<equiv> TpxCommand 0x562"
abbreviation CMD_SET_READOUTSPEED :: tpx_command where "CMD_SET_READOUTSPEED \<equiv> TpxCommand 0x563"
abbreviation CMD_GET_READOUTSPEED :: tpx_command where "CMD_GET_READOUTSPEED \<equiv> TpxCommand 0x564"
abbreviation CMD_T0_SYNC :: tpx_command where "CMD_T0_SYNC \<equiv> TpxCommand 0x565"
abbreviation CMD_GET_FPGATEMP :: tpx_command where "CMD_GET_FPGATEMP \<equiv> TpxCommand 0x568"
abbreviation CMD_GET_FANSPEED :: tpx_command where "CMD_GET_FANSPEED \<equiv> TpxCommand 0x569"
abbreviation CMD_SET_FANSPEED :: tpx_command where "CMD_SET_FANSPEED \<equiv> TpxCommand 0x56A"
abbreviation CMD_SELECT_CHIPBOARD :: tpx_command where "CMD_SELECT_CHIPBOARD \<equiv> TpxCommand 0x56B"
abbreviation CMD_GET_VDD :: tpx_command where "CMD_GET_VDD \<equiv> TpxCommand 0x56C"
abbreviation CMD_GET_VDD_NOW :: tpx_command where "CMD_GET_VDD_NOW \<equiv> TpxCommand 0x56D"
abbreviation CMD_GET_HUMIDITY :: tpx_command where "CMD_GET_HUMIDITY \<equiv> TpxCommand 0x56E"
abbreviation CMD_GET_PRESSURE :: tpx_command where "CMD_GET_PRESSURE \<equiv> TpxCommand 0x56F"
abbreviation CMD_STORE_ADDRPORTS :: tpx_command where "CMD_STORE_ADDRPORTS \<equiv> TpxCommand 0x670"
abbreviation CMD_STORE_DACS :: tpx_command where "CMD_STORE_DACS \<equiv> TpxCommand 0x671"
abbreviation CMD_STORE_REGISTERS :: tpx_command where "CMD_STORE_REGISTERS \<equiv> TpxCommand 0x672"
abbreviation CMD_STORE_PIXCONF :: tpx_command where "CMD_STORE_PIXCONF \<equiv> TpxCommand 0x673"
abbreviation CMD_ERASE_ADDRPORTS :: tpx_command where "CMD_ERASE_ADDRPORTS \<equiv> TpxCommand 0x674"
abbreviation CMD_ERASE_DACS :: tpx_command where "CMD_ERASE_DACS \<equiv> TpxCommand 0x675"
abbreviation CMD_ERASE_REGISTERS :: tpx_command where "CMD_ERASE_REGISTERS \<equiv> TpxCommand 0x676"
abbreviation CMD_ERASE_PIXCONF :: tpx_command where "CMD_ERASE_PIXCONF \<equiv> TpxCommand 0x677"
abbreviation CMD_VALID_ADDRPORTS :: tpx_command where "CMD_VALID_ADDRPORTS \<equiv> TpxCommand 0x678"
abbreviation CMD_VALID_DACS :: tpx_command where "CMD_VALID_DACS \<equiv> TpxCommand 0x679"
abbreviation CMD_VALID_REGISTERS :: tpx_command where "CMD_VALID_REGISTERS \<equiv> TpxCommand 0x67A"
abbreviation CMD_VALID_PIXCONF :: tpx_command where "CMD_VALID_PIXCONF \<equiv> TpxCommand 0x67B"
abbreviation CMD_STORE_STARTOPTS :: tpx_command where "CMD_STORE_STARTOPTS \<equiv> TpxCommand 0x67C"
abbreviation CMD_GET_STARTOPTS :: tpx_command where "CMD_GET_STARTOPTS \<equiv> TpxCommand 0x67D"
abbreviation CMD_READ_FLASH :: tpx_command where "CMD_READ_FLASH \<equiv> TpxCommand 0x67E"
abbreviation CMD_WRITE_FLASH :: tpx_command where "CMD_WRITE_FLASH \<equiv> TpxCommand 0x67F"
abbreviation CMD_GET_GPIO :: tpx_command where "CMD_GET_GPIO \<equiv> TpxCommand 0x780"
abbreviation CMD_SET_GPIO :: tpx_command where "CMD_SET_GPIO \<equiv> TpxCommand 0x781"
abbreviation CMD_SET_GPIO_PIN :: tpx_command where "CMD_SET_GPIO_PIN \<equiv> TpxCommand 0x782"
abbreviation CMD_GET_SPIDRREG :: tpx_command where "CMD_GET_SPIDRREG \<equiv> TpxCommand 0x783"
abbreviation CMD_SET_SPIDRREG :: tpx_command where "CMD_SET_SPIDRREG \<equiv> TpxCommand 0x784"
abbreviation CMD_SET_CHIPBOARDID :: tpx_command where "CMD_SET_CHIPBOARDID \<equiv> TpxCommand 0x785"
abbreviation CMD_SET_BOARDID :: tpx_command where "CMD_SET_BOARDID \<equiv> TpxCommand 0x786"
abbreviation CMD_REPLY :: tpx_command where "CMD_REPLY \<equiv> TpxCommand 0x00010000"
abbreviation CMD_NOREPLY :: tpx_command where "CMD_NOREPLY \<equiv> TpxCommand 0x00080000"
abbreviation CMD_MASK :: tpx_command where "CMD_MASK \<equiv> TpxCommand 0x0000FFFF"

definition tpx_enumerators :: "(string \<times> u32) list" where
  "tpx_enumerators = [
    (''CMD_NOP'', 0x000),
    (''CMD_GET_SOFTWVERSION'', 0x901),
    (''CMD_GET_FIRMWVERSION'', 0x902),
    (''CMD_GET_HEADERFILTER'', 0x905),
    (''CMD_SET_HEADERFILTER'', 0x906),
    (''CMD_RESET_MODULE'', 0x907),
    (''CMD_SET_BUSY'', 0x908),
    (''CMD_CLEAR_BUSY'', 0x909),
    (''CMD_SET_LOGLEVEL'', 0x90A),
    (''CMD_DISPLAY_INFO'', 0x90B),
    (''CMD_SET_TIMEOFDAY'', 0x90C),
    (''CMD_GET_DEVICECOUNT'', 0x90D),
    (''CMD_GET_BOARDID'', 0x90E),
    (''CMD_GET_CHIPBOARDID'', 0x90F),
    (''CMD_GET_DEVICEID'', 0x110),
    (''CMD_GET_DEVICEIDS'', 0x111),
    (''CMD_GET_IPADDR_SRC'', 0x112),
    (''CMD_SET_IPADDR_SRC'', 0x113),
    (''CMD_GET_IPADDR_DEST'', 0x114),
    (''CMD_SET_IPADDR_DEST'', 0x115),
    (''CMD_GET_DEVICEPORT'', 0x116),
    (''CMD_GET_SERVERPORT'', 0x117),
    (''CMD_SET_SERVERPORT'', 0x119),
    (''CMD_GET_DAC'', 0x11A),
    (''CMD_SET_DAC'', 0x11B),
    (''CMD_SET_DACS_DFLT'', 0x11F),
    (''CMD_CONFIG_CTPR'', 0x120),
    (''CMD_SET_CTPR'', 0x121),
    (''CMD_GET_CTPR'', 0x122),
    (''CMD_SET_CTPR_LEON'', 0x123),
    (''CMD_RESET_DEVICE'', 0x124),
    (''CMD_RESET_DEVICES'', 0x125),
    (''CMD_REINIT_DEVICE'', 0x126),
    (''CMD_REINIT_DEVICES'', 0x127),
    (''CMD_GET_EFUSES'', 0x128),
    (''CMD_SET_PIXCONF'', 0x22A),
    (''CMD_GET_PIXCONF'', 0x22D),
    (''CMD_RESET_PIXELS'', 0x22E),
    (''CMD_GET_TPPERIODPHASE'', 0x330),
    (''CMD_SET_TPPERIODPHASE'', 0x331),
    (''CMD_SET_TPNUMBER'', 0x332),
    (''CMD_GET_TPNUMBER'', 0x333),
    (''CMD_GET_GENCONFIG'', 0x334),
    (''CMD_SET_GENCONFIG'', 0x335),
    (''CMD_GET_PLLCONFIG'', 0x336),
    (''CMD_SET_PLLCONFIG'', 0x337),
    (''CMD_SET_SENSEDAC'', 0x338),
    (''CMD_SET_EXTDAC'', 0x33A),
    (''CMD_UPLOAD_PACKET'', 0x33B),
    (''CMD_GET_OUTBLOCKCONFIG'', 0x33C),
    (''CMD_SET_OUTBLOCKCONFIG'', 0x33D),
    (''CMD_GET_SLVSCONFIG'', 0x33E),
    (''CMD_SET_SLVSCONFIG'', 0x33F),
    (''CMD_GET_TRIGCONFIG'', 0x440),
    (''CMD_SET_TRIGCONFIG'', 0x441),
    (''CMD_AUTOTRIG_START'', 0x442),
    (''CMD_AUTOTRIG_STOP'', 0x443),
    (''CMD_SEQ_READOUT'', 0x445),
    (''CMD_DDRIVEN_READOUT'', 0x446),
    (''CMD_PAUSE_READOUT'', 0x447),
    (''CMD_GET_ADC'', 0x548),
    (''CMD_GET_REMOTETEMP'', 0x549),
    (''CMD_GET_LOCALTEMP'', 0x54A),
    (''CMD_GET_AVDD'', 0x54B),
    (''CMD_GET_DVDD'', 0x54C),
    (''CMD_GET_AVDD_NOW'', 0x54D),
    (''CMD_GET_SPIDR_ADC'', 0x54E),
    (''CMD_GET_DVDD_NOW'', 0x54F),
    (''CMD_RESTART_TIMERS'', 0x550),
    (''CMD_RESET_TIMER'', 0x551),
    (''CMD_GET_TIMER'', 0x552),
    (''CMD_SET_TIMER'', 0x553),
    (''CMD_GET_SHUTTERSTART'', 0x554),
    (''CMD_GET_SHUTTEREND'', 0x555),
    (''CMD_GET_EXTSHUTTERCNTR'', 0x556),
    (''CMD_GET_SHUTTERCNTR'', 0x557),
    (''CMD_RESET_COUNTERS'', 0x558),
    (''CMD_GET_PWRPULSECONFIG'', 0x55B),
    (''CMD_SET_PWRPULSECONFIG'', 0x55C),
    (''CMD_PWRPULSE_ENA'', 0x55D),
    (''CMD_TPX_POWER_ENA'', 0x55E),
    (''CMD_BIAS_SUPPLY_ENA'', 0x55F),
    (''CMD_SET_BIAS_ADJUST'', 0x560),
    (''CMD_DECODERS_ENA'', 0x561),
    (''CMD_SET_OUTPUTMASK'', 0x562),
    (''CMD_SET_READOUTSPEED'', 0x563),
    (''CMD_GET_READOUTSPEED'', 0x564),
    (''CMD_T0_SYNC'', 0x565),
    (''CMD_GET_FPGATEMP'', 0x568),
    (''CMD_GET_FANSPEED'', 0x569),
    (''CMD_SET_FANSPEED'', 0x56A),
    (''CMD_SELECT_CHIPBOARD'', 0x56B),
    (''CMD_GET_VDD'', 0x56C),
    (''CMD_GET_VDD_NOW'', 0x56D),
    (''CMD_GET_HUMIDITY'', 0x56E),
    (''CMD_GET_PRESSURE'', 0x56F),
    (''CMD_STORE_ADDRPORTS'', 0x670),
    (''CMD_STORE_DACS'', 0x671),
    (''CMD_STORE_REGISTERS'', 0x672),
    (''CMD_STORE_PIXCONF'', 0x673),
    (''CMD_ERASE_ADDRPORTS'', 0x674),
    (''CMD_ERASE_DACS'', 0x675),
    (''CMD_ERASE_REGISTERS'', 0x676),
    (''CMD_ERASE_PIXCONF'', 0x677),
    (''CMD_VALID_ADDRPORTS'', 0x678),
    (''CMD_VALID_DACS'', 0x679),
    (''CMD_VALID_REGISTERS'', 0x67A),
    (''CMD_VALID_PIXCONF'', 0x67B),
    (''CMD_STORE_STARTOPTS'', 0x67C),
    (''CMD_GET_STARTOPTS'', 0x67D),
    (''CMD_READ_FLASH'', 0x67E),
    (''CMD_WRITE_FLASH'', 0x67F),
    (''CMD_GET_GPIO'', 0x780),
    (''CMD_SET_GPIO'', 0x781),
    (''CMD_SET_GPIO_PIN'', 0x782),
    (''CMD_GET_SPIDRREG'', 0x783),
    (''CMD_SET_SPIDRREG'', 0x784),
    (''CMD_SET_CHIPBOARDID'', 0x785),
    (''CMD_SET_BOARDID'', 0x786),
    (''CMD_REPLY'', 0x00010000),
    (''CMD_NOREPLY'', 0x00080000),
    (''CMD_MASK'', 0x0000FFFF)]"

text \<open>The three enumerators of \<open>TpxCommand\<close> that are flags or masks, not commands.\<close>

definition tpx_flags :: "u32 list" where
  "tpx_flags = [tpx_code CMD_REPLY, tpx_code CMD_NOREPLY, tpx_code CMD_MASK]"

definition tpx_command_codes :: "u32 list" where
  "tpx_command_codes = filter (\<lambda>v. v \<notin> set tpx_flags) (map snd tpx_enumerators)"

section \<open>The vocabularies are unambiguous\<close>

text \<open>No two enumerators of either enum share a value.\<close>

lemma enumerators_distinct:
  "distinct (map snd server_enumerators) \<and> distinct (map snd tpx_enumerators)"
proof
  have "distinct (map unat (map snd server_enumerators))"
    by (simp add: server_enumerators_def)
  then show "distinct (map snd server_enumerators)" by (simp only: distinct_map)
next
  have "distinct (map unat (map snd tpx_enumerators))"
    by (simp add: tpx_enumerators_def)
  then show "distinct (map snd tpx_enumerators)" by (simp only: distinct_map)
qed

lemma reply_flag_of_masked:
  assumes "v < 0x10000"
  shows "(v OR tpx_code CMD_REPLY) AND tpx_code CMD_REPLY \<noteq> 0 \<and>
    (v OR tpx_code CMD_REPLY) XOR tpx_code CMD_REPLY = (v :: u32)"
proof -
  have R: "tpx_code CMD_REPLY = (2 :: u32) ^ 16" by simp
  have "v div 2 ^ 16 = 0" using assms by (simp add: div_word_less)
  then have hi: "\<not> bit v 16" by (simp add: bit_iff_odd)
  have m: "bit ((2 :: u32) ^ 16) n \<longleftrightarrow> n = 16" for n by (auto simp only: bit_exp_iff) simp
  have "bit ((v OR 2 ^ 16) AND 2 ^ 16) 16" by (simp only: bit_or_iff bit_and_iff m) simp
  then have "(v OR 2 ^ 16) AND 2 ^ 16 \<noteq> 0" by (metis bit_0_eq bot_apply bot_bool_def)
  moreover have "(v OR 2 ^ 16) XOR 2 ^ 16 = v"
    by (rule bit_word_eqI) (use hi in \<open>auto simp only: bit_or_iff bit_xor_iff m\<close>)
  ultimately show ?thesis unfolding R by blast
qed

text \<open>Every SPIDR command fits in \<open>CMD_MASK\<close>, so the reply flag is not a bit of any
  command: setting it and taking it away with XOR, as the board and
  \<open>TimepixConnectionManager::commandRecv\<close> do, gives the command back.\<close>

theorem reply_flag_roundtrip:
  "list_all (\<lambda>v. (v OR tpx_code CMD_REPLY) AND tpx_code CMD_REPLY \<noteq> 0 \<and>
       (v OR tpx_code CMD_REPLY) XOR tpx_code CMD_REPLY = v) tpx_command_codes"
proof -
  have "list_all (\<lambda>v. v < 0x10000) tpx_command_codes"
    by (simp add: tpx_command_codes_def tpx_enumerators_def tpx_flags_def)
  then show ?thesis by (rule list.pred_mono_strong) (rule reply_flag_of_masked)
qed

end
