(* ===== verification/Timepix.thy ===== *)
theory Timepix
  imports ByteOrder Codes
begin

text \<open>
  The wire protocol between the server and the SPIDR board, as
  src/server/TimepixConnectionManager.cpp speaks it: the reply table, the layout of a
  command, the checks on a reply and the text of an error code.  The state machine around
  it is in theory \<open>Server\<close>.  The buffers have 1024 bytes; writing or reading past them is the
  fault \<open>Out_Of_Bounds\<close>.
\<close>

section \<open>Tables\<close>

text \<open>\<open>HANDLER_MAP\<close>: every entry is \<open>genericHandler<n>\<close>, a reply of \<open>n\<close> words.\<close>

definition handler_sizes :: "(tpx_command \<times> nat) list" where
  "handler_sizes =
   [(CMD_NOP, 1),
    (CMD_GET_SOFTWVERSION, 1),
    (CMD_GET_FIRMWVERSION, 1),
    (CMD_GET_CHIPBOARDID, 1),
    (CMD_GET_DEVICEIDS, 4),
    (CMD_GET_LOCALTEMP, 1),
    (CMD_GET_REMOTETEMP, 1),
    (CMD_GET_FPGATEMP, 1),
    (CMD_GET_FANSPEED, 1),
    (CMD_GET_PRESSURE, 1),
    (CMD_GET_HUMIDITY, 1),
    (CMD_GET_SPIDR_ADC, 1),
    (CMD_SET_BIAS_ADJUST, 1),
    (CMD_BIAS_SUPPLY_ENA, 1),
    (CMD_GET_DEVICEPORT, 1),
    (CMD_GET_SERVERPORT, 1),
    (CMD_SET_SERVERPORT, 1),
    (CMD_DECODERS_ENA, 1),
    (CMD_RESTART_TIMERS, 1),
    (CMD_RESET_TIMER, 1),
    (CMD_RESET_PIXELS, 1),
    (CMD_GET_SPIDRREG, 2),
    (CMD_SET_SPIDRREG, 1),
    (CMD_GET_PLLCONFIG, 1),
    (CMD_SET_PLLCONFIG, 1),
    (CMD_GET_HEADERFILTER, 1),
    (CMD_SET_HEADERFILTER, 1),
    (CMD_GET_GENCONFIG, 1),
    (CMD_SET_GENCONFIG, 1),
    (CMD_GET_TPPERIODPHASE, 1),
    (CMD_SET_TPPERIODPHASE, 1),
    (CMD_GET_TRIGCONFIG, 5),
    (CMD_SET_TRIGCONFIG, 1),
    (CMD_GET_DAC, 1),
    (CMD_SET_DAC, 1),
    (CMD_DDRIVEN_READOUT, 1),
    (CMD_PAUSE_READOUT, 1),
    (CMD_AUTOTRIG_START, 1),
    (CMD_AUTOTRIG_STOP, 1),
    (CMD_GET_PIXCONF, 65),
    (CMD_SET_PIXCONF, 1),
    (CMD_RESET_MODULE, 1),
    (CMD_GET_READOUTSPEED, 1),
    (CMD_SET_SENSEDAC, 1)]"

definition spidr_error_messages :: "string list" where
  "spidr_error_messages =
     [''NO_ERROR'', ''ERR_UNKNOWN_CMD'', ''ERR_MSG_LENGTH'', ''ERR_SEQUENCE'', ''ERR_ILLEGAL_PAR'', ''ERR_NOT_IMPLEMENTED'', ''ERR_TPX3_HARDW'', ''ERR_ADC_HARDW'', ''ERR_DAC_HARDW'', ''ERR_MON_HARDW'', ''ERR_FLASH_STORAGE'']"

definition timepix_error_messages :: "string list" where
  "timepix_error_messages =
     [''NO_ERROR'', ''TPX3_ERR_SC_ILLEGAL'', ''TPX3_ERR_SC_STATE'', ''TPX3_ERR_SC_ERRSTATE'', ''TPX3_ERR_SC_WORDS'', ''TPX3_ERR_TX_TIMEOUT'', ''TPX3_ERR_EMPTY'', ''TPX3_ERR_NOTEMPTY'', ''TPX3_ERR_FULL'', ''TPX3_ERR_UNEXP_REPLY'', ''TPX3_ERR_UNEXP_HEADER'', ''TPX3_ERR_LINKS_UNLOCKED'']"

definition at :: "string list \<Rightarrow> nat \<Rightarrow> string result" where
  "at xs i = (if i < length xs then Inr (xs ! i) else Inl Out_Of_Bounds)"

definition getErrorString :: "u32 \<Rightarrow> string result" where
  "getErrorString err_code =
     (let err_byte = err_code AND 0xFF
      in and_then (at spidr_error_messages (unat err_byte)) (\<lambda>s.
           if err_byte = 6
           then and_then (at timepix_error_messages (unat (drop_bit 8 (err_code AND 0xFF00))))
             (\<lambda>t. Inr (s @ '': '' @ t))
           else Inr s))"

section \<open>Sending a command\<close>

definition buffer_size :: nat where
  "buffer_size = 1024"

text \<open>With \<open>noreply\<close> the code is combined with the flag by \<open>&\<close>, which leaves no command.\<close>

definition wire_code :: "tpx_command \<Rightarrow> bool \<Rightarrow> tpx_command" where
  "wire_code cmd noreply =
     (if noreply then TpxCommand (tpx_code cmd AND tpx_code CMD_NOREPLY) else cmd)"

definition command_words :: "endian \<Rightarrow> tpx_command \<Rightarrow> u32 list \<Rightarrow> u32 list" where
  "command_words e cmd data =
     (let msg_size = max (4 + length data) 5
      in [htonl e (tpx_code cmd), htonl e (of_nat (msg_size * 4)), 0, 0] @
         (if data = [] then [0] else map (htonl e) data))"

definition command_bytes :: "endian \<Rightarrow> tpx_command \<Rightarrow> u32 list \<Rightarrow> bool \<Rightarrow> bytes result" where
  "command_bytes e cmd data noreply =
     (let bs = store_words e 4 (command_words e (wire_code cmd noreply) data)
      in if buffer_size < length bs then Inl Out_Of_Bounds else Inr bs)"

section \<open>Receiving a reply\<close>

text \<open>What \<open>commandRecv\<close> makes of a reply: the messages it logs and, unless it gives up, the
  command and the data that go to \<open>processRecv\<close>.\<close>

definition reply_word :: "endian \<Rightarrow> bytes \<Rightarrow> nat \<Rightarrow> u32" where
  "reply_word e buf k = ntohl e (load_at e 4 buf k)"

text \<open>The copy of the data; the \<open>reserve\<close> before it, which may fail for a huge size, is left out.\<close>

definition reply_data :: "endian \<Rightarrow> bytes \<Rightarrow> nat \<Rightarrow> u32 list result" where
  "reply_data e buf data_size =
     (if length buf < 16 + 4 * data_size then Inl Out_Of_Bounds
      else Inr (map (\<lambda>i. reply_word e buf (4 + i)) [0..<data_size]))"

definition error_report :: "u32 \<Rightarrow> u32 \<Rightarrow> log_entry list result" where
  "error_report cmd_only error_int =
     (if error_int = 0 then Inr []
      else and_then (getErrorString error_int) (\<lambda>s.
        Inr [Err (''Timepix reported an error code (command=0x'' @ to_hex cmd_only @
               '', error=0x'' @ to_hex error_int @ '' ['' @ s @ ''])'')]))"

definition decode_reply ::
  "endian \<Rightarrow> bytes \<Rightarrow> nat \<Rightarrow> (log_entry list \<times> (tpx_command \<times> u32 list) option) result" where
  "decode_reply e buf received =
     (if received < 20 \<or> received mod 4 \<noteq> 0
      then Inr ([Err (''Received an incomplete packet ('' @ to_string (int received) @ '' bytes)'')], None)
      else let cmd_int = reply_word e buf 0
           in if cmd_int AND tpx_code CMD_REPLY = 0
              then Inr ([Err ''Received a packet without the REPLY bit set''], None)
              else let cmd_only = cmd_int XOR tpx_code CMD_REPLY;
                       num_bytes = reply_word e buf 1;
                       error_int = reply_word e buf 2;
                       chip_num = reply_word e buf 3
                   in and_then (error_report cmd_only error_int) (\<lambda>errs.
                        if chip_num \<noteq> 0
                        then Inr (errs @ [Err (''Chip number in response was not zero (value='' @
                               to_string (uint chip_num) @ '')'')], None)
                        else if received < unat num_bytes
                        then Inr (errs @ [Err (''Timepix sent '' @ to_string (uint num_bytes) @
                               '' bytes, only received '' @ to_string (int received) @ '' bytes'')], None)
                        else let data_size = unat (num_bytes - 16) div 4
                             in and_then (reply_data e buf data_size) (\<lambda>data.
                                  Inr (errs, Some (TpxCommand cmd_only, data)))))"

section \<open>The wire format\<close>

text \<open>The reply a board sends: big-endian words, padded with a zero word when empty.\<close>

definition reply_bytes :: "tpx_command \<Rightarrow> u32 \<Rightarrow> u32 list \<Rightarrow> bytes" where
  "reply_bytes cmd err data =
     (let words = (if data = [] then [0] else data)
      in concat (map (to_be 4)
           ([tpx_code cmd OR tpx_code CMD_REPLY, of_nat (16 + 4 * length words), err, 0] @ words)))"

lemma command_bytes_wire:
  assumes "length data \<le> 252"
  shows "command_bytes e cmd data noreply =
    Inr (concat (map (to_be 4)
      ([tpx_code (wire_code cmd noreply), of_nat (max (4 + length data) 5 * 4), 0, 0] @
       (if data = [] then [0] else data))))"
proof -
  let ?ws = "[tpx_code (wire_code cmd noreply), of_nat (max (4 + length data) 5 * 4), 0, 0] @
       (if data = [] then [0] else data)"
  have zero: "htonl e' 0 = 0" for e'
  proof -
    have "to_be 4 (0 :: u32) = to_le 4 (0 :: u32)" by (simp add: to_be_def to_le_def map_replicate_const)
    then have "load e' (to_be 4 (0 :: u32)) = (load e' (store e' 4 (0 :: u32)) :: u32)"
      by (simp add: store_def split: endian.split)
    then show ?thesis by (simp add: htonl_def load_store)
  qed
  have "command_words e (wire_code cmd noreply) data = map (htonl e) ?ws"
    by (simp add: command_words_def Let_def zero)
  then have "store_words e 4 (command_words e (wire_code cmd noreply) data) = concat (map (to_be 4) ?ws)"
    by (simp only: net32.wire_words)
  moreover have "length (concat (map (to_be 4) ?ws)) \<le> 1024"
    using assms by (simp add: concat_length_const [where n = 4] sum_list_triv comp_def length_concat)
  ultimately show ?thesis by (simp add: command_bytes_def Let_def buffer_size_def)
qed

lemma reply_word_wire:
  assumes "k < length ws"
  shows "reply_word e (concat (map (to_be 4) ws) @ rest) k = ws ! k"
  unfolding reply_word_def by (rule net32.read_back [OF assms])


lemma length_wire: "length (concat (map (to_be 4) ws)) = 4 * length (ws :: u32 list)"
  by (rule concat_length_const) simp

lemma length_reply_bytes: "length (reply_bytes cmd err data) = 16 + 4 * length (if data = [] then [0] else data)"
  by (simp only: reply_bytes_def Let_def length_wire) simp

lemma decode_reply_bytes:
  assumes "tpx_code cmd < 0x10000" and "length data \<le> 252"
    and "error_report (tpx_code cmd) err = Inr errs"
  shows "decode_reply e (reply_bytes cmd err data @ rest) (length (reply_bytes cmd err data)) =
    Inr (errs, Some (cmd, if data = [] then [0] else data))"
proof -
  define words where "words = (if data = [] then [0] else data)"
  define n where "n = length words"
  have n: "1 \<le> n" "n \<le> 252" using assms(2) by (auto simp: n_def words_def Suc_le_eq)
  define nb where "nb = (of_nat (16 + 4 * n) :: u32)"
  define ws where "ws = [tpx_code cmd OR tpx_code CMD_REPLY, nb, err, 0] @ words"
  have wire: "reply_bytes cmd err data = concat (map (to_be 4) ws)"
    by (simp add: reply_bytes_def ws_def words_def n_def nb_def Let_def)
  have len: "length ws = 4 + n" by (simp add: ws_def n_def)
  have word: "reply_word e (concat (map (to_be 4) ws) @ rest) k = ws ! k" if "k < 4 + n" for k
    using that by (intro reply_word_wire) (simp add: len)
  have w: "ws ! 0 = tpx_code cmd OR tpx_code CMD_REPLY" "ws ! Suc 0 = nb" "ws ! 2 = err" "ws ! 3 = 0"
    by (simp_all add: ws_def)
  have num: "unat nb = 16 + 4 * n" by (simp only: nb_def unat_of_nat) (use n in simp)
  then have "16 \<le> nb" by (simp only: word_le_nat_alt) simp
  then have "unat (nb - 16) = 4 * n" using num unat_sub by fastforce
  moreover have "map (\<lambda>i. reply_word e (concat (map (to_be 4) ws) @ rest) (4 + i)) [0..<n] = words"
    by (rule nth_equalityI) (simp_all add: n_def word[unfolded n_def], simp add: ws_def)
  then have "reply_data e (concat (map (to_be 4) ws) @ rest) n = Inr words"
    by (simp add: reply_data_def length_wire len del: map_map)
  moreover note num reply_flag_of_masked [OF assms(1)] assms(3) n
  ultimately show ?thesis
    unfolding wire length_wire len words_def [symmetric]
    by (simp add: decode_reply_def Let_def word w)
qed

section \<open>Properties\<close>

text \<open>C15. The bytes of a command do not depend on the host: big-endian words with the code, the
  message's size in bytes, two zero words and the data, padded to one word.\<close>

theorem command_wire_format:
  assumes "length data \<le> 252"
  shows "command_bytes e cmd data False = Inr (concat (map (to_be 4)
    ([tpx_code cmd, of_nat (max (4 + length data) 5 * 4), 0, 0] @ (if data = [] then [0] else data))))"
  using command_bytes_wire [OF assms, of e cmd False] by (simp only: wire_code_def if_False)

theorem command_wire_format_witness:
  "command_bytes Little CMD_SET_DAC [0x12345678] False = Inr (concat (map (to_be 4)
    [tpx_code CMD_SET_DAC, 20, 0, 0, 0x12345678]))"
  using command_wire_format [of "[0x12345678]" Little CMD_SET_DAC] by simp

text \<open>C30. A pixel matrix of six rows or more (a word and 48 words a row) does not fit in the
  command buffer: sending it writes past the buffer's end.\<close>

theorem long_command_overflows:
  assumes "252 < length data"
  shows "command_bytes e cmd data noreply = Inl Out_Of_Bounds"
proof -
  have "length (command_words e (wire_code cmd noreply) data) = 4 + length data"
    using assms by (auto simp: command_words_def Let_def)
  with assms show ?thesis by (simp add: command_bytes_def Let_def buffer_size_def)
qed

theorem long_command_overflows_witness:
  "command_bytes Little CMD_SET_PIXCONF (replicate (1 + 48 * 6) 0) False = Inl Out_Of_Bounds"
  by (rule long_command_overflows) simp

text \<open>C14. A well-formed reply is decoded to the command it answers and to its data, whatever the
  host's byte order and whatever is left in the buffer behind it; an error code in it is
  logged and the data still delivered.\<close>

theorem reply_decoded:
  assumes "tpx_code cmd < 0x10000" and "length data \<le> 252"
    and "error_report (tpx_code cmd) err = Inr errs"
  shows "decode_reply e (reply_bytes cmd err data @ rest) (length (reply_bytes cmd err data)) =
    Inr (errs, Some (cmd, if data = [] then [0] else data))"
  using assms by (rule decode_reply_bytes)

theorem reply_decoded_witness:
  "decode_reply Little (reply_bytes CMD_GET_DAC 0 [7] @ replicate 1004 0) 20 =
    Inr ([], Some (CMD_GET_DAC, [7]))"
  using reply_decoded [of CMD_GET_DAC "[7]" 0 "[]" Little "replicate 1004 0"]
  by (simp add: error_report_def length_reply_bytes)

text \<open>C32. The text of an error code is defined exactly for the codes the tables name: a low byte
  of at most 10, and behind a 6 a second byte of at most 11.  Any other code a board sends
  indexes past the end of a table.\<close>

theorem error_text_defined:
  "(\<exists>s. getErrorString err = Inr s) \<longleftrightarrow>
     unat (err AND 0xFF) \<le> 10 \<and>
     (err AND 0xFF \<noteq> 6 \<or> unat (drop_bit 8 (err AND 0xFF00)) \<le> 11)"
proof -
  have len: "length spidr_error_messages = 11" "length timepix_error_messages = 12"
    by (simp_all add: spidr_error_messages_def timepix_error_messages_def)
  have six: "unat (6 :: u32) < 11" by simp
  show ?thesis
    by (cases "err AND 0xFF = 6")
      (auto simp: getErrorString_def Let_def at_def len and_then_eq_Inr)
qed

theorem error_text_defined_witness: "\<exists>s. getErrorString 0x0B06 = Inr s"
  by (simp add: error_text_defined)

text \<open>C31. A reply whose length field is less than the 16 bytes of its header makes the size of
  its data wrap around, and the copy of the data reads past the response buffer.\<close>

theorem short_length_field_faults:
  assumes "length buf = buffer_size" and "20 \<le> received" and "received mod 4 = 0"
    and "reply_word e buf 0 AND tpx_code CMD_REPLY \<noteq> 0" and "reply_word e buf 1 < 16"
    and "reply_word e buf 2 = 0" and "reply_word e buf 3 = 0"
  shows "decode_reply e buf received = Inl Out_Of_Bounds"
proof -
  define nb where "nb = reply_word e buf (Suc 0)"
  have nb: "unat nb < 16" using assms(5) by (simp add: nb_def word_less_nat_alt)
  have "unat (nb - 16) = 2 ^ 32 + unat nb - 16"
    using nb by (simp add: unat_sub_if' word_le_nat_alt)
  with nb have "1024 < 16 + 4 * (unat (nb - 16) div 4)" by simp
  then show ?thesis
    using assms nb by (simp add: decode_reply_def Let_def error_report_def reply_data_def buffer_size_def
        flip: nb_def)
qed

theorem short_length_field_faults_witness:
  "decode_reply Big (concat (map (to_be 4) [0x10901, 8, 0, 0 :: u32]) @ replicate 1008 0) 20 = Inl Out_Of_Bounds"
proof -
  let ?buf = "concat (map (to_be 4) [0x10901, 8, 0, 0 :: u32]) @ replicate 1008 0"
  have w: "reply_word Big ?buf 0 = 0x10901" "reply_word Big ?buf 1 = 8"
    "reply_word Big ?buf 2 = 0" "reply_word Big ?buf 3 = 0"
    by (simp_all only: reply_word_wire length_Cons list.size) simp_all
  have "length ?buf = buffer_size" by (simp add: buffer_size_def)
  then show ?thesis
    by (rule short_length_field_faults [OF _ _ _ _ _ w(3,4)]) (simp_all only: w, simp_all)
qed

end
