(* ===== verification/Streams.thy ===== *)
theory Streams
  imports Prelude
begin

text \<open>
  \<open>std::ofstream\<close> as the managers use it (never with exceptions enabled), and the contract
  of the two \<open>setSaveFile\<close> operations.  A stream that was never opened is in a good state,
  so \<open>if(mFile)\<close> is true for it; the first write to it fails and leaves the stream failed.
  Whether a path can be opened is the environment's choice (\<open>opens\<close>).  The medium accepts
  every byte written.
\<close>

record ofstream =
  is_open :: bool
  failed :: bool
  contents :: bytes

definition fresh_stream :: ofstream where
  "fresh_stream = \<lparr>is_open = False, failed = False, contents = []\<rparr>"

text \<open>Opening truncates the file and clears the state; a failed open sets it.\<close>

definition stream_open :: "bool \<Rightarrow> ofstream \<Rightarrow> ofstream" where
  "stream_open ok s =
     (if ok then \<lparr>is_open = True, failed = False, contents = []\<rparr> else s\<lparr>failed := True\<rparr>)"

definition stream_close :: "ofstream \<Rightarrow> ofstream" where
  "stream_close s = s\<lparr>is_open := False\<rparr>"

definition stream_write :: "bytes \<Rightarrow> ofstream \<Rightarrow> ofstream" where
  "stream_write bs s =
     (if failed s \<or> bs = [] then s
      else if is_open s then s\<lparr>contents := contents s @ bs\<rparr>
      else s\<lparr>failed := True\<rparr>)"

definition stream_good :: "ofstream \<Rightarrow> bool" where
  "stream_good s \<longleftrightarrow> \<not> failed s"

definition ascii :: "string \<Rightarrow> bytes" where
  "ascii s = map (\<lambda>c. of_nat (of_char c)) s"

lemma stream_write_append [simp]:
  "stream_write bs (stream_write as s) = stream_write (as @ bs) s"
  by (simp add: stream_write_def)

lemma is_open_write [simp]: "is_open (stream_write bs s) = is_open s"
  by (simp add: stream_write_def)

lemma closed_contents: "\<not> is_open s \<Longrightarrow> contents (stream_write bs s) = contents s"
  by (simp add: stream_write_def)

lemma open_contents:
  "is_open s \<Longrightarrow> stream_good s \<Longrightarrow>
     stream_write bs s = s\<lparr>contents := contents s @ bs\<rparr>"
  by (auto simp: stream_write_def stream_good_def)

section \<open>The save-file contract\<close>

text \<open>
  What a manager's \<open>setSaveFile\<close> promises: the empty path stops saving and succeeds; a path
  that opens gives a good stream holding just the manager's header; a path that does not
  open is reported and leaves nothing open.
\<close>

locale save_file =
  fixes set_file :: "(string \<Rightarrow> bool) \<Rightarrow> string \<Rightarrow> ofstream \<Rightarrow> ofstream \<times> bool"
    and header :: bytes
  assumes empty_path: "snd (set_file opens [] s) \<and> \<not> is_open (fst (set_file opens [] s))"
    and opened: "path \<noteq> [] \<Longrightarrow> opens path \<Longrightarrow>
      set_file opens path s = (\<lparr>is_open = True, failed = False, contents = header\<rparr>, True)"
    and not_opened: "path \<noteq> [] \<Longrightarrow> \<not> opens path \<Longrightarrow>
      \<not> snd (set_file opens path s) \<and> \<not> is_open (fst (set_file opens path s))"
begin

lemma success_iff: "snd (set_file opens path s) \<longleftrightarrow> path = [] \<or> opens path"
  using empty_path opened not_opened by (cases "path = []"; cases "opens path") auto

lemma saving_iff: "is_open (fst (set_file opens path s)) \<longleftrightarrow> path \<noteq> [] \<and> opens path"
  using empty_path opened not_opened by (cases "path = []"; cases "opens path") auto

text \<open>What is written after a successful change of file follows the header, in order.\<close>

lemma saved:
  assumes "path \<noteq> []" and "opens path"
  shows "contents (stream_write bs (fst (set_file opens path s))) = header @ bs"
  using assms by (simp add: opened stream_write_def)

lemma not_saved:
  assumes "\<not> (path \<noteq> [] \<and> opens path)"
  shows "contents (stream_write bs (fst (set_file opens path s))) =
    contents (fst (set_file opens path s))"
  using assms saving_iff by (intro closed_contents) blast

text \<open>The state before the change is irrelevant once a file opens.\<close>

lemma forgets_old_file:
  assumes "path \<noteq> []" and "opens path"
  shows "set_file opens path s = set_file opens path s'"
  using assms by (simp add: opened)

end

end
