(* ===== verification/Text.thy ===== *)
theory Text
  imports Prelude
begin

text \<open>
  String handling shared by the managers and threads: the address of a socket's local end,
  the loop that turns newlines into \<open><br>\<close> before an exception text is shown, paths sent
  by a client one character per 32-bit word, and server addresses sent back packed four
  characters to a word.
\<close>

section \<open>Socket addresses\<close>

text \<open>\<open>addr.substr(addr.find_last_of(':') + 1)\<close>; without a colon this is the whole string.\<close>

definition port_str :: "string \<Rightarrow> string" where
  "port_str addr = rev (takeWhile (\<lambda>c. c \<noteq> CHR '':'') (rev addr))"

definition local_address :: "string \<Rightarrow> string" where
  "local_address zmq_addr = ''tcp://localhost:'' @ port_str zmq_addr"

lemma port_str_append:
  "CHR '':'' \<notin> set port \<Longrightarrow> port_str (prefix @ CHR '':'' # port) = port"
  by (simp add: port_str_def takeWhile_append)

section \<open>Newlines in exception texts\<close>

fun find_char :: "char \<Rightarrow> string \<Rightarrow> nat option" where
  "find_char c [] = None"
| "find_char c (x # xs) = (if x = c then Some 0 else map_option Suc (find_char c xs))"

lemma find_char_Some:
  "find_char c s = Some i \<Longrightarrow> i < length s \<and> s ! i = c \<and> c \<notin> set (take i s)"
  by (induction s arbitrary: i) (auto split: if_splits)

lemma find_char_None: "find_char c s = None \<longleftrightarrow> c \<notin> set s"
  by (induction s) auto

text \<open>\<open>while((pos = str.find('\n')) != npos) str.replace(pos, 1, "<br>")\<close>\<close>

function newlines_to_br :: "string \<Rightarrow> string" where
  "newlines_to_br s =
     (case find_char (CHR 0x0A) s of
        None \<Rightarrow> s
      | Some i \<Rightarrow> newlines_to_br (take i s @ ''<br>'' @ drop (Suc i) s))"
  by pat_completeness auto

lemma count_replace:
  assumes "i < length s" "s ! i = c" "c \<notin> set t"
  shows "length (filter ((=) c) (take i s @ t @ drop (Suc i) s)) < length (filter ((=) c) s)"
proof -
  have "filter ((=) c) t = []" using assms(3) by (auto simp: filter_empty_conv)
  moreover have "filter ((=) c) s = filter ((=) c) (take i s) @ c # filter ((=) c) (drop (Suc i) s)"
    by (subst id_take_nth_drop [OF assms(1)]) (simp add: assms(2))
  ultimately show ?thesis by simp
qed

termination newlines_to_br
proof (relation "measure (\<lambda>s. length (filter ((=) (CHR 0x0A)) s))")
  fix s i assume "find_char (CHR 0x0A) s = Some i"
  then show "(take i s @ ''<br>'' @ drop (Suc i) s, s) \<in> measure (\<lambda>s. length (filter ((=) (CHR 0x0A)) s))"
    using count_replace [of i s "CHR 0x0A" "''<br>''"] by (auto dest: find_char_Some)
qed simp

declare newlines_to_br.simps [simp del]

text \<open>C23. The loop that replaces the newlines of an exception's text ends: the text it puts in has
  none.  What it leaves is the text with every newline replaced and nothing else changed.\<close>

theorem newlines_replaced:
  "newlines_to_br s = concat (map (\<lambda>c. if c = CHR 0x0A then ''<br>'' else [c]) s)"
proof (induction s rule: newlines_to_br.induct)
  case (1 s)
  have keep: "concat (map (\<lambda>c. if c = CHR 0x0A then ''<br>'' else [c]) t) = t"
    if "CHR 0x0A \<notin> set t" for t using that by (induction t) auto
  show ?case
  proof (cases "find_char (CHR 0x0A) s")
    case None
    then have "CHR 0x0A \<notin> set s" using find_char_None by blast
    then have "concat (map (\<lambda>c. if c = CHR 0x0A then ''<br>'' else [c]) s) = s" by (rule keep)
    moreover have "newlines_to_br s = s" using None by (simp add: newlines_to_br.simps [of s])
    ultimately show ?thesis by (simp only:)
  next
    case (Some i)
    then have i: "i < length s" "s ! i = CHR 0x0A" by (auto dest: find_char_Some)
    have s: "s = take i s @ CHR 0x0A # drop (Suc i) s"
      using id_take_nth_drop [OF i(1)] i(2) by simp
    have "newlines_to_br s = newlines_to_br (take i s @ ''<br>'' @ drop (Suc i) s)"
      by (subst newlines_to_br.simps) (simp add: Some)
    also have "\<dots> = concat (map (\<lambda>c. if c = CHR 0x0A then ''<br>'' else [c])
        (take i s @ ''<br>'' @ drop (Suc i) s))" by (rule 1 [OF Some])
    also have "\<dots> = concat (map (\<lambda>c. if c = CHR 0x0A then ''<br>'' else [c])
        (take i s @ CHR 0x0A # drop (Suc i) s))" by simp
    finally show ?thesis using s by metis
  qed
qed

section \<open>Paths received from a client\<close>

definition byte_char :: "u8 \<Rightarrow> char" where
  "byte_char b = char_of (unat b)"

definition char_byte :: "char \<Rightarrow> u8" where
  "char_byte c = of_nat (of_char c)"

text \<open>Each word is cut to a \<open>char\<close>, a NUL is appended, and the string ends at the first NUL.\<close>

definition path_of_data :: "u32 list \<Rightarrow> string" where
  "path_of_data data =
     takeWhile (\<lambda>c. c \<noteq> CHR 0x00) (map (\<lambda>x. byte_char (ucast x)) data @ [CHR 0x00])"

definition data_of_path :: "string \<Rightarrow> u32 list" where
  "data_of_path s = map (\<lambda>c. ucast (char_byte c)) s"

lemma byte_char_byte [codec]: "byte_char (char_byte c) = c"
proof -
  have "of_char c < (256 :: nat)" by simp
  then have "unat (of_nat (of_char c) :: u8) = of_char c" by (simp add: unat_of_nat)
  then show ?thesis by (simp add: byte_char_def char_byte_def)
qed

lemma char_byte_char [codec]: "char_byte (byte_char b) = b"
proof -
  have "unat b < 256" using unsigned_less [of b, where 'a = nat] by simp
  then have "of_char (char_of (unat b) :: char) = unat b" by (simp add: of_char_of)
  then show ?thesis by (simp add: byte_char_def char_byte_def)
qed

lemma path_of_data_of_path:
  assumes "CHR 0x00 \<notin> set s"
  shows "path_of_data (data_of_path s) = s"
proof -
  have "map (\<lambda>x. byte_char (ucast x)) (data_of_path s) = s"
    by (simp add: data_of_path_def comp_def u8_via_u32 byte_char_byte)
  with assms show ?thesis by (simp add: path_of_data_def takeWhile_append)
qed

section \<open>Addresses sent to a client\<close>

text \<open>
  \<open>DataVec response(size / 4 + 1, 0)\<close>, then \<open>memcpy\<close> of the characters into it: there is
  always at least one zero byte after the text.
\<close>

definition pack_string :: "endian \<Rightarrow> string \<Rightarrow> u32 list" where
  "pack_string e s =
     (let int_size = length s div 4 + 1
      in load_words e 4 int_size (map char_byte s @ replicate (4 * int_size - length s) 0))"

text \<open>How a client reads such a response: the bytes in memory up to the first zero.\<close>

definition unpack_string :: "endian \<Rightarrow> u32 list \<Rightarrow> string" where
  "unpack_string e ws = map byte_char (takeWhile (\<lambda>b. b \<noteq> 0) (store_words e 4 ws))"

lemma store_words_load_words:
  assumes "length bs = n * c" and "8 * n \<le> LENGTH('a)"
  shows "store_words e n (load_words e n c bs :: 'a::len word list) = bs"
  using assms(1)
proof (induction c arbitrary: bs)
  case 0
  then show ?case by (simp add: load_words_def)
next
  case (Suc c)
  then have len: "length (take (n * c) bs) = n * c" "length (drop (n * c) bs) = n" by simp_all
  have "load_words e n c bs = (load_words e n c (take (n * c) bs) :: 'a word list)"
  proof -
    have "load_at e n bs i = (load_at e n (take (n * c) bs) i :: 'a word)" if "i < c" for i
    proof -
      from that have "n * Suc i \<le> n * c" by (intro mult_le_mono2) simp
      then have "n \<le> n * c - n * i" by (simp add: algebra_simps)
      then show ?thesis by (simp add: load_at_def drop_take)
    qed
    then show ?thesis by (simp add: load_words_def)
  qed
  moreover have "load_words e n (Suc c) bs =
      load_words e n c bs @ [load_at e n bs c :: 'a word]" by (simp add: load_words_def)
  moreover have "store e n (load_at e n bs c :: 'a word) = drop (n * c) bs"
    using len assms(2) by (simp add: load_at_def store_load)
  ultimately show ?case using Suc.IH [OF len(1)] by simp
qed

lemma char_byte_zero: "char_byte c = 0 \<longleftrightarrow> c = CHR 0x00"
proof
  assume "char_byte c = 0"
  then have "c = byte_char 0" by (metis byte_char_byte)
  then show "c = CHR 0x00" by (simp add: byte_char_def char_of_def)
qed (simp add: char_byte_def)

lemma unpack_pack_string:
  assumes "CHR 0x00 \<notin> set s"
  shows "unpack_string e (pack_string e s) = s"
proof -
  define n where "n = length s div 4 + 1"
  have n: "length s < 4 * n" by (simp add: n_def)
  have "store_words e 4 (pack_string e s) = map char_byte s @ replicate (4 * n - length s) 0"
    unfolding pack_string_def Let_def n_def [symmetric] using n
    by (intro store_words_load_words) simp_all
  moreover have "takeWhile (\<lambda>b. b \<noteq> 0) (map char_byte s @ replicate (4 * n - length s) 0)
      = map char_byte s"
    using assms n by (auto simp: takeWhile_append char_byte_zero takeWhile_replicate)
  ultimately show ?thesis by (simp add: unpack_string_def comp_def byte_char_byte)
qed

end
