(* ===== verification/UdpManager.thy ===== *)
theory UdpManager
  imports Streams Text
begin

text \<open>
  \<open>UdpConnectionManager\<close> (src/server/UdpConnectionManager.cpp): a UDP datagram from the
  Timepix is checked, its clicks are appended to the raw data file, and every click is
  republished with its pixel address decoded and its 34-bit time of arrival extended by a
  4-bit rollover counter.  Time points are integer nanoseconds, an argument of the
  operations that read the clock.  The function's statics are fields of the manager, which
  is the first one of the process.
\<close>

section \<open>State\<close>

record toa_state =
  mRolloverCounter :: u8
  mHalfwayToRollover :: bool
  mLastToA :: u64

record udp_manager =
  udp_file :: ofstream
  toa :: toa_state
  udp_chunks :: int
  last_echo_time :: "int option"
  last_sec_packets :: int
  udp_published :: "u64 list list"
  udp_log :: "log_entry list"
  udp_receiving :: bool
  udp_cancelled :: bool

definition init_udp_manager :: udp_manager where
  "init_udp_manager =
     \<lparr>udp_file = fresh_stream,
      toa = \<lparr>mRolloverCounter = 0, mHalfwayToRollover = False, mLastToA = 0\<rparr>,
      udp_chunks = 0, last_echo_time = None, last_sec_packets = 0, udp_published = [],
      udp_log = [], udp_receiving = False, udp_cancelled = False\<rparr>"

abbreviation udp_emit :: "log_entry list \<Rightarrow> udp_manager \<Rightarrow> udp_manager" where
  "udp_emit es m \<equiv> m\<lparr>udp_log := udp_log m @ es\<rparr>"

section \<open>Decoding a packet\<close>

definition is_click :: "u64 \<Rightarrow> bool" where
  "is_click p \<longleftrightarrow> p AND 0xF000000000000000 = 0xB000000000000000"

definition pixel_addr :: "u64 \<Rightarrow> u64" where
  "pixel_addr p = drop_bit 44 (p AND 0x0FFFF00000000000)"

definition pixel_x :: "u64 \<Rightarrow> u64" where
  "pixel_x addr = (drop_bit 1 addr AND 0x00FC) OR (addr AND 0x0003)"

definition pixel_y :: "u64 \<Rightarrow> u64" where
  "pixel_y addr = (drop_bit 8 addr AND 0x00FE) OR (drop_bit 2 addr AND 0x0001)"

definition raw_tot :: "u64 \<Rightarrow> u64" where
  "raw_tot p = drop_bit 20 (p AND 0x000000003FF00000)"

definition full_toa :: "u64 \<Rightarrow> u64" where
  "full_toa p =
     (let toa14 = drop_bit 30 (p AND 0x00000FFFC0000000);
          ftoa = drop_bit 16 (p AND 0x00000000000F0000) XOR 0x0F;
          stime = p AND 0x000000000000FFFF
      in push_bit 18 stime OR push_bit 4 toa14 OR ftoa)"

section \<open>Rollover of the time of arrival\<close>

definition quarter_time :: u64 where
  "quarter_time = push_bit 32 1"

definition three_quarter_time :: u64 where
  "three_quarter_time = 3 * quarter_time"

definition rollover_step :: "toa_state \<Rightarrow> u64 \<Rightarrow> toa_state" where
  "rollover_step s full =
     (let half = mHalfwayToRollover s \<or> (quarter_time < full \<and> full < three_quarter_time);
          rolled = half \<and> three_quarter_time < mLastToA s \<and> full < quarter_time
      in \<lparr>mRolloverCounter =
            (if rolled then (mRolloverCounter s + 1) AND 0x0F else mRolloverCounter s),
          mHalfwayToRollover = (half \<and> \<not> rolled),
          mLastToA = full\<rparr>)"

section \<open>publishRawData\<close>

text \<open>
  The clock at the start of \<open>publishRawData\<close>, which initialises its static \<open>last_echo_time\<close> the
  first time, and at its end.
\<close>

type_synonym clock_reads = "int \<times> int"

definition pack_packet :: "u64 \<Rightarrow> u64 \<Rightarrow> u64 \<Rightarrow> u8 \<Rightarrow> u64 \<Rightarrow> u64" where
  "pack_packet x y tot counter full =
     (let tot_toa = push_bit 38 tot OR push_bit 34 (ucast counter) OR full
      in push_bit 56 x OR push_bit 48 y OR tot_toa)"

fun parse_packets :: "toa_state \<Rightarrow> u64 list \<Rightarrow> toa_state \<times> u64 list" where
  "parse_packets s [] = (s, [])"
| "parse_packets s (p # ps) =
     (if \<not> is_click p then parse_packets s ps
      else let addr = pixel_addr p; full = full_toa p; s' = rollover_step s full;
               q = pack_packet (pixel_x addr) (pixel_y addr) (raw_tot p) (mRolloverCounter s') full;
               (s'', qs) = parse_packets s' ps
           in (s'', q # qs))"

definition ns_per_s :: int where
  "ns_per_s = 1000000000"

definition publishRawData ::
  "endian \<Rightarrow> clock_reads \<Rightarrow> udp_manager \<Rightarrow> bytes \<Rightarrow> nat \<Rightarrow> udp_manager" where
  "publishRawData e t m buffer sz =
     (let (start, now) = t;
          echoed = (case last_echo_time m of None \<Rightarrow> start | Some t0 \<Rightarrow> t0);
          num_packets = sz div 8;
          (toa', temp) = parse_packets (toa m) (load_words e 8 num_packets buffer);
          packets = i32 (last_sec_packets m + int num_packets);
          chunks = i32 (udp_chunks m + 1);
          m1 = m\<lparr>toa := toa', last_sec_packets := packets, udp_chunks := chunks,
                 last_echo_time := Some echoed\<rparr>;
          m2 = (if 1 \<le> duration_cast ns_per_s (now - echoed)
                then (udp_emit [Log (''Parsing: ['' @ to_string chunks @ ''] '' @
                        to_string packets @ '' packets/s'')] m1)
                     \<lparr>last_echo_time := Some now, last_sec_packets := 0, udp_chunks := 0\<rparr>
                else m1)
      in m2\<lparr>udp_published := udp_published m2 @ [temp]\<rparr>)"

section \<open>parseBytes\<close>

definition click_at :: "bytes \<Rightarrow> nat \<Rightarrow> bool" where
  "click_at buffer ix \<longleftrightarrow> drop_bit 4 (buffer ! (8 * ix + 7) AND 0xF0) = 0xb"

definition click_indices :: "bytes \<Rightarrow> nat \<Rightarrow> nat list" where
  "click_indices buffer sz = filter (click_at buffer) [0..<sz div 8]"

definition chunk_size :: "bytes \<Rightarrow> nat \<Rightarrow> u32" where
  "chunk_size buffer sz = of_nat (length (click_indices buffer sz)) * 8"

definition chunk_bytes :: "bytes \<Rightarrow> nat \<Rightarrow> bytes" where
  "chunk_bytes buffer sz =
     (let n = chunk_size buffer sz
      in ascii ''TPX3'' @ [0, 0] @ [ucast (n AND 0xFF), ucast (drop_bit 8 n AND 0xFF)] @
         concat (map (\<lambda>ix. map (\<lambda>jx. buffer ! (8 * ix + jx)) [0..<8]) (click_indices buffer sz)))"

definition parseBytes :: "endian \<Rightarrow> clock_reads \<Rightarrow> udp_manager \<Rightarrow> bytes \<Rightarrow> nat \<Rightarrow> udp_manager" where
  "parseBytes e now m buffer sz =
     (if sz = 0 then m
      else if sz mod 8 \<noteq> 0
      then udp_emit [Warn (''Received a UDP chunk with a byte size of '' @ to_string (int sz) @
             ''; expected a multiple of 8'')] m
      else let num_clicks = length (click_indices buffer sz);
               m1 = (if num_clicks \<noteq> 0 \<and> stream_good (udp_file m)
                     then m\<lparr>udp_file := stream_write (chunk_bytes buffer sz) (udp_file m)\<rparr>
                     else m)
           in publishRawData e now m1 buffer sz)"

text \<open>
  A completed receive, with the buffer as filled by the socket: the error code is ignored,
  and the next receive is started whatever the datagram held.
\<close>

definition handleMessage :: "endian \<Rightarrow> clock_reads \<Rightarrow> udp_manager \<Rightarrow> bytes \<Rightarrow> nat \<Rightarrow> udp_manager" where
  "handleMessage e now m buffer bytes =
     (parseBytes e now m buffer bytes)\<lparr>udp_receiving := True\<rparr>"

text \<open>\<open>poll\<close> runs the receives that have completed: times, buffers and sizes, in order.\<close>

type_synonym datagram = "clock_reads \<times> bytes \<times> nat"

fun udp_poll :: "endian \<Rightarrow> udp_manager \<Rightarrow> datagram list \<Rightarrow> udp_manager" where
  "udp_poll e m [] = m"
| "udp_poll e m ((now, buffer, bytes) # ds) = udp_poll e (handleMessage e now m buffer bytes) ds"

text \<open>
  \<open>attemptConnection\<close>: opening and binding the socket either works or throws a
  \<open>system_error\<close> whose text is \<open>what\<close>.
\<close>

definition udp_attemptConnection :: "string option \<Rightarrow> udp_manager \<Rightarrow> udp_manager" where
  "udp_attemptConnection failure m =
     (case failure of
        None \<Rightarrow> m\<lparr>udp_receiving := True\<rparr>
      | Some what \<Rightarrow>
          (udp_emit [Err ''An unknown error occurred in the UDP server thread.'',
                     Err (newlines_to_br what)] m)\<lparr>udp_cancelled := True\<rparr>)"

definition udp_set_file :: "(string \<Rightarrow> bool) \<Rightarrow> string \<Rightarrow> ofstream \<Rightarrow> ofstream \<times> bool" where
  "udp_set_file opens path f =
     (let f1 = (if is_open f then stream_close f else f)
      in if path = [] then (f1, True)
         else let f2 = stream_open (opens path) f1 in (f2, is_open f2))"

definition udp_setSaveFile ::
  "(string \<Rightarrow> bool) \<Rightarrow> string \<Rightarrow> udp_manager \<Rightarrow> udp_manager \<times> bool" where
  "udp_setSaveFile opens path m =
     (let (f, ok) = udp_set_file opens path (udp_file m);
          m1 = m\<lparr>udp_file := f\<rparr>
      in if ok \<and> path \<noteq> [] then (udp_emit [Log (''Saving raw packets to '' @ path)] m1, True)
         else (m1, ok))"

definition udp_resetToaRolloverCounter :: "udp_manager \<Rightarrow> udp_manager" where
  "udp_resetToaRolloverCounter m = m\<lparr>toa := (toa m)\<lparr>mRolloverCounter := 0\<rparr>\<rparr>"

interpretation udp_save: save_file udp_set_file "[]"
  by unfold_locales (auto simp: udp_set_file_def stream_open_def stream_close_def Let_def)

section \<open>The pixel address is a permutation of the sensor's pixels\<close>

text \<open>The address the chip gives to pixel \<open>(x, y)\<close>.\<close>

definition address_of :: "u64 \<Rightarrow> u64 \<Rightarrow> u64" where
  "address_of x y =
     (x AND 0x3) OR push_bit 2 (y AND 0x1) OR push_bit 3 (drop_bit 2 x AND 0x3F)
       OR push_bit 9 (drop_bit 1 y AND 0x7F)"

lemma bit_pixel_x: "bit (pixel_x a) n \<longleftrightarrow> (n < 2 \<and> bit a n) \<or> (2 \<le> n \<and> n < 8 \<and> bit a (Suc n))"
  unfolding pixel_x_def by (auto simp: bit_simps bit_masks)

lemma bit_pixel_y: "bit (pixel_y a) n \<longleftrightarrow> (n = 0 \<and> bit a 2) \<or> (1 \<le> n \<and> n < 8 \<and> bit a (n + 8))"
  unfolding pixel_y_def by (auto simp: bit_simps bit_masks add.commute simp flip: One_nat_def)

lemma bit_address_of:
  "bit (address_of x y) n \<longleftrightarrow>
     (n < 2 \<and> bit x n) \<or> (n = 2 \<and> bit y 0) \<or> (3 \<le> n \<and> n < 9 \<and> bit x (n - 1)) \<or>
     (9 \<le> n \<and> n < 16 \<and> bit y (n - 8))"
proof -
  have "bit (x AND 0x3) n \<longleftrightarrow> n < 2 \<and> bit x n" by (auto simp: bit_simps)
  moreover have "bit (push_bit 2 (y AND 0x1)) n \<longleftrightarrow> n = 2 \<and> bit y 0" by (auto simp: bit_simps)
  moreover have "bit (push_bit 3 (drop_bit 2 x AND 0x3F)) n \<longleftrightarrow> 3 \<le> n \<and> n < 9 \<and> bit x (n - 1)"
  proof (cases "3 \<le> n")
    case True
    then have "2 + (n - 3) = n - 1" by simp
    with True show ?thesis by (auto simp: bit_simps)
  qed (simp add: bit_simps)
  moreover have "bit (push_bit 9 (drop_bit 1 y AND 0x7F)) n \<longleftrightarrow> 9 \<le> n \<and> n < 16 \<and> bit y (n - 8)"
  proof (cases "9 \<le> n")
    case True
    then have "Suc (n - 9) = n - 8" by simp
    with True show ?thesis by (auto simp: bit_simps)
  qed (simp add: bit_simps)
  ultimately show ?thesis by (simp only: address_of_def bit_or_iff disj_assoc)
qed

lemma address_of_pixel:
  assumes "unat a < 2 ^ 16"
  shows "address_of (pixel_x a) (pixel_y a) = a"
proof (rule bit_word_eqI)
  fix n assume "n < LENGTH(64)"
  have hi: "\<not> bit a n" if "16 \<le> n" using assms that by (rule not_bit_high)
  consider "n < 2" | "n = 2" | "3 \<le> n \<and> n < 9" | "9 \<le> n \<and> n < 16" | "16 \<le> n" by linarith
  then show "bit (address_of (pixel_x a) (pixel_y a)) n \<longleftrightarrow> bit a n"
    using hi by cases (auto simp: bit_address_of bit_pixel_x bit_pixel_y)
qed

lemma pixel_of_address:
  assumes "unat x < 2 ^ 8" and "unat y < 2 ^ 8"
  shows "pixel_x (address_of x y) = x" and "pixel_y (address_of x y) = y"
proof -
  have x: "\<not> bit x n" and y: "\<not> bit y n" if "8 \<le> n" for n
    using not_bit_high [OF assms(1) that] not_bit_high [OF assms(2) that] by simp_all
  show "pixel_x (address_of x y) = x"
  proof (rule bit_word_eqI)
    fix n assume "n < LENGTH(64)"
    consider "n < 2" | "2 \<le> n \<and> n < 8" | "8 \<le> n" by linarith
    then show "bit (pixel_x (address_of x y)) n \<longleftrightarrow> bit x n"
      using x by cases (auto simp: bit_address_of bit_pixel_x)
  qed
  show "pixel_y (address_of x y) = y"
  proof (rule bit_word_eqI)
    fix n assume "n < LENGTH(64)"
    consider "n = 0" | "1 \<le> n \<and> n < 8" | "8 \<le> n" by linarith
    then show "bit (pixel_y (address_of x y)) n \<longleftrightarrow> bit y n"
      using y by cases (auto simp: bit_address_of bit_pixel_y)
  qed
qed

lemma unat_pixel: "unat (pixel_x a) < 2 ^ 8" "unat (pixel_y a) < 2 ^ 8"
proof -
  have "take_bit 8 (pixel_x a) = pixel_x a" "take_bit 8 (pixel_y a) = pixel_y a"
    by (rule bit_word_eqI, auto simp: bit_take_bit_iff bit_pixel_x bit_pixel_y)+
  then show "unat (pixel_x a) < 2 ^ 8" "unat (pixel_y a) < 2 ^ 8"
    by (metis take_bit_nat_less_exp unsigned_take_bit_eq)+
qed

section \<open>The layout of a published packet\<close>

lemma unat_full_toa: "unat (full_toa p) < 2 ^ 34"
proof -
  have "take_bit 34 (full_toa p) = full_toa p"
    by (rule bit_word_eqI) (auto simp: full_toa_def Let_def bit_simps)
  then show ?thesis by (metis take_bit_nat_less_exp unsigned_take_bit_eq)
qed

lemma unat_raw_tot: "unat (raw_tot p) < 2 ^ 10"
proof -
  have "take_bit 10 (raw_tot p) = raw_tot p"
    by (rule bit_word_eqI) (auto simp: raw_tot_def bit_simps)
  then show ?thesis by (metis take_bit_nat_less_exp unsigned_take_bit_eq)
qed

end
