(* ===== verification/Secondary.thy ===== *)
theory Secondary
  imports Codes Text
begin

text \<open>
  \<open>SecondaryThread\<close> (src/server/SecondaryThread.cpp): the command socket that the UDP,
  clustering and histogram threads share, and the contract of a thread's
  \<open>handleCommand\<close>: every command is answered exactly once, with its own code or with an
  error code.

  The command socket is a ZeroMQ REP socket.  Its documented rule is the only part of
  ZeroMQ the model relies on: receiving and sending alternate, and an operation out of turn
  fails with EFSM.  What arrives on a socket is an argument of the operations
  (\<open>None\<close> when nothing is waiting).
\<close>

section \<open>A reply socket\<close>

record rep_socket =
  owing :: bool
  answers :: "bytes list"

definition fresh_rep :: rep_socket where
  "fresh_rep = \<lparr>owing = False, answers = []\<rparr>"

definition rep_recv :: "bytes option \<Rightarrow> rep_socket \<Rightarrow> (bytes option \<times> rep_socket) result" where
  "rep_recv waiting s =
     (if owing s then Inl Wrong_State
      else Inr (waiting, if waiting = None then s else s\<lparr>owing := True\<rparr>))"

definition rep_send :: "bytes \<Rightarrow> rep_socket \<Rightarrow> rep_socket result" where
  "rep_send msg s =
     (if owing s then Inr \<lparr>owing = False, answers = answers s @ [msg]\<rparr> else Inl Wrong_State)"

text \<open>What a subscriber's non-blocking receive gives: nothing, a message, or an exception.\<close>

datatype incoming = Nothing_Waiting | Received bytes | Receive_Throws

section \<open>Messages\<close>

text \<open>The first word of a message, and the words after it, as both servers read them.\<close>

definition command_word :: "endian \<Rightarrow> bytes \<Rightarrow> u32 result" where
  "command_word e msg = (if length msg < 4 then Inl Out_Of_Bounds else Inr (load_at e 4 msg 0))"

definition command_data :: "endian \<Rightarrow> bytes \<Rightarrow> u32 list" where
  "command_data e msg =
     (let com_size = of_nat (length msg) :: u32; data_size = com_size div 4 - 1
      in map (\<lambda>ix. load_at e 4 msg (1 + ix)) [0..<unat data_size])"

definition misaligned :: "bytes \<Rightarrow> bool" where
  "misaligned msg \<longleftrightarrow> (of_nat (length msg) :: u32) mod 4 \<noteq> 0"

definition message :: "endian \<Rightarrow> server_command \<Rightarrow> u32 list \<Rightarrow> bytes" where
  "message e cmd data = store_words e 4 (server_code cmd # data)"

lemma message_words:
  assumes "4 * (length data + 1) < 2 ^ 32"
  shows "command_word e (message e cmd data) = Inr (server_code cmd)"
    and "command_data e (message e cmd data) = data"
    and "\<not> misaligned (message e cmd data)"
proof -
  let ?m = "message e cmd data"
  have ld: "load_at e 4 ?m i = (server_code cmd # data) ! i" if "i < Suc (length data)" for i
    using load_at_store_words [of i "server_code cmd # data" 4 e "[]"] that by (simp add: message_def)
  have len: "length ?m = 4 * (length data + 1)" by (simp add: message_def)
  then show "command_word e ?m = Inr (server_code cmd)"
    by (simp add: command_word_def ld)
  define n where "n = (of_nat (length ?m) :: u32)"
  have n: "unat n = 4 * (length data + 1)"
    using assms by (simp only: n_def len unat_of_nat) simp
  then have q: "unat (n div 4) = length data + 1" by (simp add: unat_div)
  have one: "1 \<le> n div 4" using q by (simp add: word_le_nat_alt)
  then have "unat (n div 4 - 1) = length data" using unat_sub [OF one] q by simp
  moreover have "map (\<lambda>ix. load_at e 4 ?m (1 + ix)) [0..<length data] = data"
    by (intro nth_equalityI) (simp_all add: ld)
  ultimately show "command_data e ?m = data" by (simp add: command_data_def Let_def flip: n_def)
  have "unat (n mod 4) = 0" using n by (simp add: unat_mod)
  then show "\<not> misaligned ?m" by (simp add: misaligned_def unat_eq_0 flip: n_def)
qed

section \<open>State and operations\<close>

text \<open>What a thread finds on its host: byte order, which files open, which servers connect.\<close>

record host =
  byte_order :: endian
  opens :: "string \<Rightarrow> bool"
  connects :: "string \<Rightarrow> bool"

record 'm secondary =
  manager :: 'm
  socket :: rep_socket
  mLastCommand :: server_command
  th_log :: "log_entry list"
  th_cancelled :: bool
  th_endpoint :: string

definition start_thread :: "'m \<Rightarrow> string \<Rightarrow> 'm secondary" where
  "start_thread m endpoint =
     \<lparr>manager = m, socket = fresh_rep, mLastCommand = ERROR_OCCURED, th_log = [],
      th_cancelled = False, th_endpoint = endpoint\<rparr>"

definition getCommandServerAddress :: "'m secondary \<Rightarrow> string" where
  "getCommandServerAddress t = local_address (th_endpoint t)"

definition sendResponse :: "host \<Rightarrow> u32 list \<Rightarrow> 'm secondary \<Rightarrow> 'm secondary result" where
  "sendResponse h data t =
     and_then (rep_send (message (byte_order h) (mLastCommand t) data) (socket t))
       (\<lambda>s. Inr (t\<lparr>socket := s\<rparr>))"

definition sendError :: "host \<Rightarrow> server_command \<Rightarrow> 'm secondary \<Rightarrow> 'm secondary result" where
  "sendError h errcode t = sendResponse h [] (t\<lparr>mLastCommand := errcode\<rparr>)"

type_synonym 'm handler = "host \<Rightarrow> server_command \<Rightarrow> u32 list \<Rightarrow> 'm secondary \<Rightarrow> 'm secondary result"

text \<open>
  One poll.  A message of misaligned size is dropped without an answer.  The exception of
  the socket (\<open>ex\<close>: its number and text) is caught and stops the thread.
\<close>

definition pollCommands ::
  "'m handler \<Rightarrow> int \<times> string \<Rightarrow> host \<Rightarrow> bytes option \<Rightarrow> 'm secondary \<Rightarrow> 'm secondary result" where
  "pollCommands handle ex h waiting t =
     (case rep_recv waiting (socket t) of
        Inl _ \<Rightarrow>
          Inr (t\<lparr>th_log := th_log t @
                 [Err (''An exception occurred while polling commands in a secondary thread:'' @
                    to_string (fst ex) @ '' - \"'' @ snd ex @ ''\")'')],
                 th_cancelled := True\<rparr>)
      | Inr (None, s) \<Rightarrow> Inr t
      | Inr (Some msg, s) \<Rightarrow>
          and_then (command_word (byte_order h) msg) (\<lambda>code.
            let t1 = t\<lparr>socket := s\<rparr>; cmd = ServerCommand code
            in if misaligned msg then Inr t1
               else handle h cmd (command_data (byte_order h) msg) (t1\<lparr>mLastCommand := cmd\<rparr>)))"

text \<open>
  The loop of \<open>execute\<close>, the same in every thread: turns until the thread is cancelled.  An
  exception that \<open>pollCommands\<close> does not catch is reported and cancels the thread.
\<close>

datatype 'e turn = Turn 'e | Turn_Throws

fun run_turns ::
  "string \<Rightarrow> ('e \<Rightarrow> 'm secondary \<Rightarrow> 'm secondary result) \<Rightarrow> 'e turn list \<Rightarrow> 'm secondary \<Rightarrow> 'm secondary result"
where
  "run_turns who turn [] t = Inr t"
| "run_turns who turn (ev # evs) t =
     (if th_cancelled t then Inr t
      else case ev of
             Turn e \<Rightarrow> and_then (turn e t) (run_turns who turn evs)
           | Turn_Throws \<Rightarrow> run_turns who turn evs
               (t\<lparr>th_log := th_log t @ [Err ''An unknown error occurred.'',
                  Err (who @ '' server is shutting down.'')], th_cancelled := True\<rparr>))"

text \<open>The whole of \<open>execute\<close>: a message, the manager, the loop, and a message when it has ended.\<close>

definition run_thread ::
  "string \<Rightarrow> string \<Rightarrow> ('e \<Rightarrow> 'm secondary \<Rightarrow> 'm secondary result) \<Rightarrow> 'm \<Rightarrow> 'e turn list \<Rightarrow>
     'm secondary \<Rightarrow> 'm secondary result" where
  "run_thread greeting who turn m evs t =
     and_then (run_turns who turn evs (t\<lparr>manager := m, th_log := th_log t @ [Log greeting]\<rparr>))
       (\<lambda>t'. Inr (if th_cancelled t' then t'\<lparr>th_log := th_log t' @ [Log (who @ '' server shutting down'')]\<rparr>
                  else t'))"

lemma run_turns_cancelled: "th_cancelled t \<Longrightarrow> run_turns who turn evs t = Inr t"
  by (cases evs) simp_all

text \<open>Turns that each answer one command answer all of them, in order.\<close>

lemma run_turns_answers:
  assumes "\<And>t e. e \<in> set es \<Longrightarrow> \<not> owing (socket t) \<Longrightarrow> \<not> th_cancelled t \<Longrightarrow> I t \<Longrightarrow>
      \<exists>t' msg. turn e t = Inr t' \<and> answers (socket t') = answers (socket t) @ [msg] \<and> P e msg \<and>
        \<not> owing (socket t') \<and> \<not> th_cancelled t' \<and> I t'"
    and "\<not> owing (socket t)" and "\<not> th_cancelled t" and "I t"
  shows "\<exists>t' msgs. run_turns who turn (map Turn es) t = Inr t' \<and>
    answers (socket t') = answers (socket t) @ msgs \<and> list_all2 P es msgs \<and>
    \<not> owing (socket t') \<and> \<not> th_cancelled t' \<and> I t'"
  using assms
proof (induction es arbitrary: t)
  case Nil
  then show ?case by simp
next
  case (Cons e es)
  from Cons.prems(1) [of e t] Cons.prems(2-4) obtain t1 msg where
    t1: "turn e t = Inr t1" "answers (socket t1) = answers (socket t) @ [msg]" "P e msg"
      "\<not> owing (socket t1)" "\<not> th_cancelled t1" "I t1" by auto
  from Cons.IH [OF Cons.prems(1) t1(4-6)] obtain t2 msgs where
    "run_turns who turn (map Turn es) t1 = Inr t2" "answers (socket t2) = answers (socket t1) @ msgs"
    "list_all2 P es msgs" "\<not> owing (socket t2)" "\<not> th_cancelled t2" "I t2" by auto
  with t1 Cons.prems(3) show ?case
    by (intro exI [of _ t2] exI [of _ "msg # msgs"]) simp
qed

section \<open>The contract of a command handler\<close>

definition thread_errors :: "server_command list" where
  "thread_errors = [UNKNOWN_COMMAND, INVALID_COMMAND_DATA, CANT_OPEN_FILE, ERROR_OCCURED]"

text \<open>An answer to a command: its code followed by data, or an error code alone.\<close>

definition answer_to :: "host \<Rightarrow> server_command \<Rightarrow> bytes \<Rightarrow> bool" where
  "answer_to h cmd msg \<longleftrightarrow>
     (\<exists>data. msg = message (byte_order h) cmd data) \<or>
     list_ex (\<lambda>err. msg = message (byte_order h) err []) thread_errors"

locale command_thread =
  fixes handle :: "'m handler"
  assumes one_answer: "owing (socket t) \<Longrightarrow> mLastCommand t = cmd \<Longrightarrow> handle h cmd data t = Inr t' \<Longrightarrow>
      \<not> owing (socket t') \<and> (\<exists>msg. answers (socket t') = answers (socket t) @ [msg] \<and> answer_to h cmd msg)"
    and in_turn: "owing (socket t) \<Longrightarrow> handle h cmd data t = Inl f \<Longrightarrow> f = Out_Of_Bounds \<or> f = Bad_Cast"
    and keeps_running: "handle h cmd data t = Inr t' \<Longrightarrow> th_cancelled t' = th_cancelled t"
begin

lemma poll_idle: "\<not> owing (socket t) \<Longrightarrow> pollCommands handle ex h None t = Inr t"
  by (simp add: pollCommands_def rep_recv_def)

text \<open>A well-formed command is answered at once and the thread is ready for the next one.\<close>

lemma poll_handles:
  assumes "\<not> owing (socket t)" and "4 \<le> length msg" and "\<not> misaligned msg"
  shows "pollCommands handle ex h (Some msg) t =
    handle h (ServerCommand (load_at (byte_order h) 4 msg 0)) (command_data (byte_order h) msg)
      (t\<lparr>socket := (socket t)\<lparr>owing := True\<rparr>, mLastCommand := ServerCommand (load_at (byte_order h) 4 msg 0)\<rparr>)"
  using assms by (simp add: pollCommands_def rep_recv_def command_word_def Let_def)

lemma poll_answers_any:
  assumes "\<not> owing (socket t)" and "4 \<le> length msg" and "\<not> misaligned msg"
    and "pollCommands handle ex h (Some msg) t = Inr t'"
  shows "\<not> owing (socket t') \<and> th_cancelled t' = th_cancelled t \<and>
    (\<exists>reply. answers (socket t') = answers (socket t) @ [reply] \<and>
      answer_to h (ServerCommand (load_at (byte_order h) 4 msg 0)) reply)"
  using assms one_answer [OF _ _ assms(4) [unfolded poll_handles [OF assms(1-3)]]]
    keeps_running [OF assms(4) [unfolded poll_handles [OF assms(1-3)]]]
  by simp

lemma poll_faults:
  assumes "\<not> owing (socket t)" and "4 \<le> length msg" and "\<not> misaligned msg"
    and "pollCommands handle ex h (Some msg) t = Inl f"
  shows "f = Out_Of_Bounds \<or> f = Bad_Cast"
  using in_turn [OF _ assms(4) [unfolded poll_handles [OF assms(1-3)]]] by simp

lemma poll_answers:
  assumes "\<not> owing (socket t)" and "4 * (length data + 1) < 2 ^ 32"
    and "pollCommands handle ex h (Some (message (byte_order h) cmd data)) t = Inr t'"
  shows "\<not> owing (socket t') \<and> th_cancelled t' = th_cancelled t \<and>
    (\<exists>msg. answers (socket t') = answers (socket t) @ [msg] \<and> answer_to h cmd msg)"
proof -
  note m = message_words [OF assms(2), of "byte_order h" cmd]
  have "4 \<le> length (message (byte_order h) cmd data)" by (simp add: message_def)
  moreover from m(1) this have "load_at (byte_order h) 4 (message (byte_order h) cmd data) 0 = server_code cmd"
    by (simp add: command_word_def split: if_splits)
  ultimately show ?thesis
    using poll_answers_any [OF assms(1) _ m(3) assms(3)] by simp
qed

text \<open>A misaligned command is never answered, and the next poll stops the thread.\<close>

lemma misaligned_stops:
  assumes "\<not> owing (socket t)" and "4 \<le> length msg" and "misaligned msg"
  shows "\<exists>t1 t2. pollCommands handle ex h (Some msg) t = Inr t1 \<and>
    pollCommands handle ex h waiting t1 = Inr t2 \<and>
    answers (socket t2) = answers (socket t) \<and> th_cancelled t2"
proof -
  have "pollCommands handle ex h (Some msg) t = Inr (t\<lparr>socket := (socket t)\<lparr>owing := True\<rparr>\<rparr>)"
    using assms by (simp add: pollCommands_def rep_recv_def command_word_def)
  then show ?thesis by (simp add: pollCommands_def [of _ _ _ waiting] rep_recv_def)
qed

end

section \<open>Lemmas for handlers\<close>

lemma sendResponse_owing:
  "owing (socket t) \<Longrightarrow> sendResponse h data t =
     Inr (t\<lparr>socket := \<lparr>owing = False,
       answers = answers (socket t) @ [message (byte_order h) (mLastCommand t) data]\<rparr>\<rparr>)"
  by (simp add: sendResponse_def rep_send_def)

lemma sendError_owing:
  "owing (socket t) \<Longrightarrow> sendError h errcode t =
     Inr (t\<lparr>mLastCommand := errcode, socket := \<lparr>owing = False,
       answers = answers (socket t) @ [message (byte_order h) errcode []]\<rparr>\<rparr>)"
  by (simp add: sendError_def sendResponse_owing)

lemma answer_to_self [simp]: "answer_to h cmd (message (byte_order h) cmd data)"
  by (auto simp: answer_to_def)

lemma answer_to_error:
  "err \<in> set thread_errors \<Longrightarrow> answer_to h cmd (message (byte_order h) err [])"
  by (auto simp: answer_to_def list_ex_iff)

lemma sendResponse_cancelled: "sendResponse h data t = Inr t' \<Longrightarrow> th_cancelled t' = th_cancelled t"
  by (auto simp: sendResponse_def and_then_eq_Inr)

lemma sendError_cancelled: "sendError h err t = Inr t' \<Longrightarrow> th_cancelled t' = th_cancelled t"
  by (auto simp: sendError_def dest: sendResponse_cancelled)

lemmas thread_errors_simps = thread_errors_def answer_to_error

end
