(* ===== verification/UdpThread.thy ===== *)
theory UdpThread
  imports UdpManager Secondary
begin

text \<open>
  \<open>UdpThread\<close> (src/server/UdpThread.cpp): the commands of the UDP server's thread on top of
  \<open>UdpConnectionManager\<close>.  \<open>udp_publish_endpoint\<close> is the endpoint ZeroMQ gave the manager's
  publishing socket.
\<close>

record udp_server =
  udp :: udp_manager
  udp_publish_endpoint :: string

type_synonym udp_thread = "udp_server secondary"

definition udp_getPublishServerAddress :: "udp_server \<Rightarrow> string" where
  "udp_getPublishServerAddress m = local_address (udp_publish_endpoint m)"

definition setRawTpxPath :: "host \<Rightarrow> u32 list \<Rightarrow> udp_thread \<Rightarrow> udp_thread result" where
  "setRawTpxPath h data t =
     (let s = path_of_data data;
          (m, ok) = udp_setSaveFile (opens h) s (udp (manager t));
          t1 = t\<lparr>manager := (manager t)\<lparr>udp := m\<rparr>\<rparr>
      in if ok then sendResponse h data t1
         else sendError h CANT_OPEN_FILE
           (t1\<lparr>th_log := th_log t1 @ [Warn (''Unable to open path \"'' @ s @ ''\" for image output'')]\<rparr>))"

definition sendRawDataServerPath :: "host \<Rightarrow> u32 list \<Rightarrow> udp_thread \<Rightarrow> udp_thread result" where
  "sendRawDataServerPath h data t =
     (if length data \<noteq> 0 then sendError h INVALID_COMMAND_DATA t
      else sendResponse h (pack_string (byte_order h) (udp_getPublishServerAddress (manager t))) t)"

definition resetToaRolloverCounter :: "host \<Rightarrow> u32 list \<Rightarrow> udp_thread \<Rightarrow> udp_thread result" where
  "resetToaRolloverCounter h data t =
     (if length data \<noteq> 0 then sendError h INVALID_COMMAND_DATA t
      else sendResponse h data
        (t\<lparr>manager := (manager t)\<lparr>udp := udp_resetToaRolloverCounter (udp (manager t))\<rparr>\<rparr>))"

definition udp_handleCommand :: "udp_server handler" where
  "udp_handleCommand h cmd data t =
     (if cmd = SET_RAW_TPX3_PATH then setRawTpxPath h data t
      else if cmd = GET_RAW_DATA_SERVER_PATH then sendRawDataServerPath h data t
      else if cmd = RESET_TOA_ROLLOVER_COUNTER then resetToaRolloverCounter h data t
      else sendError h UNKNOWN_COMMAND t)"

text \<open>
  One turn of the loop of \<open>execute\<close>: a command if one waits, then the datagrams that have
  arrived (\<open>mUdpManager->poll\<close> runs the completed receives).
\<close>

definition udp_turn ::
  "int \<times> string \<Rightarrow> host \<Rightarrow> bytes option \<Rightarrow> datagram list \<Rightarrow> udp_thread \<Rightarrow> udp_thread result"
where
  "udp_turn ex h waiting ds t =
     (if th_cancelled t \<or> udp_cancelled (udp (manager t)) then Inr t
      else and_then (pollCommands udp_handleCommand ex h waiting t) (\<lambda>t1.
        Inr (t1\<lparr>manager := (manager t1)\<lparr>udp := udp_poll (byte_order h) (udp (manager t1)) ds\<rparr>\<rparr>)))"

text \<open>\<open>execute\<close>: a failure to open the port cancels the thread before its first turn.\<close>

definition udp_execute ::
  "int \<times> string \<Rightarrow> host \<Rightarrow> u32 \<Rightarrow> udp_server \<Rightarrow> string option \<Rightarrow> (bytes option \<times> datagram list) turn list \<Rightarrow>
     udp_thread \<Rightarrow> udp_thread result" where
  "udp_execute ex h port m failure evs t =
     (let m' = m\<lparr>udp := udp_attemptConnection failure (udp m)\<rparr>
      in run_thread (''Launching UDP server on port '' @ to_string (uint port)) ''UDP''
           (\<lambda>(waiting, ds). udp_turn ex h waiting ds) m' evs
           (t\<lparr>th_cancelled := th_cancelled t \<or> udp_cancelled (udp m')\<rparr>))"

section \<open>Every command is answered once\<close>

lemmas udp_handler_defs = udp_handleCommand_def setRawTpxPath_def sendRawDataServerPath_def
  resetToaRolloverCounter_def

lemma udp_handler_total:
  assumes "owing (socket t)"
  shows "\<exists>t'. udp_handleCommand h cmd data t = Inr t'"
  using assms by (simp add: udp_handler_defs Let_def case_prod_beta sendResponse_owing sendError_owing)

interpretation udp_commands: command_thread udp_handleCommand
proof
  fix t t' :: udp_thread and cmd h data
  show "owing (socket t) \<Longrightarrow> mLastCommand t = cmd \<Longrightarrow> udp_handleCommand h cmd data t = Inr t' \<Longrightarrow>
      \<not> owing (socket t') \<and> (\<exists>msg. answers (socket t') = answers (socket t) @ [msg] \<and> answer_to h cmd msg)"
    by (auto simp: udp_handler_defs Let_def case_prod_beta sendResponse_owing sendError_owing
        thread_errors_simps split: if_splits)
  show "owing (socket t) \<Longrightarrow> udp_handleCommand h cmd data t = Inl f \<Longrightarrow> f = Out_Of_Bounds \<or> f = Bad_Cast" for f
    using udp_handler_total [of t h cmd data] by auto
  show "udp_handleCommand h cmd data t = Inr t' \<Longrightarrow> th_cancelled t' = th_cancelled t"
    by (auto simp: udp_handler_defs Let_def case_prod_beta split: if_splits
        dest!: sendResponse_cancelled sendError_cancelled)
qed

section \<open>Properties\<close>

lemma udp_poll_cancelled: "udp_cancelled (udp_poll e m ds) = udp_cancelled m"
  by (induction e m ds rule: udp_poll.induct)
    (simp_all add: handleMessage_def parseBytes_def publishRawData_def Let_def case_prod_beta)

lemma udp_handler_keeps_manager:
  "udp_handleCommand h cmd data t = Inr t' \<Longrightarrow>
     udp_cancelled (udp (manager t')) = udp_cancelled (udp (manager t))"
  by (auto simp: udp_handler_defs Let_def case_prod_beta sendResponse_def sendError_def and_then_eq_Inr
      udp_setSaveFile_def udp_resetToaRolloverCounter_def split: if_splits)

lemma udp_turn_answers:
  assumes "\<not> owing (socket t)" and "\<not> th_cancelled t" and "\<not> udp_cancelled (udp (manager t))"
    and "4 * (length data + 1) < 2 ^ 32"
  shows "\<exists>t' msg. udp_turn ex h (Some (message (byte_order h) cmd data)) ds t = Inr t' \<and>
    answers (socket t') = answers (socket t) @ [msg] \<and> answer_to h cmd msg \<and>
    \<not> owing (socket t') \<and> \<not> th_cancelled t' \<and> \<not> udp_cancelled (udp (manager t'))"
proof -
  let ?t = "t\<lparr>socket := (socket t)\<lparr>owing := True\<rparr>, mLastCommand := cmd\<rparr>"
  have poll: "pollCommands udp_handleCommand ex h (Some (message (byte_order h) cmd data)) t =
      udp_handleCommand h cmd data ?t"
    using assms(1) by (simp add: pollCommands_def rep_recv_def message_words [OF assms(4)] Let_def)
  obtain t1 where t1: "udp_handleCommand h cmd data ?t = Inr t1"
    using udp_handler_total [of ?t h cmd data] by auto
  with udp_commands.poll_answers [OF assms(1,4), of ex h cmd t1] poll udp_handler_keeps_manager [OF t1] assms(2,3)
  show ?thesis by (auto simp: udp_turn_def poll udp_poll_cancelled)
qed

text \<open>C17. Over a whole run of the UDP thread every well-formed command is answered exactly once,
  in order, with its own code or an error code, whatever datagrams arrive in between; and the
  thread goes on.\<close>

theorem udp_thread_answers:
  assumes "\<not> owing (socket t)" and "\<not> th_cancelled t" and "\<not> udp_cancelled (udp m)"
    and "list_all (\<lambda>(cmd, data, ds). 4 * (length data + 1) < 2 ^ 32) cs"
  shows "\<exists>t' msgs. udp_execute ex h port m None
      (map (\<lambda>(cmd, data, ds). Turn (Some (message (byte_order h) cmd data), ds)) cs) t = Inr t' \<and>
    answers (socket t') = answers (socket t) @ msgs \<and>
    list_all2 (\<lambda>(cmd, data, ds) msg. answer_to h cmd msg) cs msgs \<and> \<not> th_cancelled t'"
proof -
  define greeting where "greeting = ''Launching UDP server on port '' @ to_string (uint port)"
  define m1 where "m1 = m\<lparr>udp := udp_attemptConnection None (udp m)\<rparr>"
  have m1: "\<not> udp_cancelled (udp m1)" using assms(3) by (simp add: m1_def udp_attemptConnection_def)
  let ?t = "t\<lparr>th_cancelled := th_cancelled t \<or> udp_cancelled (udp m1), manager := m1,
    th_log := th_log t @ [Log greeting]\<rparr>"
  let ?turn = "\<lambda>(cmd, data, ds). udp_turn ex h (Some (message (byte_order h) cmd data)) ds"
  have eq: "run_turns who (\<lambda>(waiting, ds). udp_turn ex h waiting ds)
      (map (\<lambda>(cmd, data, ds). Turn (Some (message (byte_order h) cmd data), ds)) cs) t =
    run_turns who ?turn (map Turn cs) t" for who t
    by (induction cs arbitrary: t) (auto simp: and_then_def split: sum.split)
  have "\<exists>t' msgs. run_turns ''UDP'' ?turn (map Turn cs) ?t = Inr t' \<and>
    answers (socket t') = answers (socket ?t) @ msgs \<and>
    list_all2 (\<lambda>(cmd, data, ds) msg. answer_to h cmd msg) cs msgs \<and>
    \<not> owing (socket t') \<and> \<not> th_cancelled t' \<and> \<not> udp_cancelled (udp (manager t'))"
  proof (rule run_turns_answers)
    fix t :: udp_thread and e :: "server_command \<times> u32 list \<times> datagram list"
    assume "e \<in> set cs" "\<not> owing (socket t)" "\<not> th_cancelled t" "\<not> udp_cancelled (udp (manager t))"
    with assms(4) udp_turn_answers [of t "fst (snd e)" ex h "fst e" "snd (snd e)"]
    show "\<exists>t' msg. ?turn e t = Inr t' \<and> answers (socket t') = answers (socket t) @ [msg] \<and>
      (case e of (cmd, data, ds) \<Rightarrow> \<lambda>msg. answer_to h cmd msg) msg \<and> \<not> owing (socket t') \<and>
      \<not> th_cancelled t' \<and> \<not> udp_cancelled (udp (manager t'))"
      by (cases e) (auto simp: list_all_iff)
  qed (use assms m1 in simp_all)
  then obtain t' msgs where "run_turns ''UDP'' ?turn (map Turn cs) ?t = Inr t'" "\<not> th_cancelled t'"
    "answers (socket t') = answers (socket t) @ msgs"
    "list_all2 (\<lambda>(cmd, data, ds) msg. answer_to h cmd msg) cs msgs" by auto
  then show ?thesis
    unfolding udp_execute_def Let_def m1_def [symmetric] greeting_def [symmetric] run_thread_def
    by (intro exI [of _ t'] exI [of _ msgs]) (simp add: eq)
qed

definition test_host :: host where
  "test_host = \<lparr>byte_order = Little, opens = (\<lambda>p. p = ''run''), connects = (\<lambda>p. True)\<rparr>"

definition idle_udp_thread :: udp_thread where
  "idle_udp_thread = start_thread \<lparr>udp = init_udp_manager, udp_publish_endpoint = ''tcp://0.0.0.0:4001''\<rparr>
     ''tcp://0.0.0.0:4000''"

theorem udp_thread_answers_witness:
  "\<exists>t' msgs. udp_execute (156384763, ''EFSM'') test_host 8192 (manager idle_udp_thread) None
      [Turn (Some (message Little SET_RAW_TPX3_PATH [0x78]), [])] idle_udp_thread = Inr t' \<and>
    answers (socket t') = msgs \<and> list_all2 (answer_to test_host) [SET_RAW_TPX3_PATH] msgs \<and>
    \<not> th_cancelled t'"
  using udp_thread_answers [of idle_udp_thread "manager idle_udp_thread" "[(SET_RAW_TPX3_PATH, [0x78], [])]"
      "(156384763, ''EFSM'')" test_host 8192]
  by (auto simp: idle_udp_thread_def start_thread_def fresh_rep_def test_host_def init_udp_manager_def
      list_all2_Cons1)

text \<open>A command of at least four bytes whose size is not a multiple of 4 is never answered;
  the socket then refuses the next receive and the UDP thread stops.\<close>

theorem misaligned_command_stops_udp_thread:
  assumes "\<not> owing (socket t)" and "4 \<le> length msg" and "misaligned msg"
  shows "\<exists>t1 t2. pollCommands udp_handleCommand ex h (Some msg) t = Inr t1 \<and>
    pollCommands udp_handleCommand ex h waiting t1 = Inr t2 \<and>
    answers (socket t2) = answers (socket t) \<and> th_cancelled t2"
  by (rule udp_commands.misaligned_stops [OF assms])

theorem misaligned_command_stops_udp_thread_witness:
  "\<exists>t1 t2. pollCommands udp_handleCommand (156384763, ''EFSM'') test_host
      (Some [0xF6, 1, 0, 0, 7]) idle_udp_thread = Inr t1 \<and>
    pollCommands udp_handleCommand (156384763, ''EFSM'') test_host None t1 = Inr t2 \<and>
    answers (socket t2) = [] \<and> th_cancelled t2"
  using misaligned_command_stops_udp_thread [of idle_udp_thread "[0xF6, 1, 0, 0, 7]"
      "(156384763, ''EFSM'')" test_host None]
  by (simp add: idle_udp_thread_def start_thread_def fresh_rep_def misaligned_def)

text \<open>A client that sends a path reads it back as the answer exactly when the file opens;
  then the thread is saving to a fresh file, and otherwise it saves nothing.\<close>

theorem save_path_command:
  assumes "owing (socket t)" and "mLastCommand t = SET_RAW_TPX3_PATH" and "CHR 0x00 \<notin> set path"
    and "path \<noteq> []"
  shows "\<exists>t'. udp_handleCommand h SET_RAW_TPX3_PATH (data_of_path path) t = Inr t' \<and>
    last (answers (socket t')) =
      (if opens h path then message (byte_order h) SET_RAW_TPX3_PATH (data_of_path path)
       else message (byte_order h) CANT_OPEN_FILE []) \<and>
    (if opens h path then udp_file (udp (manager t')) = \<lparr>is_open = True, failed = False, contents = []\<rparr>
     else \<not> is_open (udp_file (udp (manager t'))))"
proof -
  let ?r = "udp_set_file (opens h) path (udp_file (udp (manager t)))"
  have s: "snd ?r \<longleftrightarrow> opens h path" using udp_save.success_iff [of "opens h" path] assms(4) by simp
  have f: "opens h path \<Longrightarrow> fst ?r = \<lparr>is_open = True, failed = False, contents = []\<rparr>"
    using udp_save.opened [where opens = "opens h" and path = path] assms(4) by simp
  have g: "\<not> opens h path \<Longrightarrow> \<not> is_open (fst ?r)"
    using udp_save.saving_iff [of "opens h" path] by blast
  show ?thesis using assms s f g
    by (auto simp: udp_handleCommand_def setRawTpxPath_def Let_def case_prod_beta udp_setSaveFile_def
        path_of_data_of_path sendResponse_owing sendError_owing)
qed

theorem save_path_command_witness:
  "\<exists>t'. udp_handleCommand test_host SET_RAW_TPX3_PATH (data_of_path ''run'')
      (idle_udp_thread\<lparr>socket := \<lparr>owing = True, answers = []\<rparr>, mLastCommand := SET_RAW_TPX3_PATH\<rparr>) = Inr t' \<and>
    last (answers (socket t')) = message Little SET_RAW_TPX3_PATH (data_of_path ''run'')"
  using save_path_command [of "idle_udp_thread\<lparr>socket := \<lparr>owing = True, answers = []\<rparr>,
      mLastCommand := SET_RAW_TPX3_PATH\<rparr>" "''run''" test_host]
  by (auto simp: test_host_def)

end
