(* ===== verification/Binary64.thy ===== *)
theory Binary64
  imports Complex_Main Prelude
begin

text \<open>
  \<open>double\<close>: IEEE 754 binary64 with round to nearest, ties to even, each operation rounded
  once (no contraction).  A finite value is its exact rational; rounding is executable.  The
  two zeros are one value: the program never divides by a zero that could be negative.
\<close>

datatype dbl = NaN | Infinite bool | Fin rat

section \<open>Rounding\<close>

fun bit_count :: "nat \<Rightarrow> nat" where
  "bit_count n = (if n = 0 then 0 else Suc (bit_count (n div 2)))"

declare bit_count.simps [simp del]

text \<open>The binary exponent: \<open>2 powi e \<le> q < 2 powi (e + 1)\<close>.\<close>

definition bin_exp :: "rat \<Rightarrow> int" where
  "bin_exp q =
     (let (n, d) = quotient_of q; k = int (bit_count (nat n)) - int (bit_count (nat d))
      in if 2 powi k \<le> q then k else k - 1)"

text \<open>The exponent of the last place of a 53-bit significand, subnormals included.\<close>

definition ulp_exp :: "rat \<Rightarrow> int" where
  "ulp_exp q = max (bin_exp q - 52) (- 1074)"

definition round_half_even :: "rat \<Rightarrow> int" where
  "round_half_even q =
     (let f = \<lfloor>q\<rfloor>; r = q - of_int f
      in if r < 1 / 2 then f else if 1 / 2 < r then f + 1 else if even f then f else f + 1)"

definition round_mag :: "rat \<Rightarrow> rat" where
  "round_mag q = of_int (round_half_even (q / 2 powi ulp_exp q)) * 2 powi ulp_exp q"

definition rnd :: "rat \<Rightarrow> dbl" where
  "rnd q =
     (if q = 0 then Fin 0
      else let v = round_mag \<bar>q\<bar>
           in if 2 ^ 1024 \<le> v then Infinite (q < 0) else Fin (if q < 0 then - v else v))"

section \<open>Arithmetic\<close>

definition dbl_sign :: "dbl \<Rightarrow> bool" where
  "dbl_sign d = (case d of Fin q \<Rightarrow> q < 0 | Infinite s \<Rightarrow> s | NaN \<Rightarrow> False)"

instantiation dbl :: "{plus, times, inverse}"
begin

definition plus_dbl :: "dbl \<Rightarrow> dbl \<Rightarrow> dbl" where
  "plus_dbl a b =
     (case (a, b) of
        (Fin p, Fin q) \<Rightarrow> rnd (p + q)
      | (Infinite s, Infinite t) \<Rightarrow> if s = t then Infinite s else NaN
      | (Infinite s, Fin q) \<Rightarrow> Infinite s
      | (Fin p, Infinite t) \<Rightarrow> Infinite t
      | _ \<Rightarrow> NaN)"

definition times_dbl :: "dbl \<Rightarrow> dbl \<Rightarrow> dbl" where
  "times_dbl a b =
     (if a = NaN \<or> b = NaN then NaN
      else case (a, b) of
        (Fin p, Fin q) \<Rightarrow> rnd (p * q)
      | _ \<Rightarrow> if a = Fin 0 \<or> b = Fin 0 then NaN else Infinite (dbl_sign a \<noteq> dbl_sign b))"

definition divide_dbl :: "dbl \<Rightarrow> dbl \<Rightarrow> dbl" where
  "divide_dbl a b =
     (if a = NaN \<or> b = NaN then NaN
      else case (a, b) of
        (Fin p, Fin q) \<Rightarrow>
          if q = 0 then (if p = 0 then NaN else Infinite (p < 0)) else rnd (p / q)
      | (Fin p, Infinite t) \<Rightarrow> Fin 0
      | (Infinite s, Fin q) \<Rightarrow> Infinite (s \<noteq> (q < 0))
      | _ \<Rightarrow> NaN)"

definition inverse_dbl :: "dbl \<Rightarrow> dbl" where
  "inverse_dbl a = divide (Fin 1) a"

instance ..

end

text \<open>Conversions: an integer rounds; a \<open>double\<close> converts to \<open>std::uint64_t\<close> by
  truncation, and the behaviour is undefined where the truncated value does not fit.\<close>

definition dbl_of_int :: "int \<Rightarrow> dbl" where
  "dbl_of_int n = rnd (of_int n)"

definition trunc_rat :: "rat \<Rightarrow> int" where
  "trunc_rat q = (if q < 0 then \<lceil>q\<rceil> else \<lfloor>q\<rfloor>)"

definition dbl_to_u64 :: "dbl \<Rightarrow> u64 result" where
  "dbl_to_u64 d =
     (case d of
        Fin q \<Rightarrow> (let z = trunc_rat q
                  in if 0 \<le> z \<and> z < 2 ^ 64 then Inr (word_of_int z) else Inl Bad_Cast)
      | _ \<Rightarrow> Inl Bad_Cast)"

section \<open>The exponent\<close>

lemma bit_count_bounds:
  "0 < n \<Longrightarrow> 2 ^ (bit_count n - 1) \<le> n \<and> n < 2 ^ bit_count n \<and> 0 < bit_count n"
proof (induction n rule: bit_count.induct)
  case (1 n)
  show ?case
  proof (cases "n = 1")
    case True
    then show ?thesis by (simp add: bit_count.simps)
  next
    case False
    with "1.prems" have n: "2 \<le> n" and h: "0 < n div 2" by auto
    with "1.IH" have IH: "2 ^ (bit_count (n div 2) - 1) \<le> n div 2"
      "n div 2 < 2 ^ bit_count (n div 2)" "0 < bit_count (n div 2)" by auto
    have s: "bit_count n = Suc (bit_count (n div 2))" using n by (subst bit_count.simps) simp
    obtain b where b: "bit_count (n div 2) = Suc b" using IH(3) gr0_implies_Suc by blast
    define c :: nat where "c = 2 ^ b"
    have "c \<le> n div 2" and "n div 2 < 2 * c" using IH(1,2) by (simp_all add: b c_def)
    then have "2 * c \<le> n \<and> n < 4 * c" by presburger
    then show ?thesis by (simp add: s b c_def)
  qed
qed

lemma pow_quotient:
  "0 < d \<Longrightarrow> (2::rat) ^ n / 2 ^ (d - 1) = 2 powi (int n - int d + 1)"
  "0 < n \<Longrightarrow> (2::rat) ^ (n - 1) / 2 ^ d = 2 powi (int n - int d - 1)"
proof -
  assume "0 < d"
  then have e: "int n - int d + 1 = int n - int (d - 1)" by simp
  show "(2::rat) ^ n / 2 ^ (d - 1) = 2 powi (int n - int d + 1)"
    unfolding e by (subst power_int_diff) simp_all
next
  assume "0 < n"
  then have e: "int n - int d - 1 = int (n - 1) - int d" by simp
  show "(2::rat) ^ (n - 1) / 2 ^ d = 2 powi (int n - int d - 1)"
    unfolding e by (subst power_int_diff) simp_all
qed

lemma bin_exp_bounds:
  assumes "0 < q"
  shows "2 powi bin_exp q \<le> q" and "q < 2 powi (bin_exp q + 1)"
proof -
  obtain n d where nd: "quotient_of q = (n, d)" by (cases "quotient_of q")
  then have d: "0 < d" and q: "q = of_int n / of_int d"
    by (simp_all add: quotient_of_denom_pos quotient_of_div)
  with assms have n: "0 < n" by (simp add: zero_less_divide_iff)
  define bn where "bn = bit_count (nat n)"
  define bd where "bd = bit_count (nat d)"
  have bn: "2 ^ (bn - 1) \<le> nat n" "nat n < 2 ^ bn" "0 < bn"
    using bit_count_bounds [of "nat n"] n by (auto simp: bn_def)
  have bd: "2 ^ (bd - 1) \<le> nat d" "nat d < 2 ^ bd" "0 < bd"
    using bit_count_bounds [of "nat d"] d by (auto simp: bd_def)
  have N: "(2::rat) ^ (bn - 1) \<le> of_int n" "of_int n < (2::rat) ^ bn"
    using bn n by (simp_all add: nat_le_iff le_nat_iff nat_less_iff flip: of_int_le_iff of_int_less_iff)
  have D: "(2::rat) ^ (bd - 1) \<le> of_int d" "of_int d < (2::rat) ^ bd"
    using bd d by (simp_all add: nat_le_iff le_nat_iff nat_less_iff flip: of_int_le_iff of_int_less_iff)
  define k where "k = int bn - int bd"
  have "q < 2 ^ bn / 2 ^ (bd - 1)"
    unfolding q using N D d n by (intro frac_less) auto
  also have "\<dots> = 2 powi (k + 1)"
    unfolding k_def by (rule pow_quotient(1) [OF bd(3)])
  finally have up: "q < 2 powi (k + 1)" .
  have "2 powi (k - 1) = 2 ^ (bn - 1) / (2 ^ bd :: rat)"
    unfolding k_def by (rule pow_quotient(2) [OF bn(3), symmetric])
  also have "\<dots> \<le> q" unfolding q using N D d n by (intro frac_le) auto
  finally have lo: "2 powi (k - 1) \<le> q" .
  have e: "bin_exp q = (if 2 powi k \<le> q then k else k - 1)"
    by (simp add: bin_exp_def nd k_def bn_def bd_def)
  from lo e show "2 powi bin_exp q \<le> q" by simp
  from up e show "q < 2 powi (bin_exp q + 1)" by simp
qed

lemma powi_le_iff: "(2::rat) powi a \<le> 2 powi b \<longleftrightarrow> a \<le> b"
proof
  assume "(2::rat) powi a \<le> 2 powi b"
  then show "a \<le> b"
    by (metis linorder_not_less one_less_numeral_iff power_int_strict_increasing semiring_norm(76))
next
  assume "a \<le> b"
  then show "(2::rat) powi a \<le> 2 powi b" by (intro power_int_increasing) simp_all
qed

lemma powi_less_iff: "(2::rat) powi a < 2 powi b \<longleftrightarrow> a < b"
  by (meson linorder_not_less powi_le_iff)

lemma powi_pos: "0 < (2::rat) powi k"
  by (intro zero_less_power_int) simp

lemma bin_exp_mono: "0 < p \<Longrightarrow> p \<le> q \<Longrightarrow> bin_exp p \<le> bin_exp q"
  using bin_exp_bounds(1) [of p] bin_exp_bounds(2) [of q]
  by (metis order.strict_trans1 order.strict_trans2 powi_less_iff zless_add1_eq order_le_less)

lemma bin_exp_unique: "2 powi e \<le> q \<Longrightarrow> q < 2 powi (e + 1) \<Longrightarrow> bin_exp q = e"
proof -
  assume e: "2 powi e \<le> q" "q < 2 powi (e + 1)"
  then have q: "0 < q" using powi_pos [of e] by linarith
  have "2 powi e < (2::rat) powi (bin_exp q + 1)" "2 powi bin_exp q < (2::rat) powi (e + 1)"
    using bin_exp_bounds [OF q] e by linarith+
  then show ?thesis by (simp add: powi_less_iff)
qed

lemma ulp_exp_mono: "0 < p \<Longrightarrow> p \<le> q \<Longrightarrow> ulp_exp p \<le> ulp_exp q"
  using bin_exp_mono [of p q] by (simp add: ulp_exp_def)

section \<open>Rounding is between representable bounds\<close>

lemma round_half_even_ge: "of_int m \<le> q \<Longrightarrow> m \<le> round_half_even q"
  unfolding round_half_even_def Let_def le_floor_iff [symmetric] by auto

lemma round_half_even_le: "q \<le> of_int m \<Longrightarrow> round_half_even q \<le> m"
proof (cases "q = of_int m")
  case True
  then show ?thesis by (simp add: round_half_even_def)
next
  case False
  assume "q \<le> of_int m"
  with False have "\<lfloor>q\<rfloor> < m" by (simp add: floor_less_iff)
  then show ?thesis by (simp add: round_half_even_def Let_def)
qed

definition dbl_repr :: "rat \<Rightarrow> bool" where
  "dbl_repr b \<longleftrightarrow> 0 < b \<and> b < 2 ^ 1024 \<and> (\<exists>k. b = of_int k * 2 powi ulp_exp b)"

lemma repr_multiple:
  assumes "dbl_repr b" and "e \<le> ulp_exp b"
  shows "\<exists>m. b / 2 powi e = of_int m"
proof -
  obtain k where k: "b = of_int k * 2 powi ulp_exp b" using assms(1) by (auto simp: dbl_repr_def)
  have "(2::rat) powi ulp_exp b / 2 powi e = 2 powi (ulp_exp b - e)"
    by (simp add: power_int_diff)
  also have "\<dots> = of_int (2 ^ nat (ulp_exp b - e))"
    using assms(2) by (simp add: power_int_def)
  finally have "b / 2 powi e = of_int (k * 2 ^ nat (ulp_exp b - e))"
    by (subst k) (simp only: times_divide_eq_right [symmetric] of_int_mult)
  then show ?thesis by blast
qed

lemma round_mag_le:
  assumes "0 < q" and "q \<le> b" and "dbl_repr b"
  shows "round_mag q \<le> b"
proof -
  obtain m where m: "b / 2 powi ulp_exp q = of_int m"
    using repr_multiple [OF assms(3) ulp_exp_mono [OF assms(1,2)]] by blast
  have "q / 2 powi ulp_exp q \<le> b / 2 powi ulp_exp q"
    using assms(2) powi_pos by (intro divide_right_mono) (simp_all add: order_less_imp_le)
  then have "round_half_even (q / 2 powi ulp_exp q) \<le> m"
    unfolding m by (rule round_half_even_le)
  then have "round_mag q \<le> of_int m * 2 powi ulp_exp q"
    unfolding round_mag_def using powi_pos
    by (intro mult_right_mono) (simp_all add: order_less_imp_le)
  also have "\<dots> = b" using m powi_pos [of "ulp_exp q"] by (simp add: field_simps)
  finally show ?thesis .
qed

lemma round_mag_ge_multiple:
  assumes "of_int m * 2 powi ulp_exp q \<le> q"
  shows "of_int m * 2 powi ulp_exp q \<le> round_mag q"
proof -
  have "of_int m \<le> q / 2 powi ulp_exp q" using assms powi_pos by (simp add: pos_le_divide_eq)
  then have "m \<le> round_half_even (q / 2 powi ulp_exp q)" by (rule round_half_even_ge)
  then show ?thesis unfolding round_mag_def using powi_pos
    by (intro mult_right_mono) (simp_all add: order_less_imp_le)
qed

lemma round_mag_ge:
  assumes "dbl_repr b" and "b \<le> q"
  shows "b \<le> round_mag q"
proof -
  have b: "0 < b" using assms(1) by (simp add: dbl_repr_def)
  with assms(2) have q: "0 < q" by linarith
  have le: "ulp_exp b \<le> ulp_exp q" using b assms(2) by (rule ulp_exp_mono)
  show ?thesis
  proof (cases "ulp_exp b = ulp_exp q")
    case True
    then obtain m where "b = of_int m * 2 powi ulp_exp q"
      using assms(1) by (auto simp: dbl_repr_def)
    with assms(2) show ?thesis using round_mag_ge_multiple [of m q] by simp
  next
    case False
    with le have u: "ulp_exp q = bin_exp q - 52" and lt: "bin_exp b + 1 \<le> bin_exp q"
      by (auto simp: ulp_exp_def max_def split: if_splits)
    have "(2::rat) powi bin_exp q = 2 powi (52 + ulp_exp q)" by (simp add: u)
    also have "\<dots> = of_int (2 ^ 52) * 2 powi ulp_exp q" by (simp add: power_int_add)
    finally have e: "(2::rat) powi bin_exp q = of_int (2 ^ 52) * 2 powi ulp_exp q" .
    have "b < 2 powi (bin_exp b + 1)" by (rule bin_exp_bounds(2) [OF b])
    also have "\<dots> \<le> 2 powi bin_exp q" using lt by (simp add: powi_le_iff)
    also have "\<dots> \<le> round_mag q"
      unfolding e using bin_exp_bounds(1) [OF q] by (intro round_mag_ge_multiple) (simp add: e)
    finally show ?thesis by simp
  qed
qed

lemma rnd_below:
  assumes "0 \<le> q" and "q \<le> b" and "dbl_repr b"
  shows "\<exists>v. rnd q = Fin v \<and> 0 \<le> v \<and> v \<le> b"
proof (cases "q = 0")
  case True
  then show ?thesis using assms by (simp add: rnd_def)
next
  case False
  with assms have q: "0 < q" by simp
  have le: "round_mag q \<le> b" using q assms by (intro round_mag_le)
  have "0 \<le> round_half_even (q / 2 powi ulp_exp q)"
    using q powi_pos [of "ulp_exp q"] by (intro round_half_even_ge) simp
  then have "0 \<le> round_mag q" unfolding round_mag_def using powi_pos [of "ulp_exp q"] by simp
  with le q assms(3) show ?thesis by (simp add: rnd_def dbl_repr_def)
qed

lemma rnd_between:
  assumes "dbl_repr a" and "a \<le> q" and "q \<le> b" and "dbl_repr b"
  shows "\<exists>v. rnd q = Fin v \<and> a \<le> v \<and> v \<le> b"
proof -
  have q: "0 < q" using assms by (simp add: dbl_repr_def)
  have le: "round_mag q \<le> b" using q assms by (intro round_mag_le)
  moreover have "a \<le> round_mag q" using assms by (intro round_mag_ge)
  ultimately show ?thesis using q assms(4) by (simp add: rnd_def dbl_repr_def)
qed

lemma rnd_exact: "dbl_repr b \<Longrightarrow> rnd b = Fin b"
  using rnd_between [of b b b] by auto

lemma repr_scaled_int:
  assumes "0 < n" and "n < 2 ^ 53" and "k < 900"
  shows "dbl_repr (of_int n * 2 ^ k)"
proof -
  define q :: rat where "q = of_int n * 2 ^ k"
  have pos: "0 < q" using assms(1) by (simp add: q_def)
  have "1 \<le> n" using assms(1) by simp
  then have "(1::rat) \<le> of_int n" by (simp only: of_int_1_le_iff)
  then have "1 * 1 \<le> q" unfolding q_def by (intro mult_mono) simp_all
  then have lo: "0 \<le> bin_exp q"
    using bin_exp_bounds(2) [OF pos] powi_less_iff [of 0 "bin_exp q + 1"] by simp
  have n': "of_int n < (2::rat) ^ 53"
    using assms(2) of_int_less_iff [of n "2 ^ 53", where 'a = rat]
    by (simp only: of_int_power of_int_numeral)
  have "q < 2 ^ 53 * 2 ^ k" unfolding q_def using n' by (intro mult_strict_right_mono) simp_all
  also have "\<dots> = 2 powi (53 + int k)" by (simp add: power_int_add)
  finally have lt: "q < 2 powi (53 + int k)" .
  then have "bin_exp q < 53 + int k"
    using bin_exp_bounds(1) [OF pos] by (meson order.strict_trans1 powi_less_iff)
  then have u: "ulp_exp q \<le> int k" by (simp add: ulp_exp_def)
  have "q = of_int n * (2 powi (int k - ulp_exp q) * 2 powi ulp_exp q)"
    by (simp add: q_def flip: power_int_add)
  also have "2 powi (int k - ulp_exp q) = (of_int (2 ^ nat (int k - ulp_exp q)) :: rat)"
    using u by (simp add: power_int_def)
  finally have "q = of_int (n * 2 ^ nat (int k - ulp_exp q)) * 2 powi ulp_exp q"
    by (simp add: mult.assoc)
  moreover have "q < 2 ^ 1024"
  proof -
    have "(2::rat) powi (53 + int k) \<le> 2 powi int 1024"
      using assms(3) by (simp only: powi_le_iff)
    also have "(2::rat) powi int 1024 = 2 ^ 1024" by (rule power_int_of_nat)
    finally show ?thesis using lt by linarith
  qed
  ultimately show ?thesis using pos unfolding dbl_repr_def q_def by blast
qed

lemma repr_int: "0 < n \<Longrightarrow> n < 2 ^ 53 \<Longrightarrow> dbl_repr (of_int n)"
  using repr_scaled_int [of n 0] by simp

text \<open>Integers below \<open>2 ^ 53\<close> convert and add exactly.\<close>

lemma dbl_of_int_exact: "0 \<le> n \<Longrightarrow> n < 2 ^ 53 \<Longrightarrow> dbl_of_int n = Fin (of_int n)"
proof (cases "n = 0")
  case True
  then show ?thesis by (simp add: dbl_of_int_def rnd_def)
next
  case False
  assume "0 \<le> n" "n < 2 ^ 53"
  with False show ?thesis by (simp add: dbl_of_int_def rnd_exact repr_int)
qed

lemma dbl_add_exact:
  "0 \<le> m \<Longrightarrow> 0 \<le> n \<Longrightarrow> m + n < 2 ^ 53 \<Longrightarrow>
     Fin (of_int m) + Fin (of_int n) = Fin (of_int (m + n))"
  using dbl_of_int_exact [of "m + n"] by (simp add: plus_dbl_def dbl_of_int_def)

section \<open>Weighted means stay between their bounds\<close>

definition dbl_repr0 :: "rat \<Rightarrow> bool" where
  "dbl_repr0 b \<longleftrightarrow> b = 0 \<or> dbl_repr b"

lemma rnd_between0:
  assumes "dbl_repr0 a" and "a \<le> q" and "q \<le> b" and "dbl_repr0 b" and "0 \<le> a"
  shows "\<exists>v. rnd q = Fin v \<and> a \<le> v \<and> v \<le> b"
proof (cases "b = 0")
  case True
  with assms show ?thesis by (simp add: rnd_def)
next
  case False
  with assms(4) have b: "dbl_repr b" by (simp add: dbl_repr0_def)
  show ?thesis
  proof (cases "a = 0")
    case True
    with assms(2) rnd_below [OF _ assms(3) b] show ?thesis by simp
  next
    case False
    with assms(1) rnd_between [OF _ assms(2,3) b] show ?thesis by (simp add: dbl_repr0_def)
  qed
qed

text \<open>Every integer multiple of the bound, up to \<open>n\<close>, is a \<open>double\<close>.\<close>

definition scalable :: "int \<Rightarrow> rat \<Rightarrow> bool" where
  "scalable n a \<longleftrightarrow> (\<forall>k. 0 \<le> k \<longrightarrow> k \<le> n \<longrightarrow> dbl_repr0 (a * of_int k))"

lemma scalableD: "scalable n a \<Longrightarrow> 0 \<le> k \<Longrightarrow> k \<le> n \<Longrightarrow> dbl_repr0 (a * of_int k)"
  by (simp add: scalable_def)

lemma scalable_self: "scalable n a \<Longrightarrow> 1 \<le> n \<Longrightarrow> dbl_repr0 a"
  using scalableD [of n a 1] by simp

lemma scalable_int_pow:
  assumes "0 \<le> a" and "a < 2 ^ 8" and "n < 2 ^ 45" and "e < 900"
  shows "scalable n (of_int a * 2 ^ e)"
  unfolding scalable_def
proof (intro allI impI)
  fix k assume k: "0 \<le> k" "k \<le> n"
  show "dbl_repr0 (of_int a * 2 ^ e * of_int k)"
  proof (cases "a * k = 0")
    case True
    then show ?thesis by (auto simp: dbl_repr0_def)
  next
    case False
    with assms k have "0 < a * k" by (simp add: zero_less_mult_iff)
    have "a * k \<le> (2 ^ 8 - 1) * k" using assms k by (intro mult_right_mono) simp_all
    also have "\<dots> < 2 ^ 53" using assms(3) k by simp
    finally have "a * k < 2 ^ 53" .
    with \<open>0 < a * k\<close> have "dbl_repr (of_int (a * k) * 2 ^ e)"
      using assms(4) by (intro repr_scaled_int)
    then show ?thesis by (simp add: dbl_repr0_def algebra_simps)
  qed
qed

lemma scaled_product:
  assumes "scalable n a" "scalable n b" "0 \<le> a" "a \<le> m" "m \<le> b" "0 \<le> t" "t \<le> n"
  shows "\<exists>w. Fin m * Fin (of_int t) = Fin w \<and> a * of_int t \<le> w \<and> w \<le> b * of_int t"
  using assms unfolding times_dbl_def
  by (auto intro!: rnd_between0 scalableD mult_right_mono)

lemma mean_step:
  assumes s: "scalable n a" "scalable n b" and n: "n < 2 ^ 53"
    and m: "0 \<le> a" "a \<le> m" "m \<le> b"
    and tu: "0 < t" "0 < u" "t + u \<le> n"
    and w: "a * of_int u \<le> w" "w \<le> b * of_int u"
  shows "\<exists>m'. (Fin m * Fin (of_int t) + Fin w) / (Fin (of_int t) + Fin (of_int u)) = Fin m' \<and>
    a \<le> m' \<and> m' \<le> b"
proof -
  obtain p where p: "Fin m * Fin (of_int t) = Fin p" "a * of_int t \<le> p" "p \<le> b * of_int t"
    using scaled_product [OF s m, of t] tu by auto
  have "a * of_int (t + u) \<le> p + w" "p + w \<le> b * of_int (t + u)"
    using p w by (simp_all add: algebra_simps)
  moreover have "dbl_repr0 (a * of_int (t + u))" "dbl_repr0 (b * of_int (t + u))"
    using s tu by (intro scalableD, simp_all del: of_int_add)+
  moreover have "0 \<le> a * of_int (t + u)" using m tu by simp
  ultimately obtain q where q: "rnd (p + w) = Fin q"
    "a * of_int (t + u) \<le> q" "q \<le> b * of_int (t + u)" using rnd_between0 by blast
  have pos: "(0::rat) < of_int (t + u)" using tu by simp
  have "a \<le> q / of_int (t + u)" "q / of_int (t + u) \<le> b"
    using q pos by (simp_all add: pos_le_divide_eq pos_divide_le_eq)
  then obtain m' where m': "rnd (q / of_int (t + u)) = Fin m'" "a \<le> m'" "m' \<le> b"
    using rnd_between0 scalable_self s tu m(1) by (metis add_pos_pos order.trans zless_imp_add1_zle add_0)
  have "Fin (of_int t) + Fin (of_int u) = Fin (of_int (t + u))"
    using tu n by (intro dbl_add_exact) simp_all
  moreover have "Fin p + Fin w = Fin q" using q by (simp add: plus_dbl_def)
  moreover have "Fin q / Fin (of_int (t + u)) = Fin m'"
    using pos m' by (simp add: divide_dbl_def del: of_int_add)
  ultimately show ?thesis using p m' by simp
qed

end
