(* ===== verification/Clustering.thy ===== *)
theory Clustering
  imports Binary64 "HOL-Library.Multiset"
begin

text \<open>
  The clustering algorithm of src/server/ClusteringManager.cpp: packets, clusters with
  their running centroid and bounding box, the list of open clusters with swap-and-pop
  removal, and the two inner loops of \<open>handlePackets\<close> (absorbing a click, and closing
  the clusters that are too old).  Centroids are \<open>double\<close>s of theory Binary64; a centroid
  that is not a number makes \<open>toRawValue\<close> undefined (\<open>Inl Bad_Cast\<close>).
\<close>

section \<open>Packets\<close>

record packet =
  raw_value :: u64

definition packet_x :: "packet \<Rightarrow> int" where
  "packet_x p = uint (drop_bit 56 (raw_value p) AND 0xFF)"

definition packet_y :: "packet \<Rightarrow> int" where
  "packet_y p = uint (drop_bit 48 (raw_value p) AND 0xFF)"

definition packet_t :: "packet \<Rightarrow> int" where
  "packet_t p = uint (raw_value p AND 0x3FFFFFFFFF)"

definition packet_tot :: "packet \<Rightarrow> int" where
  "packet_tot p = uint (drop_bit 38 (raw_value p) AND 0x3FF)"

section \<open>Settings\<close>

record cluster_settings =
  xy_sep :: int
  t_sep :: int
  max_t_separation :: u64

definition default_settings :: cluster_settings where
  "default_settings = \<lparr>xy_sep = 5, t_sep = 20, max_t_separation = 50000\<rparr>"

section \<open>Clusters\<close>

record cluster =
  xmean :: dbl
  ymean :: dbl
  tmean :: dbl
  tot_total :: dbl
  xmin :: int
  xmax :: int
  ymin :: int
  ymax :: int
  tmin :: int
  tmax :: int

definition new_cluster :: "cluster_settings \<Rightarrow> packet \<Rightarrow> cluster" where
  "new_cluster st p =
     \<lparr>xmean = dbl_of_int (packet_x p),
      ymean = dbl_of_int (packet_y p),
      tmean = dbl_of_int (packet_t p),
      tot_total = dbl_of_int (packet_tot p),
      xmin = i32 (packet_x p - xy_sep st),
      xmax = i32 (packet_x p + xy_sep st),
      ymin = i32 (packet_y p - xy_sep st),
      ymax = i32 (packet_y p + xy_sep st),
      tmin = packet_t p - t_sep st,
      tmax = packet_t p + t_sep st\<rparr>"

definition add_click :: "cluster_settings \<Rightarrow> cluster \<Rightarrow> packet \<Rightarrow> cluster" where
  "add_click st c p =
     (let tt = tot_total c; tot = packet_tot p
      in \<lparr>xmean = (xmean c * tt + dbl_of_int (packet_x p * tot)) / (tt + dbl_of_int tot),
          ymean = (ymean c * tt + dbl_of_int (packet_y p * tot)) / (tt + dbl_of_int tot),
          tmean = (tmean c * tt + dbl_of_int (packet_t p * tot)) / (tt + dbl_of_int tot),
          tot_total = tt + dbl_of_int tot,
          xmin = min (xmin c) (i32 (packet_x p - xy_sep st)),
          xmax = max (xmax c) (i32 (packet_x p + xy_sep st)),
          ymin = min (ymin c) (i32 (packet_y p - xy_sep st)),
          ymax = max (ymax c) (i32 (packet_y p + xy_sep st)),
          tmin = min (tmin c) (packet_t p - t_sep st),
          tmax = max (tmax c) (packet_t p + t_sep st)\<rparr>)"

definition add_cluster :: "cluster \<Rightarrow> cluster \<Rightarrow> cluster" where
  "add_cluster a c =
     (let ta = tot_total a; tc = tot_total c
      in \<lparr>xmean = (xmean a * ta + xmean c * tc) / (ta + tc),
          ymean = (ymean a * ta + ymean c * tc) / (ta + tc),
          tmean = (tmean a * ta + tmean c * tc) / (ta + tc),
          tot_total = ta + tc,
          xmin = min (xmin a) (xmin c),
          xmax = max (xmax a) (xmax c),
          ymin = min (ymin a) (ymin c),
          ymax = max (ymax a) (ymax c),
          tmin = min (tmin a) (tmin c),
          tmax = max (tmax a) (tmax c)\<rparr>)"

definition to_raw_value :: "cluster \<Rightarrow> u64 result" where
  "to_raw_value c =
     and_then (dbl_to_u64 (xmean c)) (\<lambda>x.
     and_then (dbl_to_u64 (ymean c)) (\<lambda>y.
     and_then (dbl_to_u64 (tmean c)) (\<lambda>t.
       Inr (push_bit 56 (x AND 0xFF) OR push_bit 48 (y AND 0xFF) OR (t AND 0x3FFFFFFFFF)))))"

definition contains_click :: "cluster \<Rightarrow> packet \<Rightarrow> bool" where
  "contains_click c p \<longleftrightarrow>
     xmin c \<le> packet_x p \<and> packet_x p \<le> xmax c \<and>
     ymin c \<le> packet_y p \<and> packet_y p \<le> ymax c \<and>
     tmin c \<le> packet_t p \<and> packet_t p \<le> tmax c"

section \<open>The list of open clusters\<close>

text \<open>\<open>ClusterList::remove\<close>: swap with the last element and pop it.\<close>

definition remove_at :: "nat \<Rightarrow> 'a list \<Rightarrow> 'a list" where
  "remove_at ix xs =
     (if 1 < length xs then butlast (xs[ix := last xs, length xs - 1 := xs ! ix]) else [])"

section \<open>The inner loops of handlePackets\<close>

text \<open>
  The forward loop.  \<open>lc\<close> is the index behind the pointer \<open>last_cluster\<close>, \<open>None\<close> while
  \<open>in_cluster\<close> is false.  After a merge the element swapped into position \<open>cix\<close> is passed
  over by the \<open>++cix\<close> of the loop.
\<close>

function absorb ::
  "cluster_settings \<Rightarrow> packet \<Rightarrow> nat \<Rightarrow> nat option \<Rightarrow> cluster list \<Rightarrow> cluster list \<times> bool" where
  "absorb st p cix lc cs =
     (if cix < length cs then
        if contains_click (cs ! cix) p then
          let cs1 = cs[cix := add_click st (cs ! cix) p]
          in case lc of
               None \<Rightarrow> absorb st p (Suc cix) (Some cix) cs1
             | Some j \<Rightarrow> absorb st p (Suc cix) lc
                 (remove_at cix (cs1[j := add_cluster (cs1 ! j) (cs1 ! cix)]))
        else absorb st p (Suc cix) lc cs
      else (cs, lc \<noteq> None))"
  by pat_completeness auto

lemma length_remove_at: "length (remove_at ix xs) = length xs - 1"
  by (simp add: remove_at_def)

termination absorb
  by (relation "measure (\<lambda>(st, p, cix, lc, cs). length cs - cix)") (auto simp: length_remove_at)

declare absorb.simps [simp del]

text \<open>
  \<open>click.t() > cluster.tmax + max_t_separation\<close>: the sum and the comparison are unsigned,
  since \<open>max_t_separation\<close> is a \<open>size_t\<close>.
\<close>

definition expired :: "cluster_settings \<Rightarrow> packet \<Rightarrow> cluster \<Rightarrow> bool" where
  "expired st p c \<longleftrightarrow>
     (word_of_int (tmax c) :: u64) + max_t_separation st < word_of_int (packet_t p)"

text \<open>The reverse loop; the first argument counts the indices still to visit.\<close>

fun expire ::
  "nat \<Rightarrow> cluster_settings \<Rightarrow> packet \<Rightarrow> cluster list \<Rightarrow> u64 list \<Rightarrow> (cluster list \<times> u64 list) result"
where
  "expire 0 st p cs out = Inr (cs, out)"
| "expire (Suc n) st p cs out =
     (if expired st p (cs ! n)
      then and_then (to_raw_value (cs ! n)) (\<lambda>v. expire n st p (remove_at n cs) (out @ [v]))
      else expire n st p cs out)"

text \<open>One iteration of the outer loop, and the loop over the packets of a message.\<close>

definition process_click ::
  "cluster_settings \<Rightarrow> cluster list \<times> u64 list \<Rightarrow> packet \<Rightarrow> (cluster list \<times> u64 list) result" where
  "process_click st s p =
     (let (cs, in_cluster) = absorb st p 0 None (fst s);
          cs' = (if in_cluster then cs else cs @ [new_cluster st p])
      in expire (length cs') st p cs' (snd s))"

fun process_clicks ::
  "cluster_settings \<Rightarrow> cluster list \<times> u64 list \<Rightarrow> packet list \<Rightarrow> (cluster list \<times> u64 list) result"
where
  "process_clicks st s [] = Inr s"
| "process_clicks st s (p # ps) = and_then (process_click st s p) (\<lambda>s'. process_clicks st s' ps)"

section \<open>Swap-and-pop removal\<close>

lemma remove_at_last_or_swap:
  assumes "ix < length xs"
  shows "remove_at ix xs =
    (if ix = length xs - 1 then butlast xs else (butlast xs)[ix := last xs])"
proof -
  from assms obtain ys z where xs: "xs = ys @ [z]" by (cases xs rule: rev_cases) auto
  show ?thesis
  proof (cases "ys = []")
    case True
    with xs assms show ?thesis by (simp add: remove_at_def)
  next
    case False
    then have len: "1 < length xs" using xs by (cases ys) simp_all
    from xs assms have "ix = length ys \<or> ix < length ys" by auto
    then show ?thesis
      using xs len by (auto simp: remove_at_def list_update_append nth_append butlast_append)
  qed
qed

lemma mset_remove_at:
  assumes "ix < length xs"
  shows "mset (remove_at ix xs) = mset xs - {#xs ! ix#}"
proof -
  from assms obtain ys z where xs: "xs = ys @ [z]" by (cases xs rule: rev_cases) auto
  show ?thesis
  proof (cases "ix = length ys")
    case True
    with xs assms show ?thesis by (simp add: remove_at_last_or_swap)
  next
    case False
    with xs assms have ix: "ix < length ys" by simp
    then have "ys ! ix \<in># mset ys" by simp
    with xs ix False show ?thesis
      by (simp add: remove_at_last_or_swap mset_update nth_append)
  qed
qed

lemma set_remove_at_subset: "ix < length xs \<Longrightarrow> set (remove_at ix xs) \<subseteq> set xs"
  by (metis mset_remove_at set_mset_mset set_mset_mono diff_subset_eq_self)

lemma take_remove_at: "ix < length xs \<Longrightarrow> take ix (remove_at ix xs) = take ix xs"
  by (auto simp: remove_at_last_or_swap take_butlast butlast_conv_take)

lemma nth_remove_at_below: "ix < length xs \<Longrightarrow> i < ix \<Longrightarrow> remove_at ix xs ! i = xs ! i"
  by (simp add: remove_at_last_or_swap nth_butlast)

section \<open>Closing old clusters\<close>

lemma mset_drop_remove_at:
  assumes "n < length xs"
  shows "mset (drop n (remove_at n xs)) = mset (drop (Suc n) xs)"
proof -
  have "mset (take n xs) + mset (drop n (remove_at n xs)) = mset (remove_at n xs)"
    using take_remove_at [OF assms] by (metis append_take_drop_id mset_append)
  also have "\<dots> = mset (take n xs @ xs ! n # drop (Suc n) xs) - {#xs ! n#}"
    using assms by (simp only: mset_remove_at id_take_nth_drop [OF assms, symmetric])
  finally show ?thesis by simp
qed

lemma expire_spec:
  assumes "expire n st p cs out = Inr (cs', out')" and "n \<le> length cs"
  shows "mset cs' = mset (filter (\<lambda>c. \<not> expired st p c) (take n cs)) + mset (drop n cs) \<and>
    (\<exists>vs. map_result to_raw_value (rev (filter (expired st p) (take n cs))) = Inr vs \<and> out' = out @ vs)"
  using assms
proof (induction n arbitrary: cs out)
  case 0
  then show ?case by simp
next
  case (Suc n)
  then have n: "n < length cs" by simp
  then have take: "take (Suc n) cs = take n cs @ [cs ! n]" by (rule take_Suc_conv_app_nth)
  show ?case
  proof (cases "expired st p (cs ! n)")
    case True
    with Suc.prems obtain v where v: "to_raw_value (cs ! n) = Inr v"
      and rest: "expire n st p (remove_at n cs) (out @ [v]) = Inr (cs', out')"
      by (auto simp: and_then_eq_Inr)
    from n have "n \<le> length (remove_at n cs)" by (simp add: length_remove_at)
    from Suc.IH [OF rest this] n show ?thesis
      by (auto simp: take_remove_at mset_drop_remove_at take True v)
  next
    case False
    with Suc.prems have rest: "expire n st p cs out = Inr (cs', out')" by simp
    from n have "mset (drop n cs) = add_mset (cs ! n) (mset (drop (Suc n) cs))"
      by (simp flip: Cons_nth_drop_Suc)
    with Suc.IH [OF rest] n show ?thesis by (simp add: take False)
  qed
qed

lemma expire_total:
  assumes "list_all (\<lambda>c. \<exists>v. to_raw_value c = Inr v) cs" and "n \<le> length cs"
  shows "\<exists>cs' out'. expire n st p cs out = Inr (cs', out')"
  using assms
proof (induction n arbitrary: cs out)
  case 0
  then show ?case by simp
next
  case (Suc n)
  then have n: "n < length cs" by simp
  with Suc.prems(1) obtain v where v: "to_raw_value (cs ! n) = Inr v"
    by (auto simp: list_all_length)
  have "list_all (\<lambda>c. \<exists>v. to_raw_value c = Inr v) (remove_at n cs)"
    using Suc.prems(1) set_remove_at_subset [OF n] by (auto simp: list_all_iff)
  then show ?case
    using Suc.IH [of "remove_at n cs" "out @ [v]"] Suc.IH [of cs out] Suc.prems n v
    by (simp add: length_remove_at)
qed

section \<open>Absorbing a click\<close>

text \<open>The pointer \<open>last_cluster\<close> always refers to an earlier cluster that holds the click.\<close>

definition last_ok :: "packet \<Rightarrow> nat \<Rightarrow> nat option \<Rightarrow> cluster list \<Rightarrow> bool" where
  "last_ok p cix lc cs \<longleftrightarrow>
     (case lc of None \<Rightarrow> True | Some j \<Rightarrow> j < cix \<and> j < length cs \<and> contains_click (cs ! j) p)"

lemma contains_add_click: "contains_click c q \<Longrightarrow> contains_click (add_click st c p) q"
  by (auto simp: contains_click_def add_click_def Let_def)

lemma contains_add_cluster: "contains_click a q \<Longrightarrow> contains_click (add_cluster a c) q"
  by (auto simp: contains_click_def add_cluster_def Let_def)

text \<open>
  Induction principle of the loop: an invariant \<open>I\<close>, with a count of the clicks added so
  far, that adding the click to a cluster and merging a later cluster into an earlier one
  preserve, holds of the result.
\<close>

lemma absorb_invariant:
  assumes skip: "\<And>n cs. I n cs \<Longrightarrow> I (Suc n) cs"
    and click: "\<And>n cs i. I n cs \<Longrightarrow> i < length cs \<Longrightarrow> contains_click (cs ! i) p \<Longrightarrow>
      I (Suc n) (cs[i := add_click st (cs ! i) p])"
    and merge: "\<And>n cs i j. I n cs \<Longrightarrow> j < i \<Longrightarrow> i < length cs \<Longrightarrow>
      contains_click (cs ! i) p \<Longrightarrow> contains_click (cs ! j) p \<Longrightarrow>
      I n (remove_at i (cs[j := add_cluster (cs ! j) (cs ! i)]))"
  shows "I n cs \<Longrightarrow> last_ok p cix lc cs \<Longrightarrow>
    I (n + (length cs - cix)) (fst (absorb st p cix lc cs))"
proof (induction "length cs - cix" arbitrary: n cix lc cs rule: less_induct)
  case less
  have up: "I m xs \<Longrightarrow> m \<le> k \<Longrightarrow> I k xs" for m k xs
    by (induction k) (auto simp: le_Suc_eq intro: skip)
  note unfold = absorb.simps [of st p cix lc cs]
  consider "length cs \<le> cix" | "cix < length cs" "\<not> contains_click (cs ! cix) p"
    | "cix < length cs" "contains_click (cs ! cix) p" by linarith
  then show ?case
  proof cases
    case 1
    with less.prems up show ?thesis by (simp add: unfold)
  next
    case 2
    have "last_ok p (Suc cix) lc cs"
      using less.prems(2) by (auto simp: last_ok_def split: option.splits)
    from less.hyps [OF _ less.prems(1) this] 2
    have "I (n + (length cs - Suc cix)) (fst (absorb st p (Suc cix) lc cs))" by simp
    with 2 up show ?thesis by (simp add: unfold)
  next
    case 3
    define cs1 where "cs1 = cs[cix := add_click st (cs ! cix) p]"
    have I1: "I (Suc n) cs1" unfolding cs1_def using click less.prems(1) 3 by simp
    have len1: "length cs1 = length cs" by (simp add: cs1_def)
    have c1: "contains_click (cs1 ! cix) p" using 3 by (simp add: cs1_def contains_add_click)
    show ?thesis
    proof (cases lc)
      case None
      have ok: "last_ok p (Suc cix) (Some cix) cs1" using 3 c1 by (simp add: last_ok_def len1)
      have "I (Suc n + (length cs1 - Suc cix)) (fst (absorb st p (Suc cix) (Some cix) cs1))"
        using 3 by (intro less.hyps I1 ok) (simp add: len1)
      with 3 None show ?thesis by (subst unfold) (simp add: len1 Suc_diff_Suc flip: cs1_def)
    next
      case (Some j)
      with less.prems(2) have j: "j < cix" "contains_click (cs1 ! j) p"
        by (auto simp: last_ok_def cs1_def)
      define cs2 where "cs2 = remove_at cix (cs1[j := add_cluster (cs1 ! j) (cs1 ! cix)])"
      have I2: "I (Suc n) cs2" unfolding cs2_def using merge [OF I1 j(1)] 3 c1 j(2) len1 by simp
      have len2: "length cs2 = length cs - 1" by (simp add: cs2_def length_remove_at len1)
      have "cs2 ! j = add_cluster (cs1 ! j) (cs1 ! cix)"
        using 3 j(1) by (simp add: cs2_def nth_remove_at_below len1)
      then have ok: "last_ok p (Suc cix) lc cs2"
        using Some j 3 by (auto simp: last_ok_def len2 contains_add_cluster)
      have "I (Suc n + (length cs2 - Suc cix)) (fst (absorb st p (Suc cix) lc cs2))"
        using 3 by (intro less.hyps I2 ok) (simp add: len2)
      then have "I (n + (length cs - cix)) (fst (absorb st p (Suc cix) lc cs2))"
        by (rule up) (use 3 in \<open>simp add: len2\<close>)
      with 3 Some show ?thesis by (subst unfold) (simp add: cs2_def flip: cs1_def)
    qed
  qed
qed

lemma absorb_none:
  "(\<And>i. cix \<le> i \<Longrightarrow> i < length cs \<Longrightarrow> \<not> contains_click (cs ! i) p) \<Longrightarrow>
     absorb st p cix lc cs = (cs, lc \<noteq> None)"
proof (induction "length cs - cix" arbitrary: cix)
  case 0
  then show ?case by (simp add: absorb.simps)
next
  case (Suc n)
  then have "absorb st p (Suc cix) lc cs = (cs, lc \<noteq> None)" by simp
  with Suc show ?case by (simp add: absorb.simps [of st p cix])
qed

lemma absorb_some_stays: "snd (absorb st p cix (Some j) cs)"
proof (induction "length cs - cix" arbitrary: cix j cs rule: less_induct)
  case less
  then show ?case
    by (subst absorb.simps) (simp add: Let_def length_remove_at)
qed

lemma snd_absorb:
  "snd (absorb st p cix None cs) \<longleftrightarrow> (\<exists>i. cix \<le> i \<and> i < length cs \<and> contains_click (cs ! i) p)"
proof (induction "length cs - cix" arbitrary: cix)
  case 0
  then show ?case by (subst absorb.simps) auto
next
  case (Suc n)
  show ?case
  proof (cases "contains_click (cs ! cix) p")
    case True
    with Suc show ?thesis by (subst absorb.simps) (auto simp: Let_def absorb_some_stays)
  next
    case False
    with Suc have "snd (absorb st p cix None cs) \<longleftrightarrow> snd (absorb st p (Suc cix) None cs)"
      by (subst absorb.simps) auto
    also have "\<dots> \<longleftrightarrow> (\<exists>i. Suc cix \<le> i \<and> i < length cs \<and> contains_click (cs ! i) p)"
      using Suc by simp
    finally show ?thesis using False by (metis Suc_le_eq le_eq_less_or_eq)
  qed
qed

text \<open>Nothing before the first cluster that holds the click is looked at twice.\<close>

lemma absorb_skip:
  "cix \<le> k \<Longrightarrow> k \<le> length cs \<Longrightarrow> (\<And>i. cix \<le> i \<Longrightarrow> i < k \<Longrightarrow> \<not> contains_click (cs ! i) p) \<Longrightarrow>
     absorb st p cix lc cs = absorb st p k lc cs"
proof (induction "k - cix" arbitrary: cix)
  case 0
  then show ?case by simp
next
  case (Suc n)
  then have "absorb st p (Suc cix) lc cs = absorb st p k lc cs" by simp
  moreover from Suc.hyps(2) Suc.prems have "cix < length cs" "\<not> contains_click (cs ! cix) p" by simp_all
  ultimately show ?case by (simp add: absorb.simps [of st p cix])
qed

lemma absorb_first:
  assumes "k < length cs" and "contains_click (cs ! k) p"
    and "\<And>i. cix \<le> i \<Longrightarrow> i < k \<Longrightarrow> \<not> contains_click (cs ! i) p" and "cix \<le> k"
  shows "absorb st p cix None cs = absorb st p (Suc k) (Some k) (cs[k := add_click st (cs ! k) p])"
proof -
  have "absorb st p cix None cs = absorb st p k None cs" using assms by (intro absorb_skip) auto
  with assms(1,2) show ?thesis by (simp add: absorb.simps [of st p k])
qed

lemma absorb_next:
  assumes "k < length cs" and "contains_click (cs ! k) p" and "j < k"
    and "\<And>i. cix \<le> i \<Longrightarrow> i < k \<Longrightarrow> \<not> contains_click (cs ! i) p" and "cix \<le> k"
  shows "absorb st p cix (Some j) cs =
    absorb st p (Suc k) (Some j)
      (remove_at k (cs[k := add_click st (cs ! k) p, j := add_cluster (cs ! j) (add_click st (cs ! k) p)]))"
proof -
  have "absorb st p cix (Some j) cs = absorb st p k (Some j) cs" using assms by (intro absorb_skip) auto
  with assms(1-3) show ?thesis by (simp add: absorb.simps [of st p k])
qed

end
