(* ===== verification/ClusterInvariants.thy ===== *)
theory ClusterInvariants
  imports Clustering
begin

text \<open>
  Invariants of the open clusters: the bounding boxes cover every click, the centroid stays
  inside the box (rounding included), the total weight is an exact integer, and so the
  conversion of a centroid to its 64-bit representation is defined.
\<close>

section \<open>Fields of a packet\<close>

lemma uint_and_mask_bounds:
  fixes w :: u64
  shows "0 \<le> uint (w AND 0xFF)" "uint (w AND 0xFF) \<le> 255"
    and "0 \<le> uint (w AND 0x3FF)" "uint (w AND 0x3FF) \<le> 1023"
    and "0 \<le> uint (w AND 0x3FFFFFFFFF)" "uint (w AND 0x3FFFFFFFFF) < 274877906944"
  using word_and_le1 [of w "0xFF"] word_and_le1 [of w "0x3FF"] word_and_le1 [of w "0x3FFFFFFFFF"]
  by (simp_all add: word_le_def)

lemma packet_bounds [simp]:
  "0 \<le> packet_x p" "packet_x p \<le> 255" "0 \<le> packet_y p" "packet_y p \<le> 255"
  "0 \<le> packet_t p" "packet_t p < 274877906944" "0 \<le> packet_tot p" "packet_tot p \<le> 1023"
  unfolding packet_x_def packet_y_def packet_t_def packet_tot_def
  by (rule uint_and_mask_bounds)+

lemma packet_t_le: "packet_t p \<le> 2 ^ 38"
  by (rule less_imp_le, rule order.strict_trans2 [OF packet_bounds(6)]) simp

lemma packet_t_le_rat: "(of_int (packet_t p) :: rat) \<le> 2 ^ 38"
  using packet_t_le [of p] of_int_le_iff [of "packet_t p" "2 ^ 38", where 'a = rat]
  by (simp only: of_int_power of_int_numeral)

lemma packet_tot_less: "packet_tot p < 2 ^ 53"
  by (rule order.strict_trans1 [OF packet_bounds(8)]) simp

section \<open>Settings for which no 32-bit computation wraps\<close>

definition settings_ok :: "cluster_settings \<Rightarrow> bool" where
  "settings_ok st \<longleftrightarrow>
     0 \<le> xy_sep st \<and> xy_sep st \<le> 2 ^ 30 \<and> 0 \<le> t_sep st \<and> t_sep st < 2 ^ 31 \<and>
     unat (max_t_separation st) < 2 ^ 62"

lemma default_settings_ok: "settings_ok default_settings"
  by (simp add: settings_ok_def default_settings_def)

lemma box_exact:
  assumes "settings_ok st"
  shows "i32 (packet_x p - xy_sep st) = packet_x p - xy_sep st"
    and "i32 (packet_x p + xy_sep st) = packet_x p + xy_sep st"
    and "i32 (packet_y p - xy_sep st) = packet_y p - xy_sep st"
    and "i32 (packet_y p + xy_sep st) = packet_y p + xy_sep st"
proof -
  have s: "0 \<le> xy_sep st" "xy_sep st \<le> 2 ^ 30" using assms by (simp_all add: settings_ok_def)
  have "i32 (v - xy_sep st) = v - xy_sep st \<and> i32 (v + xy_sep st) = v + xy_sep st"
    if "0 \<le> v" "v \<le> 255" for v
    using that s by (auto intro!: i32_id simp: in_i32_def)
  then show "i32 (packet_x p - xy_sep st) = packet_x p - xy_sep st"
    and "i32 (packet_x p + xy_sep st) = packet_x p + xy_sep st"
    and "i32 (packet_y p - xy_sep st) = packet_y p - xy_sep st"
    and "i32 (packet_y p + xy_sep st) = packet_y p + xy_sep st" by simp_all
qed

section \<open>Coverage\<close>

text \<open>\<open>d\<close>'s box contains \<open>c\<close>'s.\<close>

definition box_le :: "cluster \<Rightarrow> cluster \<Rightarrow> bool" where
  "box_le c d \<longleftrightarrow> xmin d \<le> xmin c \<and> xmax c \<le> xmax d \<and> ymin d \<le> ymin c \<and> ymax c \<le> ymax d \<and>
     tmin d \<le> tmin c \<and> tmax c \<le> tmax d"

lemma box_le_refl [simp]: "box_le c c"
  by (simp add: box_le_def)

lemma box_le_trans: "box_le a b \<Longrightarrow> box_le b c \<Longrightarrow> box_le a c"
  by (auto simp: box_le_def)

lemma box_le_contains: "box_le c d \<Longrightarrow> contains_click c p \<Longrightarrow> contains_click d p"
  by (auto simp: box_le_def contains_click_def)

lemma box_le_add_click: "box_le c (add_click st c p)"
  by (simp add: box_le_def add_click_def Let_def)

lemma box_le_add_cluster: "box_le a (add_cluster a c)" "box_le c (add_cluster a c)"
  by (simp_all add: box_le_def add_cluster_def Let_def)

definition covers :: "cluster list \<Rightarrow> cluster list \<Rightarrow> bool" where
  "covers ds cs \<longleftrightarrow> (\<forall>c \<in> set cs. \<exists>d \<in> set ds. box_le c d)"

lemma covers_refl: "covers cs cs"
  unfolding covers_def by (meson box_le_refl)

lemma covers_trans: "covers ds cs \<Longrightarrow> covers es ds \<Longrightarrow> covers es cs"
  unfolding covers_def by (meson box_le_trans)

lemma covers_update: "i < length cs \<Longrightarrow> box_le (cs ! i) d \<Longrightarrow> covers (cs[i := d]) cs"
proof -
  assume a: "i < length cs" "box_le (cs ! i) d"
  show ?thesis
    unfolding covers_def
  proof
    fix c assume "c \<in> set cs"
    then obtain k where k: "k < length cs" "c = cs ! k" by (auto simp: in_set_conv_nth)
    with a have "box_le c (cs[i := d] ! k)" by (cases "k = i") simp_all
    moreover have "cs[i := d] ! k \<in> set (cs[i := d])" using k by simp
    ultimately show "\<exists>e \<in> set (cs[i := d]). box_le c e" by blast
  qed
qed

lemma in_remove_at:
  assumes "i < length xs" and "x \<in> set xs" and "x \<noteq> xs ! i"
  shows "x \<in> set (remove_at i xs)"
proof -
  have "x \<in># mset xs - {#xs ! i#}" using assms(2,3) by (simp add: in_diff_count)
  then have "x \<in># mset (remove_at i xs)" by (simp only: mset_remove_at [OF assms(1)])
  then show ?thesis by simp
qed

lemma covers_merge:
  assumes "j < i" and "i < length cs"
  shows "covers (remove_at i (cs[j := add_cluster (cs ! j) (cs ! i)])) cs"
  unfolding covers_def
proof
  fix c assume "c \<in> set cs"
  then obtain k where k: "k < length cs" "c = cs ! k" by (auto simp: in_set_conv_nth)
  let ?cs = "cs[j := add_cluster (cs ! j) (cs ! i)]"
  have "remove_at i ?cs ! j = ?cs ! j" using assms by (intro nth_remove_at_below) simp_all
  moreover have "j < length (remove_at i ?cs)" using assms by (simp add: length_remove_at)
  ultimately have m: "add_cluster (cs ! j) (cs ! i) \<in> set (remove_at i ?cs)"
    using assms by (metis nth_mem nth_list_update_eq order.strict_trans)
  show "\<exists>d \<in> set (remove_at i ?cs). box_le c d"
  proof (cases "k = i \<or> k = j \<or> c = ?cs ! i")
    case True
    with k assms m show ?thesis by (auto intro: box_le_add_cluster)
  next
    case False
    with k have "c \<in> set ?cs" by (metis length_list_update nth_list_update_neq nth_mem)
    with False assms have "c \<in> set (remove_at i ?cs)" by (intro in_remove_at) simp_all
    then show ?thesis by (meson box_le_refl)
  qed
qed

lemma absorb_covers: "covers (fst (absorb st p 0 None cs)) cs"
proof -
  have "covers (fst (absorb st p 0 None cs)) cs"
    if "(\<lambda>_ ds. covers ds cs) (0::nat) cs"
  proof (rule absorb_invariant [where I = "\<lambda>_ ds. covers ds cs" and n = 0, OF _ _ _ that])
    show "last_ok p 0 None cs" by (simp add: last_ok_def)
  qed (auto intro: covers_trans covers_update covers_merge box_le_add_click)
  then show ?thesis by (simp add: covers_refl)
qed

text \<open>Clusters that do not hold the click are neither changed nor lost.\<close>

lemma absorb_frame:
  "filter_mset (\<lambda>c. \<not> contains_click c p) (mset cs) \<subseteq># mset (fst (absorb st p 0 None cs))"
proof -
  let ?U = "filter_mset (\<lambda>c. \<not> contains_click c p) (mset cs)"
  have drop: "?U \<subseteq># mset ds - {#d#}" if "?U \<subseteq># mset ds" "contains_click d p" for ds d
  proof -
    have "count ?U d = 0" using that(2) by simp
    show ?thesis
    proof (rule mset_subset_eqI)
      fix a
      have "count ?U a \<le> count (mset ds) a" using that(1) by (rule mset_subset_eq_count)
      with \<open>count ?U d = 0\<close> show "count ?U a \<le> count (mset ds - {#d#}) a"
        by (cases "a = d") simp_all
    qed
  qed
  have upd: "?U \<subseteq># mset (ds[i := d])" if "?U \<subseteq># mset ds" "i < length ds" "contains_click (ds ! i) p" for ds i d
    using drop [OF that(1,3)] that(2) by (simp add: mset_update subset_mset.order_trans)
  have "(\<lambda>_ ds. ?U \<subseteq># mset ds) (0 + (length cs - 0)) (fst (absorb st p 0 None cs))"
  proof (rule absorb_invariant)
    show "last_ok p 0 None cs" by (simp add: last_ok_def)
    show "?U \<subseteq># mset cs" by simp
  next
    fix n :: nat and ds i j
    assume a: "?U \<subseteq># mset ds" "j < i" "i < length ds" "contains_click (ds ! i) p"
      "contains_click (ds ! j) p"
    then have "?U \<subseteq># mset (ds[j := add_cluster (ds ! j) (ds ! i)])" by (intro upd) simp_all
    from drop [OF this a(4)] a
    show "?U \<subseteq># mset (remove_at i (ds[j := add_cluster (ds ! j) (ds ! i)]))"
      by (simp add: mset_remove_at)
  qed (auto intro: upd)
  then show ?thesis by simp
qed

section \<open>Centroids\<close>

text \<open>
  A cluster is sound when its weight is a positive integer and its centroid is a number
  inside its bounding box (clipped to the sensor), with a time of at most \<open>2 ^ 38\<close>.
\<close>

definition between :: "rat \<Rightarrow> rat \<Rightarrow> dbl \<Rightarrow> bool" where
  "between a b d \<longleftrightarrow> (case d of Fin m \<Rightarrow> a \<le> m \<and> m \<le> b | _ \<Rightarrow> False)"

definition low :: "int \<Rightarrow> rat" where
  "low v = of_int (max 0 v)"

definition high :: "int \<Rightarrow> rat" where
  "high v = of_int (min 255 v)"

definition weight :: "cluster \<Rightarrow> int" where
  "weight c = (case tot_total c of Fin q \<Rightarrow> \<lfloor>q\<rfloor> | _ \<Rightarrow> 0)"

definition sound :: "cluster \<Rightarrow> bool" where
  "sound c \<longleftrightarrow> tot_total c = Fin (of_int (weight c)) \<and> 0 < weight c \<and>
     between (low (xmin c)) (high (xmax c)) (xmean c) \<and>
     between (low (ymin c)) (high (ymax c)) (ymean c) \<and>
     between 0 (2 ^ 38) (tmean c)"

definition total_weight :: "cluster list \<Rightarrow> int" where
  "total_weight cs = sum_list (map weight cs)"

text \<open>The largest total weight for which every sum is exact.\<close>

definition weight_limit :: int where
  "weight_limit = 2 ^ 45 - 1"

lemma betweenE:
  assumes "between a b d"
  obtains m where "d = Fin m" "a \<le> m" "m \<le> b"
  using assms by (cases d) (auto simp: between_def)

lemma between_mono: "between a b d \<Longrightarrow> a' \<le> a \<Longrightarrow> b \<le> b' \<Longrightarrow> between a' b' d"
  by (auto simp: between_def split: dbl.splits)

lemma weight_Fin: "tot_total c = Fin (of_int t) \<Longrightarrow> weight c = t"
  by (simp add: weight_def)

lemma scalable_nat:
  assumes "0 \<le> a" "a \<le> 255"
  shows "scalable weight_limit (of_int a)"
  using scalable_int_pow [of a weight_limit 0] assms by (simp add: weight_limit_def)

lemma scalable_low: "v \<le> 255 \<Longrightarrow> scalable weight_limit (low v)"
  unfolding low_def by (intro scalable_nat) simp_all

lemma scalable_high: "0 \<le> v \<Longrightarrow> scalable weight_limit (high v)"
  unfolding high_def by (intro scalable_nat) simp_all

lemma scalable_time: "scalable weight_limit 0" "scalable weight_limit (2 ^ 38)"
  using scalable_nat [of 0] scalable_int_pow [of 1 weight_limit 38]
  by (simp_all add: weight_limit_def)

lemma between_low_high:
  "between (low u) (high v) d \<Longrightarrow> u \<le> 255 \<and> 0 \<le> v \<and> u \<le> v"
proof (erule betweenE)
  fix m assume "low u \<le> m" "m \<le> high v"
  then have "low u \<le> high v" by linarith
  then have "max 0 u \<le> min 255 v" by (simp only: low_def high_def of_int_le_iff)
  then show ?thesis by simp
qed

lemma low_min: "low (min u v) \<le> low u" "low (min u v) \<le> low v"
  unfolding low_def of_int_le_iff by (simp_all add: max_def min_def)

lemma high_max: "high u \<le> high (max u v)" "high v \<le> high (max u v)"
  unfolding high_def of_int_le_iff by (simp_all add: max_def min_def)

text \<open>Folding a click of weight \<open>u\<close> at \<open>v\<close> into a mean, and folding two means.\<close>

lemma mean_click:
  assumes "scalable weight_limit a" "scalable weight_limit b" "0 \<le> a" "between a b d"
    and "0 < t" "0 < u" "t + u \<le> weight_limit"
    and "a \<le> of_int v" "of_int v \<le> b" "0 \<le> v" "v * u < 2 ^ 53"
  shows "between a b ((d * Fin (of_int t) + dbl_of_int (v * u)) / (Fin (of_int t) + dbl_of_int u))"
proof -
  from assms(4) obtain m where d: "d = Fin m" "a \<le> m" "m \<le> b" by (rule betweenE)
  have w: "dbl_of_int (v * u) = Fin (of_int v * of_int u)"
    using assms dbl_of_int_exact [of "v * u"] by simp
  have u: "dbl_of_int u = Fin (of_int u)"
    using assms by (intro dbl_of_int_exact) (simp_all add: weight_limit_def)
  have "\<exists>m'. (Fin m * Fin (of_int t) + Fin (of_int v * of_int u)) /
      (Fin (of_int t) + Fin (of_int u)) = Fin m' \<and> a \<le> m' \<and> m' \<le> b"
    using assms d by (intro mean_step [where n = weight_limit])
      (simp_all add: weight_limit_def mult_right_mono)
  then show ?thesis by (auto simp: d w u between_def)
qed

lemma mean_merge:
  assumes "scalable weight_limit a" "scalable weight_limit b" "0 \<le> a"
    and "between a b d" "between a b e" "0 < t" "0 < u" "t + u \<le> weight_limit"
  shows "between a b ((d * Fin (of_int t) + e * Fin (of_int u)) / (Fin (of_int t) + Fin (of_int u)))"
proof -
  from assms(4) obtain m where d: "d = Fin m" "a \<le> m" "m \<le> b" by (rule betweenE)
  from assms(5) obtain k where e: "e = Fin k" "a \<le> k" "k \<le> b" by (rule betweenE)
  obtain w where w: "Fin k * Fin (of_int u) = Fin w" "a * of_int u \<le> w" "w \<le> b * of_int u"
    using scaled_product [OF assms(1-3) e(2,3), of u] assms by auto
  have "\<exists>m'. (Fin m * Fin (of_int t) + Fin w) / (Fin (of_int t) + Fin (of_int u)) = Fin m' \<and>
      a \<le> m' \<and> m' \<le> b"
    using assms d w by (intro mean_step [where n = weight_limit]) (simp_all add: weight_limit_def)
  then show ?thesis by (auto simp: d e w(1) between_def)
qed

lemma low_nonneg [simp]: "0 \<le> low v"
  by (simp add: low_def)

lemma low_high_of:
  "0 \<le> v \<Longrightarrow> v \<le> 255 \<Longrightarrow> u \<le> v \<Longrightarrow> v \<le> w \<Longrightarrow> low u \<le> of_int v \<and> of_int v \<le> high w"
  unfolding low_def high_def of_int_le_iff by simp

lemma coordinate_weight: "v \<le> 255 \<Longrightarrow> v * packet_tot p < 2 ^ 53"
proof -
  assume "v \<le> 255"
  then have "v * packet_tot p \<le> 255 * 1023" by (intro mult_mono) simp_all
  then show ?thesis by simp
qed

lemma time_weight: "packet_t p * packet_tot p < 2 ^ 53"
proof -
  have "packet_t p * packet_tot p \<le> 2 ^ 38 * 1023"
    using packet_t_le [of p] by (intro mult_mono) simp_all
  then show ?thesis by simp
qed

lemma tot_exact: "dbl_of_int (packet_tot p) = Fin (of_int (packet_tot p))"
  by (rule dbl_of_int_exact [OF packet_bounds(7) packet_tot_less])

lemma sound_new:
  assumes "settings_ok st" and "0 < packet_tot p"
  shows "sound (new_cluster st p)" and "weight (new_cluster st p) = packet_tot p"
proof -
  have tot: "dbl_of_int (packet_tot p) = Fin (of_int (packet_tot p))"
    by (rule tot_exact)
  then show w: "weight (new_cluster st p) = packet_tot p"
    by (intro weight_Fin) (simp add: new_cluster_def)
  have ex: "dbl_of_int v = Fin (of_int v)" if "0 \<le> v" "v < 2 ^ 38" for v
    using that by (intro dbl_of_int_exact) simp_all
  have s: "0 \<le> xy_sep st" using assms(1) by (simp add: settings_ok_def)
  note t = packet_t_le_rat [of p]
  have xy: "between (low (v - xy_sep st)) (high (v + xy_sep st)) (dbl_of_int v)"
    if "0 \<le> v" "v \<le> 255" for v
    using that s low_high_of [of v "v - xy_sep st" "v + xy_sep st"] by (simp add: ex between_def)
  from xy [of "packet_x p"] xy [of "packet_y p"] t w tot assms(2)
  show "sound (new_cluster st p)"
    by (simp add: sound_def new_cluster_def box_exact [OF assms(1)] ex between_def)
qed

lemma sound_add_click:
  assumes "settings_ok st" and "0 < packet_tot p" and c: "sound c"
    and "weight c + packet_tot p \<le> weight_limit"
  shows "sound (add_click st c p)" and "weight (add_click st c p) = weight c + packet_tot p"
proof -
  have tot: "dbl_of_int (packet_tot p) = Fin (of_int (packet_tot p))"
    by (rule tot_exact)
  have tt: "tot_total c = Fin (of_int (weight c))" "0 < weight c" using c by (simp_all add: sound_def)
  have sum: "Fin (of_int (weight c)) + Fin (of_int (packet_tot p)) =
      Fin (of_int (weight c + packet_tot p))"
    using assms tt by (intro dbl_add_exact) (simp_all add: weight_limit_def)
  have tt': "tot_total (add_click st c p) = Fin (of_int (weight c + packet_tot p))"
    using sum by (simp add: add_click_def Let_def tt(1) tot)
  then show w: "weight (add_click st c p) = weight c + packet_tot p" by (rule weight_Fin)
  have s: "0 \<le> xy_sep st" using assms(1) by (simp add: settings_ok_def)
  have xy: "between (low (min u (v - xy_sep st))) (high (max w (v + xy_sep st)))
      ((d * Fin (of_int (weight c)) + dbl_of_int (v * packet_tot p)) /
        (Fin (of_int (weight c)) + dbl_of_int (packet_tot p)))"
    if b: "between (low u) (high w) d" and v: "0 \<le> v" "v \<le> 255" for u w v d
  proof (rule mean_click)
    from b have uw: "u \<le> 255" "0 \<le> w" by (auto dest: between_low_high)
    show "scalable weight_limit (low (min u (v - xy_sep st)))" using uw by (intro scalable_low) simp
    show "scalable weight_limit (high (max w (v + xy_sep st)))" using uw by (intro scalable_high) simp
    show "between (low (min u (v - xy_sep st))) (high (max w (v + xy_sep st))) d"
      using b low_min(1) high_max(1) by (rule between_mono)
    show "low (min u (v - xy_sep st)) \<le> of_int v" "of_int v \<le> high (max w (v + xy_sep st))"
      using low_high_of [OF v, of "min u (v - xy_sep st)" "max w (v + xy_sep st)"] s by auto
  qed (use assms tt v coordinate_weight in simp_all)
  note t = packet_t_le_rat [of p]
  have "between 0 (2 ^ 38) ((tmean c * Fin (of_int (weight c)) +
      dbl_of_int (packet_t p * packet_tot p)) / (Fin (of_int (weight c)) + dbl_of_int (packet_tot p)))"
    using c assms tt t time_weight by (intro mean_click scalable_time) (simp_all add: sound_def)
  with xy [of "xmin c" "xmax c" "xmean c" "packet_x p"] xy [of "ymin c" "ymax c" "ymean c" "packet_y p"]
    c tt' w assms(2) tt
  show "sound (add_click st c p)"
    by (simp add: sound_def add_click_def Let_def box_exact [OF assms(1)])
qed

lemma sound_add_cluster:
  assumes a: "sound a" and c: "sound c" and "weight a + weight c \<le> weight_limit"
  shows "sound (add_cluster a c)" and "weight (add_cluster a c) = weight a + weight c"
proof -
  have tt: "tot_total a = Fin (of_int (weight a))" "0 < weight a"
    "tot_total c = Fin (of_int (weight c))" "0 < weight c" using a c by (simp_all add: sound_def)
  have sum: "Fin (of_int (weight a)) + Fin (of_int (weight c)) = Fin (of_int (weight a + weight c))"
    using assms tt by (intro dbl_add_exact) (simp_all add: weight_limit_def)
  have tt': "tot_total (add_cluster a c) = Fin (of_int (weight a + weight c))"
    using sum by (simp add: add_cluster_def Let_def tt)
  then show w: "weight (add_cluster a c) = weight a + weight c" by (rule weight_Fin)
  have xy: "between (low (min u u')) (high (max w w'))
      ((d * Fin (of_int (weight a)) + e * Fin (of_int (weight c))) /
        (Fin (of_int (weight a)) + Fin (of_int (weight c))))"
    if b: "between (low u) (high w) d" "between (low u') (high w') e" for u u' w w' d e
  proof (rule mean_merge)
    from b have uw: "u \<le> 255" "0 \<le> w" by (auto dest: between_low_high)
    show "scalable weight_limit (low (min u u'))" using uw by (intro scalable_low) simp
    show "scalable weight_limit (high (max w w'))" using uw by (intro scalable_high) simp
    show "between (low (min u u')) (high (max w w')) d" using b(1) low_min(1) high_max(1) by (rule between_mono)
    show "between (low (min u u')) (high (max w w')) e" using b(2) low_min(2) high_max(2) by (rule between_mono)
  qed (use assms tt in simp_all)
  have "between 0 (2 ^ 38) ((tmean a * Fin (of_int (weight a)) + tmean c * Fin (of_int (weight c))) /
      (Fin (of_int (weight a)) + Fin (of_int (weight c))))"
    using a c assms tt by (intro mean_merge scalable_time) (simp_all add: sound_def)
  with xy [of "xmin a" "xmax a" "xmean a" "xmin c" "xmax c" "xmean c"]
    xy [of "ymin a" "ymax a" "ymean a" "ymin c" "ymax c" "ymean c"] a c tt' w tt
  show "sound (add_cluster a c)" by (simp add: sound_def add_cluster_def Let_def)
qed

section \<open>Weights of a list of clusters\<close>

lemma total_weight_mset: "total_weight cs = sum_mset (image_mset weight (mset cs))"
  by (simp add: total_weight_def flip: sum_mset_sum_list)

lemma total_weight_append [simp]: "total_weight (cs @ ds) = total_weight cs + total_weight ds"
  by (simp add: total_weight_def)

lemma total_weight_split:
  assumes "i < length cs"
  shows "total_weight cs = weight (cs ! i) + sum_mset (image_mset weight (mset cs - {#cs ! i#}))"
proof -
  from assms have "mset cs = add_mset (cs ! i) (mset cs - {#cs ! i#})" by simp
  then show ?thesis unfolding total_weight_mset by (metis image_mset_add_mset sum_mset.add_mset)
qed

lemma total_weight_update:
  "i < length cs \<Longrightarrow> total_weight (cs[i := c]) = total_weight cs - weight (cs ! i) + weight c"
  using total_weight_split [of i cs] by (simp add: total_weight_mset mset_update)

lemma total_weight_remove:
  "i < length cs \<Longrightarrow> total_weight (remove_at i cs) = total_weight cs - weight (cs ! i)"
  using total_weight_split [of i cs] by (simp add: total_weight_mset mset_remove_at)

lemma sound_weight_nonneg: "sound c \<Longrightarrow> 0 \<le> weight c"
  by (simp add: sound_def)

lemma total_weight_nonneg: "list_all sound cs \<Longrightarrow> 0 \<le> total_weight cs"
  by (induction cs) (auto simp: total_weight_def dest: sound_weight_nonneg)

lemma weight_le_total: "list_all sound cs \<Longrightarrow> c \<in> set cs \<Longrightarrow> weight c \<le> total_weight cs"
proof (induction cs)
  case Nil
  then show ?case by simp
next
  case (Cons d cs)
  then have "0 \<le> weight d" "0 \<le> total_weight cs"
    by (simp_all add: sound_weight_nonneg total_weight_nonneg)
  with Cons show ?case by (auto simp: total_weight_def)
qed

lemma list_all_remove_at: "i < length xs \<Longrightarrow> list_all P xs \<Longrightarrow> list_all P (remove_at i xs)"
  using set_remove_at_subset [of i xs] by (auto simp: list_all_iff)

lemma list_all_update: "list_all P xs \<Longrightarrow> P x \<Longrightarrow> list_all P (xs[i := x])"
  using set_update_subset_insert [of xs i x] by (auto simp: list_all_iff)

lemma weights_le_total:
  assumes "list_all sound cs" and "j < i" and "i < length cs"
  shows "weight (cs ! j) + weight (cs ! i) \<le> total_weight cs"
proof -
  have "list_all sound (remove_at i cs)" using assms by (intro list_all_remove_at)
  moreover have "cs ! j \<in> set (remove_at i cs)"
    using assms nth_remove_at_below [of i cs j] nth_mem [of j "remove_at i cs"]
    by (simp add: length_remove_at)
  ultimately have "weight (cs ! j) \<le> total_weight (remove_at i cs)" by (rule weight_le_total)
  with assms show ?thesis by (simp add: total_weight_remove)
qed

section \<open>Absorbing a click keeps the clusters sound\<close>

definition all_sound :: "int \<Rightarrow> cluster list \<Rightarrow> bool" where
  "all_sound s cs \<longleftrightarrow> list_all sound cs \<and> total_weight cs \<le> s"

lemma all_sound_mono: "all_sound s cs \<Longrightarrow> s \<le> s' \<Longrightarrow> all_sound s' cs"
  by (simp add: all_sound_def)

lemma all_sound_click:
  assumes "settings_ok st" "0 < packet_tot p" "all_sound s cs" "i < length cs" "s + 1023 \<le> weight_limit"
  shows "all_sound (s + 1023) (cs[i := add_click st (cs ! i) p])"
proof -
  from assms have c: "sound (cs ! i)" by (simp add: all_sound_def list_all_length)
  have "weight (cs ! i) \<le> total_weight cs"
    using assms by (intro weight_le_total) (simp_all add: all_sound_def)
  then have "weight (cs ! i) + packet_tot p \<le> weight_limit"
    using assms packet_bounds(8) [of p] unfolding all_sound_def by linarith
  note add = sound_add_click [OF assms(1,2) c this]
  have "total_weight (cs[i := add_click st (cs ! i) p]) \<le> s + 1023"
    using assms(3,4) packet_bounds(8) [of p]
    by (simp only: total_weight_update add(2) all_sound_def) linarith
  with assms(3) add(1) show ?thesis by (simp add: all_sound_def list_all_update)
qed

lemma all_sound_merge:
  assumes "all_sound s cs" "j < i" "i < length cs" "s \<le> weight_limit"
  shows "all_sound s (remove_at i (cs[j := add_cluster (cs ! j) (cs ! i)]))"
proof -
  let ?m = "add_cluster (cs ! j) (cs ! i)"
  from assms have c: "sound (cs ! i)" "sound (cs ! j)" by (simp_all add: all_sound_def list_all_length)
  have "weight (cs ! j) + weight (cs ! i) \<le> weight_limit"
    using weights_le_total [of cs j i] assms by (simp add: all_sound_def)
  note m = sound_add_cluster [OF c(2,1) this]
  have "list_all sound (remove_at i (cs[j := ?m]))"
    using assms m(1) by (intro list_all_remove_at list_all_update) (simp_all add: all_sound_def)
  moreover have "total_weight (remove_at i (cs[j := ?m])) = total_weight cs"
    using assms m(2) by (simp add: total_weight_remove total_weight_update)
  ultimately show ?thesis using assms(1) by (simp add: all_sound_def)
qed

lemma absorb_sound:
  assumes st: "settings_ok st" "0 < packet_tot p" and cs: "all_sound s cs"
    and lim: "s + 1023 * int (length cs) \<le> weight_limit"
  shows "all_sound (s + 1023 * int (length cs)) (fst (absorb st p 0 None cs))"
proof -
  let ?I = "\<lambda>n ds. s + 1023 * int n \<le> weight_limit \<longrightarrow> all_sound (s + 1023 * int n) ds"
  have "?I (0 + (length cs - 0)) (fst (absorb st p 0 None cs))"
  proof (rule absorb_invariant [where I = ?I])
    fix n ds assume "?I n ds"
    then show "?I (Suc n) ds" by (auto elim!: all_sound_mono)
  next
    fix n ds i assume I: "?I n ds" "i < length ds"
    show "?I (Suc n) (ds[i := add_click st (ds ! i) p])"
    proof
      assume "s + 1023 * int (Suc n) \<le> weight_limit"
      then show "all_sound (s + 1023 * int (Suc n)) (ds[i := add_click st (ds ! i) p])"
        using I all_sound_click [OF st, of "s + 1023 * int n" ds i] by (simp add: algebra_simps)
    qed
  next
    fix n ds i j assume "?I n ds" "j < i" "i < length ds"
    then show "?I n (remove_at i (ds[j := add_cluster (ds ! j) (ds ! i)]))"
      using all_sound_merge by blast
  qed (use cs in \<open>simp_all add: last_ok_def\<close>)
  with lim show ?thesis by simp
qed

lemma length_absorb: "length (fst (absorb st p 0 None cs)) \<le> length cs"
proof -
  have "(\<lambda>_ ds. length ds \<le> length cs) (0 + (length cs - 0)) (fst (absorb st p 0 None cs))"
    by (rule absorb_invariant) (auto simp: last_ok_def length_remove_at)
  then show ?thesis by simp
qed

section \<open>The centroid converts to its 64-bit representation\<close>

lemma dbl_to_u64_between:
  assumes "between a b d" "0 \<le> a" "b \<le> 2 ^ 38"
  shows "\<exists>z. dbl_to_u64 d = Inr (word_of_int z) \<and> \<lceil>a\<rceil> \<le> z + 1 \<and> \<lfloor>a\<rfloor> \<le> z \<and> z \<le> \<lfloor>b\<rfloor> \<and> 0 \<le> z \<and> z \<le> 2 ^ 38"
proof -
  from assms(1) obtain m where d: "d = Fin m" "a \<le> m" "m \<le> b" by (rule betweenE)
  with assms have m: "0 \<le> m" "m \<le> 2 ^ 38" by linarith+
  then have "\<lfloor>m\<rfloor> \<le> \<lfloor>(2::rat) ^ 38\<rfloor>" by (intro floor_mono)
  then have u: "\<lfloor>m\<rfloor> \<le> 2 ^ 38" by simp
  have "dbl_to_u64 d = Inr (word_of_int \<lfloor>m\<rfloor>)"
    using m u by (simp add: dbl_to_u64_def d trunc_rat_def Let_def)
  moreover have "\<lceil>a\<rceil> \<le> \<lfloor>m\<rfloor> + 1" using d(2) by (simp add: ceiling_le_iff) linarith
  ultimately show ?thesis using d u m by (auto intro!: floor_mono)
qed

lemma to_raw_value_total: "sound c \<Longrightarrow> \<exists>v. to_raw_value c = Inr v"
proof -
  assume c: "sound c"
  have b: "high v \<le> 2 ^ 38" for v
  proof -
    have "min 255 v \<le> 2 ^ 38" by simp
    then show ?thesis unfolding high_def by (metis of_int_le_iff of_int_numeral of_int_power)
  qed
  have "\<exists>x. dbl_to_u64 (xmean c) = Inr x" "\<exists>y. dbl_to_u64 (ymean c) = Inr y"
    "\<exists>t. dbl_to_u64 (tmean c) = Inr t"
    using c dbl_to_u64_between [OF _ low_nonneg b] dbl_to_u64_between [of 0 "2 ^ 38"]
    unfolding sound_def by blast+
  then show ?thesis by (auto simp: to_raw_value_def)
qed

end
