(* ===== verification/ClusterRun.thy ===== *)
theory ClusterRun
  imports ClusterInvariants
begin

text \<open>
  Whole clicks and whole batches: the iteration of the outer loop of \<open>handlePackets\<close>
  never converts a centroid that is not a number, closes exactly the clusters that are too
  old, and keeps the click it has just processed in an open cluster.  The last section holds the
  boundary cases: the last cluster passed over by the merge loop, a click counted twice, and
  clusters without weight.
\<close>

section \<open>The invariant of the open clusters\<close>

definition latest_ok :: "cluster list \<Rightarrow> bool" where
  "latest_ok cs \<longleftrightarrow> list_all (\<lambda>c. tmax c \<le> 2 ^ 39) cs"

definition wf_clusters :: "int \<Rightarrow> cluster list \<Rightarrow> bool" where
  "wf_clusters s cs \<longleftrightarrow> all_sound s cs \<and> latest_ok cs"

lemma wf_clusters_Nil [simp]: "0 \<le> s \<Longrightarrow> wf_clusters s []"
  by (simp add: wf_clusters_def all_sound_def latest_ok_def total_weight_def)

lemma latest_add:
  assumes "settings_ok st"
  shows "packet_t p + t_sep st \<le> 2 ^ 39"
proof -
  have "t_sep st < 2147483648" using assms by (simp add: settings_ok_def)
  moreover note packet_bounds(6) [of p]
  moreover have "(2 :: int) ^ 39 = 549755813888" by simp
  ultimately show ?thesis by linarith
qed

lemma absorb_latest:
  assumes "settings_ok st" and "latest_ok cs"
  shows "latest_ok (fst (absorb st p 0 None cs))"
proof -
  have "(\<lambda>_ ds. latest_ok ds) (0 + (length cs - 0)) (fst (absorb st p 0 None cs))"
  proof (rule absorb_invariant)
    fix n :: nat and ds i
    assume "latest_ok ds" "i < length ds"
    then show "latest_ok (ds[i := add_click st (ds ! i) p])"
      using latest_add [OF assms(1), of p] unfolding latest_ok_def
      by (intro list_all_update) (simp_all add: add_click_def Let_def list_all_length)
  next
    fix n :: nat and ds i j
    assume "latest_ok ds" "j < i" "i < length ds"
    then show "latest_ok (remove_at i (ds[j := add_cluster (ds ! j) (ds ! i)]))"
      unfolding latest_ok_def
      by (intro list_all_remove_at list_all_update)
        (simp_all add: add_cluster_def Let_def list_all_length)
  qed (use assms in \<open>simp_all add: last_ok_def\<close>)
  then show ?thesis by simp
qed

section \<open>Placing the click\<close>

definition place :: "cluster_settings \<Rightarrow> packet \<Rightarrow> cluster list \<Rightarrow> cluster list" where
  "place st p cs =
     (let (ds, found) = absorb st p 0 None cs in if found then ds else ds @ [new_cluster st p])"

lemma process_click_place:
  "process_click st s p = (let cs = place st p (fst s) in expire (length cs) st p cs (snd s))"
  by (simp add: process_click_def place_def Let_def case_prod_beta)

lemma place_cases:
  "place st p cs = fst (absorb st p 0 None cs) \<and> (\<exists>c \<in> set cs. contains_click c p) \<or>
   place st p cs = cs @ [new_cluster st p] \<and> (\<forall>c \<in> set cs. \<not> contains_click c p)"
proof (cases "\<exists>i < length cs. contains_click (cs ! i) p")
  case True
  then have "snd (absorb st p 0 None cs)" using snd_absorb by auto
  with True show ?thesis by (auto simp: place_def case_prod_beta)
next
  case False
  then have "absorb st p 0 None cs = (cs, False)" using absorb_none [of 0 cs p st None] by simp
  with False show ?thesis by (auto simp: place_def in_set_conv_nth)
qed

lemma place_wf:
  assumes st: "settings_ok st" "0 < packet_tot p" and wf: "wf_clusters s cs"
    and lim: "s + 1023 * (int (length cs) + 1) \<le> weight_limit"
  shows "wf_clusters (s + 1023 * (int (length cs) + 1)) (place st p cs)"
  using place_cases [of st p cs]
proof (elim disjE conjE)
  assume eq: "place st p cs = fst (absorb st p 0 None cs)"
  have "all_sound (s + 1023 * int (length cs)) (place st p cs)"
    unfolding eq using st wf lim by (intro absorb_sound) (simp_all add: wf_clusters_def)
  then have "all_sound (s + 1023 * (int (length cs) + 1)) (place st p cs)"
    by (rule all_sound_mono) simp
  with wf eq show ?thesis by (simp add: wf_clusters_def absorb_latest [OF st(1)])
next
  assume eq: "place st p cs = cs @ [new_cluster st p]"
  have n: "sound (new_cluster st p)" using st by (rule sound_new)
  have "weight (new_cluster st p) = packet_tot p"
    by (simp add: weight_def new_cluster_def tot_exact)
  then have "total_weight (cs @ [new_cluster st p]) = total_weight cs + packet_tot p"
    by (simp add: total_weight_def)
  moreover have "total_weight cs \<le> s" using wf by (simp add: wf_clusters_def all_sound_def)
  moreover obtain n where "n = int (length cs)" "0 \<le> n" by simp
  moreover note packet_bounds(8) [of p]
  ultimately have "total_weight (cs @ [new_cluster st p]) \<le> s + 1023 + 1023 * n" by linarith
  moreover have "s + 1023 + 1023 * n = s + 1023 * (int (length cs) + 1)" using \<open>n = _\<close> by simp
  ultimately have "total_weight (cs @ [new_cluster st p]) \<le> s + 1023 * (int (length cs) + 1)"
    by simp
  with n wf show ?thesis
    using latest_add [OF st(1), of p]
    by (simp add: eq wf_clusters_def all_sound_def latest_ok_def new_cluster_def)
qed

lemma length_place: "length (place st p cs) \<le> Suc (length cs)"
  using place_cases [of st p cs] length_absorb [of st p cs] by auto

lemma place_covers: "covers (place st p cs) cs"
  using place_cases [of st p cs] absorb_covers [of st p cs] covers_refl [of cs]
  by (auto simp: covers_def)

lemma contains_new_cluster:
  assumes "settings_ok st"
  shows "contains_click (new_cluster st p) p"
  using assms by (simp add: contains_click_def new_cluster_def box_exact settings_ok_def)

lemma place_holds_click:
  assumes "settings_ok st"
  shows "\<exists>c \<in> set (place st p cs). contains_click c p"
  using place_cases [of st p cs]
proof (elim disjE conjE)
  assume "\<exists>c \<in> set cs. contains_click c p"
  then show ?thesis using place_covers [of st p cs] unfolding covers_def
    by (meson box_le_contains)
qed (simp add: contains_new_cluster [OF assms])

section \<open>Closing\<close>

lemma wf_subset:
  assumes "wf_clusters s cs" and "mset ds \<subseteq># mset cs"
  shows "wf_clusters s ds"
proof -
  have sub: "set ds \<subseteq> set cs" using assms(2) by (metis set_mset_mono set_mset_mset)
  obtain es where es: "mset cs = mset ds + mset es"
    using assms(2) by (metis ex_mset subset_mset.le_iff_add)
  then have "set es \<subseteq> set cs" by (metis mset_append set_append set_mset_mset Un_upper2)
  then have "list_all sound es" using assms(1) by (auto simp: wf_clusters_def all_sound_def list_all_iff)
  then have "0 \<le> total_weight es" by (rule total_weight_nonneg)
  moreover have "total_weight cs = total_weight ds + total_weight es"
    unfolding total_weight_mset es by simp
  ultimately show ?thesis
    using assms(1) sub by (auto simp: wf_clusters_def all_sound_def latest_ok_def list_all_iff)
qed

lemma expire_all:
  assumes "expire (length cs) st p cs out = Inr (cs', out')"
  shows "mset cs' = mset (filter (\<lambda>c. \<not> expired st p c) cs)"
    and "\<exists>vs. map_result to_raw_value (rev (filter (expired st p) cs)) = Inr vs \<and> out' = out @ vs"
  using expire_spec [OF assms] by simp_all

lemma expired_iff:
  assumes "settings_ok st" and "0 \<le> tmax c" and "tmax c \<le> 2 ^ 39"
  shows "expired st p c \<longleftrightarrow> tmax c + int (unat (max_t_separation st)) < packet_t p"
proof -
  let ?m = "max_t_separation st"
  have m: "unat ?m < 2 ^ 62" using assms(1) by (simp add: settings_ok_def)
  have t: "unat (word_of_int (tmax c) :: u64) = nat (tmax c)"
    using assms(2,3) by (simp add: unsigned_of_int take_bit_int_eq_self nat_less_iff)
  have p: "unat (word_of_int (packet_t p) :: u64) = nat (packet_t p)"
  proof -
    have "packet_t p < 2 ^ 64" using packet_t_le [of p] by simp
    then show ?thesis by (simp add: unsigned_of_int take_bit_int_eq_self)
  qed
  have "nat (tmax c) \<le> 2 ^ 39" using assms(3) by simp
  then have "unat (word_of_int (tmax c) + ?m :: u64) = nat (tmax c) + unat ?m"
    using m t by (simp add: unat_word_ariths)
  then show ?thesis
    using assms(2) unfolding expired_def word_less_nat_alt p by linarith
qed


section \<open>One click\<close>

text \<open>The limit on the weight of the open clusters that a batch of \<open>m\<close> clicks needs.\<close>

definition room :: "int \<Rightarrow> nat \<Rightarrow> nat \<Rightarrow> bool" where
  "room s n m \<longleftrightarrow> s + 1023 * (int m * (int n + int m)) \<le> weight_limit"

lemma room_split:
  assumes "room s n (m + k)" and "n' \<le> n + m"
  shows "room s n m" and "room (s + 1023 * (int m * (int n + int m))) n' k"
proof -
  have "int m * (int n + int m) + int k * (int n' + int k) \<le>
      int m * (int n + int m) + int k * (int n + int m + int k)"
    using assms(2) by (intro add_left_mono mult_left_mono) simp_all
  also have "\<dots> \<le> int (m + k) * (int n + int (m + k))" by (simp add: algebra_simps)
  finally have step: "int m * (int n + int m) + int k * (int n' + int k) \<le>
      int (m + k) * (int n + int (m + k))" .
  have "0 \<le> int k * (int n' + int k)" by simp
  with step assms(1) show "room s n m" unfolding room_def by linarith
  show "room (s + 1023 * (int m * (int n + int m))) n' k"
    using step assms(1) unfolding room_def by linarith
qed

lemma room_clicks:
  assumes "k \<le> 185000"
  shows "room 0 0 k"
proof -
  have "int k * int k \<le> 185000 * 185000" using assms by (intro mult_mono) simp_all
  then show ?thesis by (simp add: room_def weight_limit_def)
qed

lemma process_click_wf:
  assumes st: "settings_ok st" "0 < packet_tot p" and wf: "wf_clusters s cs"
    and lim: "s + 1023 * (int (length cs) + 1) \<le> weight_limit"
  shows "\<exists>cs' vs. process_click st (cs, out) p = Inr (cs', out @ vs) \<and>
    wf_clusters (s + 1023 * (int (length cs) + 1)) cs' \<and>
    length cs' + length vs \<le> Suc (length cs) \<and>
    mset cs' = mset (filter (\<lambda>c. \<not> expired st p c) (place st p cs)) \<and>
    map_result to_raw_value (rev (filter (expired st p) (place st p cs))) = Inr vs"
proof -
  let ?ds = "place st p cs"
  note ds = place_wf [OF st wf lim]
  then have "list_all (\<lambda>c. \<exists>v. to_raw_value c = Inr v) ?ds"
    by (auto simp: wf_clusters_def all_sound_def list_all_iff intro: to_raw_value_total)
  then obtain cs' out' where e: "expire (length ?ds) st p ?ds out = Inr (cs', out')"
    using expire_total [of ?ds "length ?ds" st p out] by blast
  note m = expire_all [OF e]
  then obtain vs where vs: "out' = out @ vs"
    "map_result to_raw_value (rev (filter (expired st p) ?ds)) = Inr vs" by blast
  have "wf_clusters (s + 1023 * (int (length cs) + 1)) cs'"
    by (rule wf_subset [OF ds]) (simp add: m(1) mset_filter)
  moreover have "length cs' = length (filter (\<lambda>c. \<not> expired st p c) ?ds)"
    using m(1) by (metis size_mset)
  moreover have "length vs = length (filter (expired st p) ?ds)"
    using map_result_length [OF vs(2)] by simp
  moreover have "length (filter (expired st p) ?ds) + length (filter (\<lambda>c. \<not> expired st p c) ?ds) = length ?ds"
    by (rule sum_length_filter_compl)
  ultimately show ?thesis
    using e m(1) vs length_place [of st p cs] by (auto simp: process_click_place)
qed

lemma process_clicks_wf:
  assumes "settings_ok st" and "list_all (\<lambda>p. 0 < packet_tot p) ps" and "wf_clusters s cs"
    and "room s (length cs) (length ps)"
  shows "\<exists>cs' vs. process_clicks st (cs, out) ps = Inr (cs', out @ vs) \<and>
    wf_clusters (s + 1023 * (int (length ps) * (int (length cs) + int (length ps)))) cs' \<and>
    length cs' + length vs \<le> length cs + length ps"
  using assms(2-4)
proof (induction ps arbitrary: s cs out)
  case Nil
  then show ?case by simp
next
  case (Cons p ps)
  define k where "k = int (length ps)"
  define n where "n = int (length cs)"
  have kn: "0 \<le> k" "0 \<le> n" by (simp_all add: k_def n_def)
  have len: "int (length (p # ps)) = k + 1" by (simp add: k_def)
  have lim: "s + 1023 * ((k + 1) * (n + (k + 1))) \<le> weight_limit"
    using Cons.prems(3) unfolding room_def len n_def [symmetric] by simp
  define A where "A = 1023 * (k * (n + 1 + k))"
  have pos: "0 \<le> A" using kn by (simp add: A_def)
  have split: "s + 1023 * ((k + 1) * (n + (k + 1))) = s + 1023 * (n + 1) + A + 1023 * k"
    by (simp add: A_def algebra_simps)
  have "s + 1023 * (int (length cs) + 1) \<le> weight_limit"
    using lim pos kn unfolding split n_def [symmetric] by linarith
  then obtain cs1 vs1 where one: "process_click st (cs, out) p = Inr (cs1, out @ vs1)"
    "wf_clusters (s + 1023 * (int (length cs) + 1)) cs1" "length cs1 + length vs1 \<le> Suc (length cs)"
    using process_click_wf [OF assms(1), of p s cs out] Cons.prems by auto
  have n1: "int (length cs1) \<le> n + 1" using one(3) by (simp add: n_def)
  have "1023 * (k * (int (length cs1) + k)) \<le> A"
    unfolding A_def using n1 kn by (intro mult_left_mono) simp_all
  then have bound: "s + 1023 * (int (length cs) + 1) + 1023 * (k * (int (length cs1) + k)) \<le>
      s + 1023 * ((k + 1) * (n + (k + 1)))"
    using kn unfolding split n_def [symmetric] by linarith
  with lim have "room (s + 1023 * (int (length cs) + 1)) (length cs1) (length ps)"
    unfolding room_def k_def [symmetric] by linarith
  from Cons.IH [OF _ one(2) this, of "out @ vs1"] Cons.prems(1) obtain cs' vs where
    rest: "process_clicks st (cs1, out @ vs1) ps = Inr (cs', (out @ vs1) @ vs)"
    "wf_clusters (s + 1023 * (int (length cs) + 1) + 1023 * (k * (int (length cs1) + k))) cs'"
    "length cs' + length vs \<le> length cs1 + length ps" unfolding k_def [symmetric] by auto
  have "wf_clusters (s + 1023 * ((k + 1) * (n + (k + 1)))) cs'"
    using rest(2) bound by (auto simp: wf_clusters_def elim!: all_sound_mono)
  with one rest show ?case unfolding len n_def [symmetric]
    by (intro exI [of _ cs'] exI [of _ "vs1 @ vs"]) simp
qed

section \<open>Properties\<close>

text \<open>C9. No centroid of a batch is converted when it is not a number or does not fit: with
  settings in range, clicks of positive weight, sound open clusters and room for the weights, a batch is processed to the end, and it
  reports and keeps at most one cluster for every click and every cluster open before.\<close>

theorem batch_total:
  assumes "settings_ok st" and "list_all (\<lambda>p. 0 < packet_tot p) ps" and "wf_clusters s cs"
    and "room s (length cs) (length ps)"
  shows "\<exists>cs' vs. process_clicks st (cs, out) ps = Inr (cs', out @ vs) \<and>
    length cs' + length vs \<le> length cs + length ps"
  using process_clicks_wf [OF assms, of out] by blast

theorem batch_total_witness:
  "\<exists>cs' vs. process_clicks default_settings ([], [])
      [\<lparr>raw_value = 0x1020004000000064\<rparr>, \<lparr>raw_value = 0x1121008000000065\<rparr>] = Inr (cs', [] @ vs) \<and>
    length cs' + length vs \<le> 2"
proof -
  let ?ps = "[\<lparr>raw_value = 0x1020004000000064\<rparr>, \<lparr>raw_value = 0x1121008000000065\<rparr>]"
  have tots: "list_all (\<lambda>p. 0 < packet_tot p) ?ps" by (simp add: packet_tot_def)
  have room: "room 0 (length []) (length ?ps)" by (simp add: room_def weight_limit_def)
  have two: "length ([] :: cluster list) + length ?ps = 2" by simp
  show ?thesis
    using batch_total [OF default_settings_ok tots wf_clusters_Nil room, of "[]"]
    unfolding two by (simp only: order_refl)
qed

text \<open>C8. With settings in range, sound open clusters and room for the weights: after a click of
  positive weight has been processed it lies in the box of an open cluster, and no open
  cluster is too old: a cluster is closed exactly when the click is later than its last
  time by more than the configured separation, and the closed ones are reported.\<close>

theorem click_stays_open:
  assumes "settings_ok st" and "0 < packet_tot p" and "wf_clusters s cs"
    and "s + 1023 * (int (length cs) + 1) \<le> weight_limit"
  shows "\<exists>cs' vs. process_click st (cs, out) p = Inr (cs', out @ vs) \<and>
    list_ex (\<lambda>c. contains_click c p) cs' \<and> list_all (\<lambda>c. \<not> expired st p c) cs' \<and>
    mset cs' = mset (filter (\<lambda>c. \<not> expired st p c) (place st p cs)) \<and>
    map_result to_raw_value (rev (filter (expired st p) (place st p cs))) = Inr vs"
proof -
  obtain cs' vs where r: "process_click st (cs, out) p = Inr (cs', out @ vs)"
    "mset cs' = mset (filter (\<lambda>c. \<not> expired st p c) (place st p cs))"
    "map_result to_raw_value (rev (filter (expired st p) (place st p cs))) = Inr vs"
    using process_click_wf [OF assms, of out] by blast
  have set: "set cs' = {c \<in> set (place st p cs). \<not> expired st p c}"
    using arg_cong [OF r(2), of set_mset] by simp
  obtain c where c: "c \<in> set (place st p cs)" "contains_click c p"
    using place_holds_click [OF assms(1)] by blast
  have "latest_ok (place st p cs)" using place_wf [OF assms] by (simp add: wf_clusters_def)
  then have "tmax c \<le> 2 ^ 39" using c(1) by (simp add: latest_ok_def list_all_iff)
  moreover have "packet_t p \<le> tmax c" using c(2) by (simp add: contains_click_def)
  moreover have "0 \<le> packet_t p" by simp
  ultimately have "\<not> expired st p c" using expired_iff [OF assms(1), of c p] by linarith
  with c set have "list_ex (\<lambda>c. contains_click c p) cs'" by (auto simp: list_ex_iff)
  moreover have "list_all (\<lambda>c. \<not> expired st p c) cs'" using set by (auto simp: list_all_iff)
  ultimately show ?thesis using r by blast
qed

theorem click_stays_open_witness:
  "\<exists>cs' vs. process_click default_settings ([], []) \<lparr>raw_value = 0x1020004000000064\<rparr> = Inr (cs', [] @ vs) \<and>
    list_ex (\<lambda>c. contains_click c \<lparr>raw_value = 0x1020004000000064\<rparr>) cs'"
proof -
  have tot: "0 < packet_tot \<lparr>raw_value = 0x1020004000000064\<rparr>" by (simp add: packet_tot_def)
  have lim: "0 + 1023 * (int (length []) + 1) \<le> weight_limit" by (simp add: weight_limit_def)
  show ?thesis
    using click_stays_open [OF default_settings_ok tot wf_clusters_Nil lim, of "[]"] by auto
qed

section \<open>Boundary cases\<close>

lemma remove_at_last_into: "remove_at (length us) (us @ b # zs @ [z]) = us @ z # zs"
proof -
  have "(us @ b # zs @ [z])[length us := z, length us + length zs + 1 := b] = us @ z # zs @ [b]"
    by (simp add: list_update_append)
  then show ?thesis by (simp add: remove_at_def butlast_append)
qed

text \<open>C28. The loop that merges clusters passes over the last open cluster once it has merged two:
  when the second cluster that holds the click is removed, the last one takes its place, and
  the loop goes on behind that place.  If the last cluster holds the click, too, it stays open
  with neither the click nor the merge; so of exactly three open clusters that hold the click
  the third is not merged.\<close>

theorem last_cluster_passed_over:
  assumes "contains_click a p" and "contains_click b p"
    and "list_all (\<lambda>c. \<not> contains_click c p) (xs @ ys @ zs)"
  shows "absorb st p 0 None (xs @ a # ys @ b # zs @ [z]) =
    (xs @ add_cluster (add_click st a p) (add_click st b p) # ys @ z # zs, True)"
proof -
  let ?i = "length xs" and ?k = "Suc (length xs + length ys)"
  let ?a = "add_click st a p" and ?b = "add_click st b p"
  let ?cs = "xs @ a # ys @ b # zs @ [z]"
  have no: "\<not> contains_click (xs ! i) p" if "i < length xs" for i
    using assms(3) that by (auto simp: list_all_iff)
  have "absorb st p 0 None ?cs = absorb st p (Suc ?i) (Some ?i) (?cs[?i := add_click st (?cs ! ?i) p])"
    using assms(1) no by (intro absorb_first) (simp_all add: nth_append)
  also have "?cs[?i := add_click st (?cs ! ?i) p] = xs @ ?a # ys @ b # zs @ [z]" by simp
  also have "absorb st p (Suc ?i) (Some ?i) (xs @ ?a # ys @ b # zs @ [z]) =
      absorb st p (Suc ?k) (Some ?i) (xs @ add_cluster ?a ?b # ys @ z # zs)"
  proof -
    let ?ds = "xs @ ?a # ys @ b # zs @ [z]"
    have k: "?ds ! ?k = b" "?ds ! ?i = ?a" by (simp_all add: nth_append)
    have skip: "\<not> contains_click (?ds ! i) p" if "Suc ?i \<le> i" "i < ?k" for i
    proof -
      define m where "m = i - Suc ?i"
      then have m: "i = Suc ?i + m" "m < length ys" using that by auto
      then have "?ds ! i = ys ! m" by (simp add: nth_append)
      then show ?thesis using assms(3) m(2) by (auto simp: list_all_iff)
    qed
    have "?ds[?k := ?b, ?i := add_cluster ?a ?b] = xs @ add_cluster ?a ?b # ys @ ?b # zs @ [z]"
      by (simp add: list_update_append)
    moreover have "remove_at ?k ((xs @ add_cluster ?a ?b # ys) @ ?b # zs @ [z]) =
        (xs @ add_cluster ?a ?b # ys) @ z # zs"
      using remove_at_last_into [of "xs @ add_cluster ?a ?b # ys" ?b zs z] by simp
    ultimately show ?thesis
      using absorb_next [of ?k ?ds p ?i "Suc ?i" st] assms(2) skip k by simp
  qed
  also have "\<dots> = (xs @ add_cluster ?a ?b # ys @ z # zs, True)"
  proof (subst absorb_none)
    fix i assume i: "Suc ?k \<le> i" "i < length (xs @ add_cluster ?a ?b # ys @ z # zs)"
    then obtain m where m: "i = Suc ?k + m" "m < length zs" by (auto simp: le_iff_add)
    then have "(xs @ add_cluster ?a ?b # ys @ z # zs) ! i = zs ! m" by (simp add: nth_append)
    then show "\<not> contains_click ((xs @ add_cluster ?a ?b # ys @ z # zs) ! i) p"
      using assms(3) m(2) by (auto simp: list_all_iff)
  qed simp
  finally show ?thesis .
qed

theorem last_cluster_passed_over_witness:
  "let p = \<lparr>raw_value = 0x1020004000000064\<rparr>; c = new_cluster default_settings p;
       d = new_cluster default_settings \<lparr>raw_value = 0x9090004000000064\<rparr>; c' = add_click default_settings c p
   in absorb default_settings p 0 None [c, c, d, c] = ([add_cluster c' c', c, d], True)"
proof -
  let ?p = "\<lparr>raw_value = 0x1020004000000064\<rparr>" and ?q = "\<lparr>raw_value = 0x9090004000000064\<rparr>"
  let ?c = "new_cluster default_settings ?p" and ?d = "new_cluster default_settings ?q"
  have d: "\<not> contains_click ?d ?p"
    by (simp add: contains_click_def new_cluster_def box_exact [OF default_settings_ok])
      (simp add: packet_x_def default_settings_def)
  show ?thesis
    using last_cluster_passed_over [of ?c ?p ?c "[]" "[]" "[?d]" default_settings ?c] d
    by (simp add: Let_def contains_new_cluster [OF default_settings_ok])
qed

text \<open>C29. A click that joins two clusters is counted twice: it is added to both before they
  are merged, so the merged cluster weighs twice the click's time over threshold more than
  the two clusters did.\<close>

theorem click_counted_twice:
  assumes "settings_ok st" and "0 < packet_tot p" and "sound a" and "sound b"
    and "contains_click a p" and "contains_click b p"
    and "weight a + weight b + 2 * packet_tot p \<le> weight_limit"
  shows "\<exists>d. absorb st p 0 None [a, b] = ([d], True) \<and>
    weight d = weight a + weight b + 2 * packet_tot p"
proof -
  have nonneg: "0 \<le> weight a" "0 \<le> weight b" using assms by (simp_all add: sound_weight_nonneg)
  have la: "weight a + packet_tot p \<le> weight_limit" and lb: "weight b + packet_tot p \<le> weight_limit"
    using assms(2,7) nonneg by linarith+
  note ca = sound_add_click [OF assms(1,2,3) la] and cb = sound_add_click [OF assms(1,2,4) lb]
  have "weight (add_click st a p) + weight (add_click st b p) \<le> weight_limit"
    using assms(7) ca(2) cb(2) by linarith
  then have w: "weight (add_cluster (add_click st a p) (add_click st b p)) =
      weight a + weight b + 2 * packet_tot p"
    using sound_add_cluster(2) [OF ca(1) cb(1)] ca(2) cb(2) by linarith
  have "absorb st p 0 None [a, b] = absorb st p 1 (Some 0) [add_click st a p, b]"
    using assms(5) by (subst absorb.simps) simp
  also have "\<dots> = absorb st p 2 (Some 0) [add_cluster (add_click st a p) (add_click st b p)]"
    using assms(6) by (subst absorb.simps) (simp add: remove_at_def numeral_2_eq_2)
  also have "\<dots> = ([add_cluster (add_click st a p) (add_click st b p)], True)"
    by (subst absorb.simps) simp
  finally show ?thesis using w by blast
qed

theorem click_counted_twice_witness:
  "let p = \<lparr>raw_value = 0x1020004000000064\<rparr>; c = new_cluster default_settings p
   in \<exists>d. absorb default_settings p 0 None [c, c] = ([d], True) \<and> weight d = 4 \<and> weight c = 1"
proof -
  let ?p = "\<lparr>raw_value = 0x1020004000000064\<rparr>"
  let ?c = "new_cluster default_settings ?p"
  have t: "packet_tot ?p = 1" by (simp add: packet_tot_def)
  then have s: "sound ?c" by (intro sound_new default_settings_ok) simp
  have k: "contains_click ?c ?p" by (rule contains_new_cluster [OF default_settings_ok])
  have w: "weight ?c = 1"
    using t tot_exact [of ?p] by (simp add: weight_def new_cluster_def)
  show ?thesis
    using click_counted_twice [OF default_settings_ok _ s s k k] t w
    by (simp add: Let_def weight_limit_def)
qed

text \<open>Two clicks with a time over threshold of 0 in one cluster give it the centroid
  \<open>0 / 0\<close>; when the cluster is closed, the conversion of that centroid is undefined.\<close>

theorem weightless_cluster_faults:
  "process_clicks default_settings ([], [])
     [\<lparr>raw_value = 0\<rparr>, \<lparr>raw_value = 0\<rparr>, \<lparr>raw_value = 100000\<rparr>] = Inl Bad_Cast"
proof -
  let ?z = "\<lparr>raw_value = 0\<rparr> :: packet" and ?l = "\<lparr>raw_value = 100000\<rparr> :: packet"
  have z: "packet_x ?z = 0" "packet_y ?z = 0" "packet_t ?z = 0" "packet_tot ?z = 0"
    by (simp_all add: packet_x_def packet_y_def packet_t_def packet_tot_def)
  have l: "packet_x ?l = 0" "packet_y ?l = 0" "packet_t ?l = 100000" "packet_tot ?l = 0"
    by (simp_all add: packet_x_def packet_y_def packet_t_def packet_tot_def)
  have d0: "dbl_of_int 0 = Fin 0" by (simp add: dbl_of_int_def rnd_def)
  let ?c = "new_cluster default_settings ?z"
  have c: "?c = \<lparr>xmean = Fin 0, ymean = Fin 0, tmean = Fin 0, tot_total = Fin 0,
      xmin = - 5, xmax = 5, ymin = - 5, ymax = 5, tmin = - 20, tmax = 20\<rparr>"
    by (simp add: new_cluster_def z d0 default_settings_def i32_id in_i32_def)
  let ?d = "add_click default_settings ?c ?z"
  have d: "?d = \<lparr>xmean = NaN, ymean = NaN, tmean = NaN, tot_total = Fin 0,
      xmin = - 5, xmax = 5, ymin = - 5, ymax = 5, tmin = - 20, tmax = 20\<rparr>"
    unfolding c by (simp add: add_click_def z d0 default_settings_def i32_id in_i32_def
        times_dbl_def plus_dbl_def divide_dbl_def rnd_def)
  have e: "expired default_settings ?z ?c = False" "expired default_settings ?z ?d = False"
    unfolding c d by (simp_all add: expired_def z default_settings_def)
  have "contains_click ?c ?z" unfolding c by (simp add: contains_click_def z)
  then have ab: "absorb default_settings ?z 0 None [?c] = ([?d], True)"
    by (subst absorb.simps, simp, subst absorb.simps, simp)
  have "\<not> contains_click ?d ?l" unfolding d by (simp add: contains_click_def l)
  then have al: "absorb default_settings ?l 0 None [?d] = ([?d], False)"
    using absorb_none [of 0 "[?d]" ?l default_settings None] by simp
  let ?n = "new_cluster default_settings ?l"
  have n: "expired default_settings ?l ?n = False"
    by (simp add: expired_def new_cluster_def l default_settings_def)
  have x: "expired default_settings ?l ?d = True"
    unfolding d by (simp add: expired_def l default_settings_def)
  have f: "to_raw_value ?d = Inl Bad_Cast" unfolding d by (simp add: to_raw_value_def dbl_to_u64_def)
  have "process_click default_settings ([], []) ?z = Inr ([?c], [])"
    using absorb_none [of 0 "[]" ?z default_settings None] e by (simp add: process_click_def)
  moreover have "process_click default_settings ([?c], []) ?z = Inr ([?d], [])"
    using e by (simp add: process_click_def ab)
  moreover have "process_click default_settings ([?d], []) ?l = Inl Bad_Cast"
    using n x f by (simp add: process_click_def al numeral_2_eq_2)
  ultimately show ?thesis by simp
qed

end
