(* ===== verification/ClusterManager.thy ===== *)
theory ClusterManager
  imports ClusterRun Streams Secondary ByteOrder
begin

text \<open>
  \<open>ClusteringManager\<close> (src/server/ClusteringManager.cpp) around the algorithm of theory
  Clustering: batches of packets from the raw data server, the statistics line, the
  clusters file and the published clusters.  \<open>start\<close> is the clock when a batch arrives
  (it initialises the function's static \<open>last_update_time\<close> the first time) and \<open>now\<close> the
  clock when the batch has been clustered; both count nanoseconds.  Publishing never fails.
  The statics (\<open>Cluster::settings\<close> among them) are fields of the manager, which is the first
  one of the process: a later one would start with what they hold by then.
\<close>

section \<open>State\<close>

text \<open>
  \<open>cl_input\<close> is the raw packet socket: \<open>None\<close> without a socket, otherwise the addresses it is
  connected to.
\<close>

record cluster_manager =
  settings :: cluster_settings
  open_clusters :: "cluster list"
  cl_file :: ofstream
  cl_input :: "string list option"
  cl_chunks :: int
  num_new_clusters :: int
  last_update_time :: "int option"
  cl_published :: "u64 list list"
  cl_log :: "log_entry list"
  cl_publish_endpoint :: string

definition init_cluster_manager :: "string \<Rightarrow> cluster_manager" where
  "init_cluster_manager endpoint =
     \<lparr>settings = default_settings, open_clusters = [], cl_file = fresh_stream, cl_input = None,
      cl_chunks = 0, num_new_clusters = 0, last_update_time = None, cl_published = [], cl_log = [],
      cl_publish_endpoint = endpoint\<rparr>"

definition cl_getPublishServerAddress :: "cluster_manager \<Rightarrow> string" where
  "cl_getPublishServerAddress m = local_address (cl_publish_endpoint m)"

definition ns_per_ms :: int where
  "ns_per_ms = 1000000"

section \<open>Operations\<close>

definition save_clusters :: "endian \<Rightarrow> u64 list \<Rightarrow> ofstream \<Rightarrow> ofstream" where
  "save_clusters e output f =
     (if output \<noteq> [] \<and> stream_good f
      then fold (\<lambda>cluster. stream_write (store e 8 (htonll e cluster))) output f
      else f)"

definition cl_handlePackets ::
  "endian \<Rightarrow> int \<Rightarrow> int \<Rightarrow> u64 list \<Rightarrow> cluster_manager \<Rightarrow> cluster_manager result" where
  "cl_handlePackets e start now data m =
     and_then (process_clicks (settings m) (open_clusters m, []) (map (\<lambda>v. \<lparr>raw_value = v\<rparr>) data))
       (\<lambda>(cs, output).
         let updated = (case last_update_time m of None \<Rightarrow> start | Some t \<Rightarrow> t);
             new = i32 (num_new_clusters m + int (length output));
             m1 = (if 1000 < duration_cast ns_per_ms (now - updated)
                   then m\<lparr>open_clusters := cs, num_new_clusters := 0, cl_chunks := 0,
                          last_update_time := Some now,
                          cl_log := cl_log m @ [Log (''Clusters: ['' @ to_string (cl_chunks m) @ ''] '' @
                            to_string new @ '' clusters/s; '' @ to_string (int (length cs)) @
                            '' clusters are still in progress'')]\<rparr>
                   else m\<lparr>open_clusters := cs, num_new_clusters := new, last_update_time := Some updated\<rparr>)
         in Inr (m1\<lparr>cl_file := save_clusters e output (cl_file m1),
                    cl_published := cl_published m1 @ [output]\<rparr>))"

definition cl_poll ::
  "endian \<Rightarrow> int \<Rightarrow> int \<Rightarrow> incoming \<Rightarrow> cluster_manager \<Rightarrow> cluster_manager result" where
  "cl_poll e start now event m =
     (if cl_input m = None then Inr m
      else case event of
             Nothing_Waiting \<Rightarrow> Inr m
           | Receive_Throws \<Rightarrow> Inr (m\<lparr>cl_log := cl_log m @
               [Warn ''Error occured while handling packets in clustering thread'']\<rparr>)
           | Received msg \<Rightarrow>
               let m1 = m\<lparr>cl_chunks := i32 (cl_chunks m + 1)\<rparr>
               in if length msg = 0 then Inr m1
                  else cl_handlePackets e start now (load_words e 8 (length msg div 8) msg) m1)"

definition cl_flush :: "cluster_manager \<Rightarrow> cluster_manager result" where
  "cl_flush m =
     and_then (map_result to_raw_value (open_clusters m)) (\<lambda>output.
       Inr (m\<lparr>open_clusters := [], cl_published := cl_published m @ [output]\<rparr>))"

text \<open>The last parameter is an \<open>int\<close> stored in a \<open>size_t\<close>: a negative one becomes huge.\<close>

definition cl_setClusterParameters :: "int \<Rightarrow> int \<Rightarrow> int \<Rightarrow> cluster_manager \<Rightarrow> cluster_manager" where
  "cl_setClusterParameters max_sep_xy max_sep_t max_t_sep m =
     m\<lparr>settings := \<lparr>xy_sep = max_sep_xy, t_sep = max_sep_t, max_t_separation = word_of_int max_t_sep\<rparr>\<rparr>"

definition cl_set_file :: "(string \<Rightarrow> bool) \<Rightarrow> string \<Rightarrow> ofstream \<Rightarrow> ofstream \<times> bool" where
  "cl_set_file can_open path f =
     (let f1 = (if is_open f then stream_close f else f)
      in if path = [] then (f1, True)
         else let f2 = stream_write (ascii ''CLUSTERS'') (stream_open (can_open path) f1)
              in (f2, is_open f2))"

definition cl_setSaveFile ::
  "(string \<Rightarrow> bool) \<Rightarrow> string \<Rightarrow> cluster_manager \<Rightarrow> cluster_manager \<times> bool" where
  "cl_setSaveFile can_open path m =
     (let (f, ok) = cl_set_file can_open path (cl_file m);
          m1 = m\<lparr>cl_file := f\<rparr>
      in if ok \<and> path \<noteq> []
         then (m1\<lparr>cl_log := cl_log m1 @ [Log (''Saving clusters to '' @ path)]\<rparr>, True)
         else (m1, ok))"

text \<open>
  A connection that fails is reported and forgotten by the caller: the exception stops here,
  and the socket stays without a connection.
\<close>

definition cl_setRawPacketServerAddress ::
  "(string \<Rightarrow> bool) \<Rightarrow> string \<Rightarrow> cluster_manager \<Rightarrow> cluster_manager" where
  "cl_setRawPacketServerAddress can_connect path m =
     (let m1 = m\<lparr>cl_input := None\<rparr>
      in if path = [] then m1
         else if can_connect path
         then m1\<lparr>cl_input := Some [path], cl_log := cl_log m1 @
                [Log (''Connected clustering server to raw packet output at '' @ path)]\<rparr>
         else m1\<lparr>cl_input := Some [], cl_log := cl_log m1 @
                [Warn (''Unable to connect clustering server to raw packet output at '' @ path)]\<rparr>)"

interpretation cluster_save: save_file cl_set_file "ascii ''CLUSTERS''"
  by unfold_locales
    (auto simp: cl_set_file_def stream_open_def stream_close_def stream_write_def ascii_def Let_def)

section \<open>The clusters file\<close>

text \<open>The reader of the file: the header, then one big-endian 64-bit word per cluster.\<close>

definition read_cluster_file :: "bytes \<Rightarrow> u64 list option" where
  "read_cluster_file bs =
     (if take 8 bs \<noteq> ascii ''CLUSTERS'' \<or> length bs mod 8 \<noteq> 0 then None
      else Some (load_words Big 8 (length bs div 8 - 1) (drop 8 bs)))"

lemma save_clusters_open:
  assumes "is_open f" and "stream_good f"
  shows "save_clusters e out f = f\<lparr>contents := contents f @ concat (map (to_be 8) out)\<rparr>"
proof -
  have "fold (\<lambda>cluster. stream_write (store e 8 (htonll e cluster))) out f =
      f\<lparr>contents := contents f @ concat (map (to_be 8) out)\<rparr>"
    using assms
  proof (induction out arbitrary: f)
    case Nil
    then show ?case by simp
  next
    case (Cons c cs)
    have "stream_write (to_be 8 c) f = f\<lparr>contents := contents f @ to_be 8 c\<rparr>"
      using Cons.prems by (rule open_contents)
    moreover note Cons.IH [of "f\<lparr>contents := contents f @ to_be 8 c\<rparr>"]
    ultimately show ?case using Cons.prems by (simp add: store_htonll stream_good_def)
  qed
  then show ?thesis using assms by (cases "out = []") (simp_all add: save_clusters_def)
qed

lemma read_saved_clusters:
  "read_cluster_file (ascii ''CLUSTERS'' @ concat (map (to_be 8) cs)) = Some cs"
proof -
  have h: "length (ascii ''CLUSTERS'') = 8" by (simp add: ascii_def)
  have l: "length (concat (map (to_be 8) cs)) = 8 * length cs"
    by (rule concat_length_const) simp
  have "concat (map (to_be 8) cs) = store_words Big 8 cs"
    by (simp add: store_words_def store_def cong: map_cong)
  then have "load_words Big 8 (length cs) (concat (map (to_be 8) cs)) = cs"
    using load_words_store_words [of 8 "length cs" cs Big "[]"] by simp
  then show ?thesis by (simp add: read_cluster_file_def h l)
qed

section \<open>Runs of the manager\<close>

definition weighty :: "u64 list \<Rightarrow> bool" where
  "weighty vs \<longleftrightarrow> list_all (\<lambda>v. 0 < packet_tot \<lparr>raw_value = v\<rparr>) vs"

text \<open>
  What a step that handles the clicks \<open>data\<close> keeps and adds: \<open>vss\<close> are the messages it
  publishes, and \<open>saved\<close> tells if it also writes their clusters to the file.
\<close>

definition handled :: "int \<Rightarrow> cluster_manager \<Rightarrow> u64 list \<Rightarrow> bool \<Rightarrow> u64 list list \<Rightarrow> cluster_manager \<Rightarrow> bool" where
  "handled s m data saved vss m' \<longleftrightarrow> settings_ok (settings m') \<and>
     wf_clusters (s + 1023 * (int (length data) * (int (length (open_clusters m)) + int (length data))))
       (open_clusters m') \<and>
     length (open_clusters m') + length (concat vss) \<le> length (open_clusters m) + length data \<and>
     cl_published m' = cl_published m @ vss \<and>
     cl_file m' = (cl_file m)\<lparr>contents := contents (cl_file m) @
       (if saved then concat (map (to_be 8) (concat vss)) else [])\<rparr>"

lemma cl_handlePackets_handled:
  assumes "settings_ok (settings m)" and "weighty data" and "wf_clusters s (open_clusters m)"
    and "room s (length (open_clusters m)) (length data)"
    and "is_open (cl_file m)" and "stream_good (cl_file m)"
  shows "\<exists>m' vs. cl_handlePackets e start now data m = Inr m' \<and> handled s m data True [vs] m'"
proof -
  let ?ps = "map (\<lambda>v. \<lparr>raw_value = v\<rparr>) data"
  have "list_all (\<lambda>p. 0 < packet_tot p) ?ps"
    using assms(2) by (simp add: weighty_def list.pred_map comp_def)
  then obtain cs' vs where r: "process_clicks (settings m) (open_clusters m, []) ?ps = Inr (cs', vs)"
    "wf_clusters (s + 1023 * (int (length data) * (int (length (open_clusters m)) + int (length data)))) cs'"
    "length cs' + length vs \<le> length (open_clusters m) + length data"
    using process_clicks_wf [OF assms(1) _ assms(3), of ?ps "[]"] assms(4) by auto
  have f: "save_clusters e vs (cl_file m) = (cl_file m)\<lparr>contents := contents (cl_file m) @ concat (map (to_be 8) vs)\<rparr>"
    by (rule save_clusters_open [OF assms(5,6)])
  show ?thesis using r(2,3) assms(1) by (auto simp: cl_handlePackets_def r(1) f Let_def handled_def)
qed

lemma cl_flush_handled:
  assumes "settings_ok (settings m)" and "wf_clusters s (open_clusters m)" and "0 \<le> s"
  shows "\<exists>m' vs. cl_flush m = Inr m' \<and> handled s m [] False [vs] m'"
proof -
  have "list_all sound (open_clusters m)" using assms(2) by (simp add: wf_clusters_def all_sound_def)
  then obtain vs where vs: "map_result to_raw_value (open_clusters m) = Inr vs"
    using map_result_total [of "open_clusters m" to_raw_value] to_raw_value_total
    by (auto simp: list_all_iff)
  then show ?thesis using assms(1,3) by (auto simp: cl_flush_def handled_def map_result_length [OF vs])
qed

lemma wf_clusters_nonneg: "wf_clusters s cs \<Longrightarrow> 0 \<le> s"
  using total_weight_nonneg [of cs] by (simp add: wf_clusters_def all_sound_def)

text \<open>
  Any sequence of steps that each handle some clicks, or none: the whole sequence is handled,
  and the file holds what the steps that save have published.
\<close>

fun run_steps :: "('b \<Rightarrow> cluster_manager \<Rightarrow> cluster_manager result) \<Rightarrow> 'b list \<Rightarrow> cluster_manager \<Rightarrow> cluster_manager result" where
  "run_steps step [] m = Inr m"
| "run_steps step (b # bs) m = and_then (step b m) (run_steps step bs)"

definition saved_by :: "('b \<Rightarrow> bool) \<Rightarrow> 'b list \<Rightarrow> u64 list list list \<Rightarrow> u64 list" where
  "saved_by saves bs outs = concat (concat (map snd (filter (\<lambda>(b, vss). saves b) (zip bs outs))))"

locale batch_steps =
  fixes step :: "'b \<Rightarrow> cluster_manager \<Rightarrow> cluster_manager result"
    and clicks :: "'b \<Rightarrow> u64 list"
    and saves :: "'b \<Rightarrow> bool"
    and publishes :: "'b \<Rightarrow> u64 list list \<Rightarrow> bool"
    and ok :: "'b \<Rightarrow> bool"
    and I :: "cluster_manager \<Rightarrow> bool"
  assumes handles: "ok b \<Longrightarrow> settings_ok (settings m) \<Longrightarrow> weighty (clicks b) \<Longrightarrow> wf_clusters s (open_clusters m) \<Longrightarrow>
      room s (length (open_clusters m)) (length (clicks b)) \<Longrightarrow> is_open (cl_file m) \<Longrightarrow>
      stream_good (cl_file m) \<Longrightarrow> I m \<Longrightarrow>
      \<exists>m' vss. step b m = Inr m' \<and> I m' \<and> publishes b vss \<and> handled s m (clicks b) (saves b) vss m'"
begin

lemma run_steps_handled:
  assumes "list_all ok bs" and "settings_ok (settings m)" and "weighty (concat (map clicks bs))"
    and "wf_clusters s (open_clusters m)"
    and "room s (length (open_clusters m)) (length (concat (map clicks bs)))"
    and "is_open (cl_file m)" and "stream_good (cl_file m)" and "I m"
  shows "\<exists>m' outs. run_steps step bs m = Inr m' \<and> list_all2 publishes bs outs \<and>
    cl_published m' = cl_published m @ concat outs \<and>
    length (open_clusters m') + length (concat (concat outs)) \<le>
      length (open_clusters m) + length (concat (map clicks bs)) \<and>
    cl_file m' = (cl_file m)\<lparr>contents := contents (cl_file m) @ concat (map (to_be 8) (saved_by saves bs outs))\<rparr>"
  using assms
proof (induction bs arbitrary: m s)
  case Nil
  then show ?case by (simp add: saved_by_def)
next
  case (Cons b bs)
  let ?n = "length (open_clusters m)"
  have w: "ok b" "list_all ok bs" "weighty (clicks b)" "weighty (concat (map clicks bs))"
    using Cons.prems(1,3) by (simp_all add: weighty_def)
  have rm: "room s ?n (length (clicks b) + length (concat (map clicks bs)))" using Cons.prems(5) by simp
  obtain m1 vss where m1: "step b m = Inr m1" "I m1" "publishes b vss" "handled s m (clicks b) (saves b) vss m1"
    using handles [OF w(1) Cons.prems(2) w(3) Cons.prems(4) room_split(1) [OF rm order_refl] Cons.prems(6-8)] by blast
  note h = m1(4) [unfolded handled_def]
  then have "length (open_clusters m1) \<le> ?n + length (clicks b)" by simp
  note rest = room_split(2) [OF rm this]
  have "is_open (cl_file m1)" "stream_good (cl_file m1)"
    using Cons.prems(6,7) h by (simp_all add: stream_good_def)
  with Cons.IH [OF w(2) _ w(4) _ rest this m1(2)] h obtain m' outs where
    "run_steps step bs m1 = Inr m'" "list_all2 publishes bs outs" "cl_published m' = cl_published m1 @ concat outs"
    "length (open_clusters m') + length (concat (concat outs)) \<le>
      length (open_clusters m1) + length (concat (map clicks bs))"
    "cl_file m' = (cl_file m1)\<lparr>contents := contents (cl_file m1) @ concat (map (to_be 8) (saved_by saves bs outs))\<rparr>"
    by blast
  then show ?case using m1 h by (intro exI [of _ m'] exI [of _ "vss # outs"]) (simp add: saved_by_def)
qed

end

text \<open>The commands of the client that change what the manager does with clicks, and the messages it receives.\<close>

datatype cluster_event =
  Batch int int "u64 list"
| Flush
| Parameters int int int

fun cl_event :: "endian \<Rightarrow> cluster_event \<Rightarrow> cluster_manager \<Rightarrow> cluster_manager result" where
  "cl_event e (Batch start now data) m = cl_handlePackets e start now data m"
| "cl_event e Flush m = cl_flush m"
| "cl_event e (Parameters xy t max_t) m = Inr (cl_setClusterParameters xy t max_t m)"

fun clicks_in :: "cluster_event \<Rightarrow> u64 list" where
  "clicks_in (Batch start now data) = data"
| "clicks_in ev = []"

fun is_batch :: "cluster_event \<Rightarrow> bool" where
  "is_batch (Batch start now data) = True"
| "is_batch ev = False"

fun publishes :: "cluster_event \<Rightarrow> u64 list list \<Rightarrow> bool" where
  "publishes (Parameters xy t max_t) vss = (vss = [])"
| "publishes ev vss = (length vss = 1)"

text \<open>Parameters for which no computation wraps around.\<close>

fun parameters_ok :: "cluster_event \<Rightarrow> bool" where
  "parameters_ok (Parameters xy t max_t) =
     settings_ok \<lparr>xy_sep = xy, t_sep = t, max_t_separation = word_of_int max_t\<rparr>"
| "parameters_ok ev = True"

interpretation events: batch_steps "cl_event e" clicks_in is_batch publishes parameters_ok "\<lambda>m. True" for e
proof
  fix b and m :: cluster_manager and s
  assume ok: "parameters_ok b" "settings_ok (settings m)" "weighty (clicks_in b)" "wf_clusters s (open_clusters m)"
    "room s (length (open_clusters m)) (length (clicks_in b))" "is_open (cl_file m)" "stream_good (cl_file m)"
  show "\<exists>m' vss. cl_event e b m = Inr m' \<and> True \<and> publishes b vss \<and> handled s m (clicks_in b) (is_batch b) vss m'"
  proof (cases b)
    case (Batch start now data)
    then obtain m' vs where "cl_handlePackets e start now data m = Inr m'" "handled s m data True [vs] m'"
      using cl_handlePackets_handled [OF ok(2) _ ok(4) _ ok(6,7), of data e start now] ok(3,5) by auto
    with Batch show ?thesis by (intro exI [of _ m'] exI [of _ "[vs]"]) simp
  next
    case Flush
    obtain m' vs where "cl_flush m = Inr m'" "handled s m [] False [vs] m'"
      using cl_flush_handled [OF ok(2,4) wf_clusters_nonneg [OF ok(4)]] by blast
    with Flush show ?thesis by (intro exI [of _ m'] exI [of _ "[vs]"]) simp
  next
    case (Parameters xy t max_t)
    then show ?thesis using ok(1,4) by (intro exI [of _ "[]"] exI) (auto simp: cl_setClusterParameters_def handled_def)
  qed
qed

section \<open>Properties\<close>

text \<open>C11. Once a clusters file has been opened, a reader of it gets back exactly the clusters that
  the batches handled since have published, in order and whatever the host's byte order.  The
  clusters published by flushing in between are missing from it, and setting the parameters
  writes nothing.  The run succeeds if all settings are in range, the clicks have a positive
  time over threshold, the clusters open at the start are sound, and there is room for the
  weights.\<close>

theorem cluster_file_roundtrip:
  assumes "path \<noteq> []" and "can_open path" and "settings_ok (settings m)"
    and "wf_clusters s (open_clusters m)" and "list_all parameters_ok evs" and "weighty (concat (map clicks_in evs))"
    and "room s (length (open_clusters m)) (length (concat (map clicks_in evs)))"
  shows "\<exists>m' outs. run_steps (cl_event e) evs (fst (cl_setSaveFile can_open path m)) = Inr m' \<and>
    list_all2 publishes evs outs \<and> cl_published m' = cl_published m @ concat outs \<and>
    read_cluster_file (contents (cl_file m')) =
      Some (concat (concat (map snd (filter (\<lambda>(ev, vss). is_batch ev) (zip evs outs)))))"
proof -
  let ?m = "fst (cl_setSaveFile can_open path m)"
  have f: "cl_file ?m = \<lparr>is_open = True, failed = False, contents = ascii ''CLUSTERS''\<rparr>"
    using cluster_save.opened [where opens = can_open and path = path, OF assms(1,2)]
    by (simp add: cl_setSaveFile_def Let_def case_prod_beta)
  have same: "settings ?m = settings m" "open_clusters ?m = open_clusters m" "cl_published ?m = cl_published m"
    by (simp_all add: cl_setSaveFile_def Let_def case_prod_beta)
  obtain m' outs where "run_steps (cl_event e) evs ?m = Inr m'" "list_all2 publishes evs outs"
    "cl_published m' = cl_published ?m @ concat outs"
    "cl_file m' = (cl_file ?m)\<lparr>contents := contents (cl_file ?m) @ concat (map (to_be 8) (saved_by is_batch evs outs))\<rparr>"
    using events.run_steps_handled [OF assms(5), of ?m s e] assms(3,4,6,7) f same by (auto simp: stream_good_def)
  then show ?thesis using f same read_saved_clusters [of "saved_by is_batch evs outs"]
    by (auto simp: saved_by_def)
qed

theorem cluster_file_roundtrip_witness:
  "\<exists>m' outs. run_steps (cl_event Little)
      [Batch 0 0 [0x1020004000000064], Flush, Parameters 3 20 100, Batch 5 6 [0x1121008000020065]]
      (fst (cl_setSaveFile (\<lambda>p. True) ''c.bin'' (init_cluster_manager ''tcp://0.0.0.0:1''))) = Inr m' \<and>
    length outs = 4 \<and> read_cluster_file (contents (cl_file m')) = Some (concat (outs ! 0 @ outs ! 3))"
proof -
  let ?evs = "[Batch 0 0 [0x1020004000000064], Flush, Parameters 3 20 100, Batch 5 6 [0x1121008000020065]]"
  let ?m = "init_cluster_manager ''tcp://0.0.0.0:1''"
  have "weighty (concat (map clicks_in ?evs))" by (simp add: weighty_def packet_tot_def)
  moreover have "room 0 (length (open_clusters ?m)) (length (concat (map clicks_in ?evs)))"
    by (simp add: room_def init_cluster_manager_def weight_limit_def)
  moreover have "settings_ok (settings ?m)" "wf_clusters 0 (open_clusters ?m)" "list_all parameters_ok ?evs"
    by (simp_all add: init_cluster_manager_def default_settings_ok) (simp add: settings_ok_def)
  ultimately obtain m' outs where r: "run_steps (cl_event Little) ?evs
      (fst (cl_setSaveFile (\<lambda>p. True) ''c.bin'' ?m)) = Inr m'" "list_all2 publishes ?evs outs"
    "read_cluster_file (contents (cl_file m')) =
      Some (concat (concat (map snd (filter (\<lambda>(ev, vss). is_batch ev) (zip ?evs outs)))))"
    using cluster_file_roundtrip [of "''c.bin''" "\<lambda>p. True" ?m 0 ?evs Little] by blast
  from r(2) obtain o1 o2 o3 o4 where "outs = [o1, o2, o3, o4]" by (auto simp: list_all2_Cons1)
  with r(1,3) show ?thesis by (intro exI [of _ m'] exI [of _ outs]) simp
qed

text \<open>Flushing publishes every open cluster and leaves none open, but the flushed clusters
  are not written to the clusters file, even while one is being saved.\<close>

theorem flush_is_not_saved:
  assumes "list_all sound (open_clusters m)"
  shows "\<exists>m' vs. cl_flush m = Inr m' \<and> open_clusters m' = [] \<and>
    length vs = length (open_clusters m) \<and> cl_published m' = cl_published m @ [vs] \<and>
    cl_file m' = cl_file m"
proof -
  obtain vs where vs: "map_result to_raw_value (open_clusters m) = Inr vs"
    using map_result_total [of "open_clusters m" to_raw_value] assms to_raw_value_total
    by (auto simp: list_all_iff)
  then show ?thesis by (auto simp: cl_flush_def map_result_length [OF vs])
qed

theorem flush_is_not_saved_witness:
  "\<exists>m' vs. cl_flush ((init_cluster_manager ''tcp://0.0.0.0:1'')
      \<lparr>open_clusters := [new_cluster default_settings \<lparr>raw_value = 0x1020004000000064\<rparr>],
       cl_file := \<lparr>is_open = True, failed = False, contents = ascii ''CLUSTERS''\<rparr>\<rparr>) = Inr m' \<and>
    length vs = 1 \<and> cl_published m' = [vs] \<and> contents (cl_file m') = ascii ''CLUSTERS''"
proof -
  let ?p = "\<lparr>raw_value = 0x1020004000000064\<rparr>"
  have "sound (new_cluster default_settings ?p)"
    by (rule sound_new [OF default_settings_ok]) (simp add: packet_tot_def)
  then show ?thesis
    using flush_is_not_saved [of "(init_cluster_manager ''tcp://0.0.0.0:1'')
      \<lparr>open_clusters := [new_cluster default_settings ?p],
       cl_file := \<lparr>is_open = True, failed = False, contents = ascii ''CLUSTERS''\<rparr>\<rparr>"]
    by (auto simp: init_cluster_manager_def)
qed

end
