(* ===== verification/ClusterThread.thy ===== *)
theory ClusterThread
  imports ClusterManager
begin

text \<open>
  \<open>ClusterThread\<close> (src/server/ClusterThread.cpp): the commands of the clustering thread on
  top of \<open>ClusteringManager\<close>.  Undefined behaviour is possible in two of them and is kept as
  a fault: \<open>SET_CLUSTER_PARAMETERS\<close> with fewer than three words, and a flush of a cluster
  without a centroid.
\<close>

type_synonym cluster_thread = "cluster_manager secondary"

abbreviation on_clusters :: "cluster_manager \<Rightarrow> cluster_thread \<Rightarrow> cluster_thread" where
  "on_clusters m t \<equiv> t\<lparr>manager := m\<rparr>"

definition sendClusterServerPath :: "host \<Rightarrow> u32 list \<Rightarrow> cluster_thread \<Rightarrow> cluster_thread result" where
  "sendClusterServerPath h data t =
     (if length data \<noteq> 0 then sendError h INVALID_COMMAND_DATA t
      else sendResponse h (pack_string (byte_order h) (cl_getPublishServerAddress (manager t))) t)"

text \<open>The manager's exception never leaves it, so the handler's own \<open>catch\<close> is not reached.\<close>

definition setClusterInputServer :: "host \<Rightarrow> u32 list \<Rightarrow> cluster_thread \<Rightarrow> cluster_thread result" where
  "setClusterInputServer h data t =
     sendResponse h data
       (on_clusters (cl_setRawPacketServerAddress (connects h) (path_of_data data) (manager t)) t)"

definition setClusterParameters :: "host \<Rightarrow> u32 list \<Rightarrow> cluster_thread \<Rightarrow> cluster_thread result" where
  "setClusterParameters h data t =
     (if length data < 3 then Inl Out_Of_Bounds
      else sendResponse h data
        (on_clusters (cl_setClusterParameters (sint (data ! 0)) (sint (data ! 1)) (sint (data ! 2)) (manager t)) t))"

definition flushClusters :: "host \<Rightarrow> u32 list \<Rightarrow> cluster_thread \<Rightarrow> cluster_thread result" where
  "flushClusters h data t =
     (if length data \<noteq> 0 then sendError h INVALID_COMMAND_DATA t
      else and_then (cl_flush (manager t)) (\<lambda>m. sendResponse h [] (on_clusters m t)))"

definition setClusterPath :: "host \<Rightarrow> u32 list \<Rightarrow> cluster_thread \<Rightarrow> cluster_thread result" where
  "setClusterPath h data t =
     (let s = path_of_data data;
          (m, ok) = cl_setSaveFile (opens h) s (manager t);
          t1 = on_clusters m t
      in if ok then sendResponse h data t1
         else sendError h CANT_OPEN_FILE
           (t1\<lparr>th_log := th_log t1 @ [Warn (''Unable to open path \"'' @ s @ ''\" for cluster output'')]\<rparr>))"

definition cluster_handleCommand :: "cluster_manager handler" where
  "cluster_handleCommand h cmd data t =
     (if cmd = GET_CLUSTER_SERVER_PATH then sendClusterServerPath h data t
      else if cmd = SET_CLUSTER_INPUT_SERVER then setClusterInputServer h data t
      else if cmd = SET_CLUSTER_PARAMETERS then setClusterParameters h data t
      else if cmd = FLUSH_CLUSTERS then flushClusters h data t
      else if cmd = SET_CLUSTER_PATH then setClusterPath h data t
      else sendError h UNKNOWN_COMMAND t)"

text \<open>One turn of \<open>execute\<close>: a command, then a batch of packets.\<close>

definition cluster_turn ::
  "int \<times> string \<Rightarrow> host \<Rightarrow> bytes option \<Rightarrow> int \<Rightarrow> int \<Rightarrow> incoming \<Rightarrow> cluster_thread \<Rightarrow> cluster_thread result"
where
  "cluster_turn ex h waiting start now event t =
     (if th_cancelled t then Inr t
      else and_then (pollCommands cluster_handleCommand ex h waiting t) (\<lambda>t1.
        and_then (cl_poll (byte_order h) start now event (manager t1)) (\<lambda>m. Inr (on_clusters m t1))))"

definition new_cluster_thread :: "string \<Rightarrow> string \<Rightarrow> cluster_thread" where
  "new_cluster_thread endpoint publish = start_thread (init_cluster_manager publish) endpoint"

definition cluster_execute ::
  "int \<times> string \<Rightarrow> host \<Rightarrow> string \<Rightarrow> (bytes option \<times> int \<times> int \<times> incoming) turn list \<Rightarrow>
     cluster_thread \<Rightarrow> cluster_thread result" where
  "cluster_execute ex h publish evs t =
     run_thread ''Clustering server started'' ''Clustering''
       (\<lambda>(waiting, start, now, event). cluster_turn ex h waiting start now event)
       (init_cluster_manager publish) evs t"

section \<open>Every command is answered once\<close>

lemmas cluster_handler_defs = cluster_handleCommand_def sendClusterServerPath_def
  setClusterInputServer_def setClusterParameters_def flushClusters_def setClusterPath_def

lemma map_result_raw_fault: "map_result to_raw_value cs = Inl f \<Longrightarrow> f = Bad_Cast"
  by (induction cs)
    (auto simp: and_then_eq_Inl to_raw_value_def dbl_to_u64_def Let_def split: dbl.splits if_splits)

lemma cl_flush_fault: "cl_flush m = Inl f \<Longrightarrow> f = Bad_Cast"
  using map_result_raw_fault [of "open_clusters m"] by (auto simp: cl_flush_def and_then_eq_Inl)

interpretation cluster_commands: command_thread cluster_handleCommand
proof
  fix t t' :: cluster_thread and cmd h data
  show "owing (socket t) \<Longrightarrow> mLastCommand t = cmd \<Longrightarrow> cluster_handleCommand h cmd data t = Inr t' \<Longrightarrow>
      \<not> owing (socket t') \<and> (\<exists>msg. answers (socket t') = answers (socket t) @ [msg] \<and> answer_to h cmd msg)"
    by (auto simp: cluster_handler_defs Let_def case_prod_beta sendResponse_owing sendError_owing
        and_then_eq_Inr thread_errors_simps split: if_splits)
  show "owing (socket t) \<Longrightarrow> cluster_handleCommand h cmd data t = Inl f \<Longrightarrow> f = Out_Of_Bounds \<or> f = Bad_Cast" for f
    by (auto simp: cluster_handler_defs Let_def case_prod_beta sendResponse_owing sendError_owing
        and_then_eq_Inl split: if_splits dest: cl_flush_fault)
  show "cluster_handleCommand h cmd data t = Inr t' \<Longrightarrow> th_cancelled t' = th_cancelled t"
    by (auto simp: cluster_handler_defs Let_def case_prod_beta and_then_eq_Inr split: if_splits
        dest!: sendResponse_cancelled sendError_cancelled)
qed

text \<open>When no command runs into undefined behaviour.\<close>

definition cluster_command_ok :: "server_command \<Rightarrow> u32 list \<Rightarrow> cluster_thread \<Rightarrow> bool" where
  "cluster_command_ok cmd data t \<longleftrightarrow>
     (cmd = SET_CLUSTER_PARAMETERS \<longrightarrow> 3 \<le> length data) \<and>
     (cmd = FLUSH_CLUSTERS \<longrightarrow> list_all sound (open_clusters (manager t)))"

lemma cl_flush_total: "list_all sound (open_clusters m) \<Longrightarrow> \<exists>m'. cl_flush m = Inr m'"
  using map_result_total [of "open_clusters m" to_raw_value] to_raw_value_total
  by (fastforce simp: cl_flush_def list_all_iff)

lemma cluster_handler_total:
  assumes "owing (socket t)" and "cluster_command_ok cmd data t"
  shows "\<exists>t'. cluster_handleCommand h cmd data t = Inr t'"
  using assms cl_flush_total [of "manager t"]
  by (auto simp: cluster_handler_defs cluster_command_ok_def Let_def case_prod_beta
      sendResponse_owing sendError_owing)

section \<open>Properties\<close>

text \<open>C18. Every well-formed command to the clustering thread is answered exactly once, with its
  own code or an error code - unless it sets the parameters with fewer than three words, or
  flushes a cluster that is not sound, as one without a centroid.\<close>

theorem cluster_thread_answers:
  assumes "\<not> owing (socket t)" and "4 * (length data + 1) < 2 ^ 32" and "cluster_command_ok cmd data t"
  shows "\<exists>t' msg. pollCommands cluster_handleCommand ex h (Some (message (byte_order h) cmd data)) t = Inr t' \<and>
    answers (socket t') = answers (socket t) @ [msg] \<and> answer_to h cmd msg \<and>
    \<not> owing (socket t') \<and> th_cancelled t' = th_cancelled t"
proof -
  let ?t = "t\<lparr>socket := (socket t)\<lparr>owing := True\<rparr>, mLastCommand := cmd\<rparr>"
  have "cluster_command_ok cmd data ?t" using assms(3) by (simp add: cluster_command_ok_def)
  then obtain t' where "cluster_handleCommand h cmd data ?t = Inr t'"
    using cluster_handler_total [of ?t cmd data h] by auto
  then have t': "pollCommands cluster_handleCommand ex h (Some (message (byte_order h) cmd data)) t = Inr t'"
    using assms(1) by (simp add: pollCommands_def rep_recv_def message_words [OF assms(2)] Let_def)
  with cluster_commands.poll_answers [OF assms(1,2) t'] show ?thesis by blast
qed

definition idle_cluster_thread :: cluster_thread where
  "idle_cluster_thread = start_thread (init_cluster_manager ''tcp://0.0.0.0:4003'') ''tcp://0.0.0.0:4002''"

definition cluster_test_host :: host where
  "cluster_test_host = \<lparr>byte_order = Big, opens = (\<lambda>p. False), connects = (\<lambda>p. False)\<rparr>"

theorem cluster_thread_answers_witness:
  "\<exists>t' msg. pollCommands cluster_handleCommand (156384763, ''EFSM'') cluster_test_host
      (Some (message Big SET_CLUSTER_PARAMETERS [8, 40, 0xFFFFFFFF])) idle_cluster_thread = Inr t' \<and>
    answers (socket t') = [msg] \<and> answer_to cluster_test_host SET_CLUSTER_PARAMETERS msg"
  using cluster_thread_answers [of idle_cluster_thread "[8, 40, 0xFFFFFFFF]" SET_CLUSTER_PARAMETERS
      "(156384763, ''EFSM'')" cluster_test_host]
  by (auto simp: idle_cluster_thread_def start_thread_def fresh_rep_def cluster_test_host_def
      cluster_command_ok_def)

text \<open>A short \<open>SET_CLUSTER_PARAMETERS\<close> reads past the end of its data.\<close>

theorem short_parameters_fault:
  "length data < 3 \<Longrightarrow> cluster_handleCommand h SET_CLUSTER_PARAMETERS data t = Inl Out_Of_Bounds"
  by (simp add: cluster_handleCommand_def setClusterParameters_def)

theorem short_parameters_fault_witness:
  "cluster_handleCommand cluster_test_host SET_CLUSTER_PARAMETERS [5, 20] idle_cluster_thread = Inl Out_Of_Bounds"
  by (rule short_parameters_fault) simp

text \<open>Setting the input server is answered as a success even when the connection fails; the
  thread is then left with a socket that is connected to nothing.\<close>

theorem failed_input_reported_as_success:
  assumes "owing (socket t)" and "mLastCommand t = SET_CLUSTER_INPUT_SERVER"
    and "path_of_data data \<noteq> []" and "\<not> connects h (path_of_data data)"
  shows "\<exists>t'. cluster_handleCommand h SET_CLUSTER_INPUT_SERVER data t = Inr t' \<and>
    answers (socket t') = answers (socket t) @ [message (byte_order h) SET_CLUSTER_INPUT_SERVER data] \<and>
    cl_input (manager t') = Some []"
  using assms
  by (simp add: cluster_handleCommand_def setClusterInputServer_def sendResponse_owing
      cl_setRawPacketServerAddress_def Let_def)

theorem failed_input_reported_as_success_witness:
  "\<exists>t'. cluster_handleCommand cluster_test_host SET_CLUSTER_INPUT_SERVER (data_of_path ''x'')
      (idle_cluster_thread\<lparr>socket := \<lparr>owing = True, answers = []\<rparr>, mLastCommand := SET_CLUSTER_INPUT_SERVER\<rparr>)
      = Inr t' \<and>
    answers (socket t') = [message Big SET_CLUSTER_INPUT_SERVER (data_of_path ''x'')] \<and> cl_input (manager t') = Some []"
  using failed_input_reported_as_success [of "idle_cluster_thread\<lparr>socket := \<lparr>owing = True, answers = []\<rparr>,
      mLastCommand := SET_CLUSTER_INPUT_SERVER\<rparr>" "data_of_path ''x''" cluster_test_host]
  by (simp add: cluster_test_host_def path_of_data_of_path)

end
