(* ===== verification/Histogram.thy ===== *)
theory Histogram
  imports Clustering Secondary
begin

text \<open>
  \<open>HistogramManager\<close> and \<open>HistogramThread\<close> (src/server/HistogramManager.cpp and
  HistogramThread.cpp): a 256 by 256 image of 16-bit counters, filled from clicks or
  clusters and published and cleared periodically.  \<open>now\<close> is the clock after a message has
  been counted, in nanoseconds.
\<close>

section \<open>State\<close>

definition hist_size :: nat where
  "hist_size = 256 * 256"

record histogram_manager =
  mHistogram :: "u16 list"
  mOutputPeriod :: int
  mLastOutputTime :: int
  hist_input :: "string list option"
  hist_published :: "u16 list list"
  hist_log :: "log_entry list"
  hist_publish_endpoint :: string

definition init_histogram_manager :: "int \<Rightarrow> string \<Rightarrow> histogram_manager" where
  "init_histogram_manager now endpoint =
     \<lparr>mHistogram = replicate hist_size 0, mOutputPeriod = 1000, mLastOutputTime = now,
      hist_input = None, hist_published = [], hist_log = [], hist_publish_endpoint = endpoint\<rparr>"

section \<open>Operations\<close>

definition hist_index :: "u64 \<Rightarrow> nat" where
  "hist_index packet =
     (let x = drop_bit 56 packet AND 0xFF; y = drop_bit 48 packet AND 0xFF in unat (x + y * 256))"

fun hist_handlePackets :: "u64 list \<Rightarrow> u16 list \<Rightarrow> u16 list result" where
  "hist_handlePackets [] h = Inr h"
| "hist_handlePackets (packet # data) h =
     (let ix = hist_index packet
      in if ix < length h then hist_handlePackets data (h[ix := h ! ix + 1]) else Inl Out_Of_Bounds)"

definition hist_ns_per_ms :: int where
  "hist_ns_per_ms = 1000000"

definition hist_poll ::
  "endian \<Rightarrow> int \<Rightarrow> incoming \<Rightarrow> histogram_manager \<Rightarrow> histogram_manager result" where
  "hist_poll e now event m =
     (if hist_input m = None then Inr m
      else case event of
             Nothing_Waiting \<Rightarrow> Inr m
           | Receive_Throws \<Rightarrow> Inr (m\<lparr>hist_log := hist_log m @
               [Warn ''Error occured while handling data in histogram thread'']\<rparr>)
           | Received msg \<Rightarrow>
               if length msg = 0 then Inr m
               else and_then (hist_handlePackets (load_words e 8 (length msg div 8) msg) (mHistogram m))
                 (\<lambda>h. Inr
                    (if mOutputPeriod m \<le> duration_cast hist_ns_per_ms (now - mLastOutputTime m)
                     then m\<lparr>mHistogram := replicate hist_size 0,
                            hist_published := hist_published m @ [h], mLastOutputTime := now\<rparr>
                     else m\<lparr>mHistogram := h\<rparr>)))"

definition hist_setInputServerAddress ::
  "(string \<Rightarrow> bool) \<Rightarrow> string \<Rightarrow> histogram_manager \<Rightarrow> histogram_manager" where
  "hist_setInputServerAddress can_connect path m =
     (let m1 = m\<lparr>hist_input := None\<rparr>
      in if path = [] then m1
         else if can_connect path
         then m1\<lparr>hist_input := Some [path], hist_log := hist_log m1 @
                [Log (''Connected histogram server to output at '' @ path)]\<rparr>
         else m1\<lparr>hist_input := Some [], hist_log := hist_log m1 @
                [Warn (''Unable to connect histogram server to output at '' @ path)]\<rparr>)"

definition hist_setOutputPeriod :: "int \<Rightarrow> histogram_manager \<Rightarrow> histogram_manager" where
  "hist_setOutputPeriod period_ms m =
     m\<lparr>hist_log := hist_log m @ [Log (''Setting output period to '' @ to_string period_ms)],
       mOutputPeriod := period_ms\<rparr>"

definition hist_getPublishServerAddress :: "histogram_manager \<Rightarrow> string" where
  "hist_getPublishServerAddress m = local_address (hist_publish_endpoint m)"

section \<open>Commands of the thread\<close>

type_synonym histogram_thread = "histogram_manager secondary"

definition sendHistogramServerPath :: "host \<Rightarrow> u32 list \<Rightarrow> histogram_thread \<Rightarrow> histogram_thread result" where
  "sendHistogramServerPath h data t =
     (if length data \<noteq> 0 then sendError h INVALID_COMMAND_DATA t
      else sendResponse h (pack_string (byte_order h) (hist_getPublishServerAddress (manager t))) t)"

definition setHistogramInputServer :: "host \<Rightarrow> u32 list \<Rightarrow> histogram_thread \<Rightarrow> histogram_thread result" where
  "setHistogramInputServer h data t =
     sendResponse h data
       (t\<lparr>manager := hist_setInputServerAddress (connects h) (path_of_data data) (manager t)\<rparr>)"

definition setHistogramOutputPeriod :: "host \<Rightarrow> u32 list \<Rightarrow> histogram_thread \<Rightarrow> histogram_thread result" where
  "setHistogramOutputPeriod h data t =
     (if length data \<noteq> 1 then sendError h INVALID_COMMAND_DATA t
      else sendResponse h data (t\<lparr>manager := hist_setOutputPeriod (sint (data ! 0)) (manager t)\<rparr>))"

definition histogram_handleCommand :: "histogram_manager handler" where
  "histogram_handleCommand h cmd data t =
     (if cmd = GET_HISTOGRAM_SERVER_PATH then sendHistogramServerPath h data t
      else if cmd = SET_HISTOGRAM_INPUT_SERVER then setHistogramInputServer h data t
      else if cmd = SET_HISTOGRAM_OUTPUT_PERIOD then setHistogramOutputPeriod h data t
      else sendError h UNKNOWN_COMMAND t)"

definition histogram_turn ::
  "int \<times> string \<Rightarrow> host \<Rightarrow> bytes option \<Rightarrow> int \<Rightarrow> incoming \<Rightarrow> histogram_thread \<Rightarrow> histogram_thread result"
where
  "histogram_turn ex h waiting now event t =
     (if th_cancelled t then Inr t
      else and_then (pollCommands histogram_handleCommand ex h waiting t) (\<lambda>t1.
        and_then (hist_poll (byte_order h) now event (manager t1)) (\<lambda>m. Inr (t1\<lparr>manager := m\<rparr>))))"

definition new_histogram_thread :: "int \<Rightarrow> string \<Rightarrow> string \<Rightarrow> histogram_thread" where
  "new_histogram_thread now endpoint publish = start_thread (init_histogram_manager now publish) endpoint"

definition histogram_execute ::
  "int \<times> string \<Rightarrow> host \<Rightarrow> int \<Rightarrow> string \<Rightarrow> (bytes option \<times> int \<times> incoming) turn list \<Rightarrow>
     histogram_thread \<Rightarrow> histogram_thread result" where
  "histogram_execute ex h start publish evs t =
     run_thread ''Histogram server started'' ''Histogram''
       (\<lambda>(waiting, now, event). histogram_turn ex h waiting now event)
       (init_histogram_manager start publish) evs t"

lemmas histogram_handler_defs = histogram_handleCommand_def sendHistogramServerPath_def
  setHistogramInputServer_def setHistogramOutputPeriod_def

lemma histogram_handler_total:
  "owing (socket t) \<Longrightarrow> \<exists>t'. histogram_handleCommand h cmd data t = Inr t'"
  by (simp add: histogram_handler_defs sendResponse_owing sendError_owing)

interpretation histogram_commands: command_thread histogram_handleCommand
proof
  fix t t' :: histogram_thread and cmd h data
  show "owing (socket t) \<Longrightarrow> mLastCommand t = cmd \<Longrightarrow> histogram_handleCommand h cmd data t = Inr t' \<Longrightarrow>
      \<not> owing (socket t') \<and> (\<exists>msg. answers (socket t') = answers (socket t) @ [msg] \<and> answer_to h cmd msg)"
    by (auto simp: histogram_handler_defs sendResponse_owing sendError_owing
        thread_errors_simps split: if_splits)
  show "owing (socket t) \<Longrightarrow> histogram_handleCommand h cmd data t = Inl f \<Longrightarrow> f = Out_Of_Bounds \<or> f = Bad_Cast" for f
    using histogram_handler_total [of t h cmd data] by auto
  show "histogram_handleCommand h cmd data t = Inr t' \<Longrightarrow> th_cancelled t' = th_cancelled t"
    by (auto simp: histogram_handler_defs split: if_splits
        dest!: sendResponse_cancelled sendError_cancelled)
qed

section \<open>Counting\<close>

lemma hist_index_sum:
  "hist_index p = unat (drop_bit 56 p AND 0xFF) + unat (drop_bit 48 p AND 0xFF) * 256"
  "unat (drop_bit 56 p AND 0xFF) < 256" "unat (drop_bit 48 p AND 0xFF) < 256"
proof -
  have le: "unat (w AND 0xFF :: u64) \<le> 255" for w
    using word_and_le1 [of w "0xFF"] by (simp add: word_le_nat_alt)
  show "unat (drop_bit 56 p AND 0xFF) < 256" "unat (drop_bit 48 p AND 0xFF) < 256"
    using le [of "drop_bit 56 p"] le [of "drop_bit 48 p"] by linarith+
  have "unat (a + b * 256) = unat a + unat b * 256" if "unat a \<le> 255" "unat b \<le> 255" for a b :: u64
    using that by (simp add: unat_word_ariths)
  from this [OF le le] show "hist_index p = unat (drop_bit 56 p AND 0xFF) + unat (drop_bit 48 p AND 0xFF) * 256"
    by (simp only: hist_index_def Let_def)
qed

lemma hist_index_bound: "hist_index p < hist_size"
  using hist_index_sum [of p] by (simp add: hist_size_def)

definition hits :: "nat \<Rightarrow> u64 list \<Rightarrow> nat" where
  "hits ix ps = length (filter (\<lambda>p. hist_index p = ix) ps)"

lemma hits_append [simp]: "hits ix (ps @ qs) = hits ix ps + hits ix qs"
  by (simp add: hits_def)

lemma hist_handlePackets_counts:
  assumes "length h = hist_size"
  shows "\<exists>h'. hist_handlePackets ps h = Inr h' \<and> length h' = hist_size \<and>
    (\<forall>ix < hist_size. h' ! ix = h ! ix + of_nat (hits ix ps))"
  using assms
proof (induction ps arbitrary: h)
  case Nil
  then show ?case by (simp add: hits_def)
next
  case (Cons p ps)
  have ix: "hist_index p < length h" using hist_index_bound [of p] Cons.prems by simp
  then show ?case
    using Cons.IH [of "h[hist_index p := h ! hist_index p + 1]"] Cons.prems
    by (auto simp: Let_def hits_def nth_list_update algebra_simps)
qed

section \<open>Runs\<close>

fun hist_run ::
  "endian \<Rightarrow> (int \<times> incoming) list \<Rightarrow> histogram_manager \<Rightarrow> histogram_manager result" where
  "hist_run e [] m = Inr m"
| "hist_run e ((now, event) # es) m = and_then (hist_poll e now event m) (hist_run e es)"

text \<open>The packets of the messages received during a run.\<close>

fun packets_in :: "endian \<Rightarrow> (int \<times> incoming) list \<Rightarrow> u64 list" where
  "packets_in e [] = []"
| "packets_in e ((now, event) # es) =
     (case event of Received msg \<Rightarrow> load_words e 8 (length msg div 8) msg | _ \<Rightarrow> []) @ packets_in e es"

definition counted :: "nat \<Rightarrow> histogram_manager \<Rightarrow> u16" where
  "counted ix m = sum_list (map (\<lambda>h. h ! ix) (hist_published m)) + mHistogram m ! ix"

lemma hist_poll_counts:
  assumes "length (mHistogram m) = hist_size" and "hist_input m \<noteq> None"
  shows "\<exists>m'. hist_poll e now event m = Inr m' \<and> length (mHistogram m') = hist_size \<and>
    hist_input m' \<noteq> None \<and>
    (\<forall>ix < hist_size. counted ix m' = counted ix m + of_nat (hits ix (packets_in e [(now, event)])))"
proof (cases event)
  case (Received msg)
  let ?ps = "load_words e 8 (length msg div 8) msg"
  obtain h where h: "hist_handlePackets ?ps (mHistogram m) = Inr h" "length h = hist_size"
    "\<forall>ix < hist_size. h ! ix = mHistogram m ! ix + of_nat (hits ix ?ps)"
    using hist_handlePackets_counts [OF assms(1)] by blast
  have none: "hits ix (load_words e 8 0 msg) = 0" for ix by (simp add: hits_def load_words_def)
  show ?thesis
    using h assms none Received by (auto simp: hist_poll_def counted_def hist_size_def)
qed (use assms in \<open>auto simp: hist_poll_def counted_def hits_def\<close>)

lemma hist_run_counts:
  assumes "length (mHistogram m) = hist_size" and "hist_input m \<noteq> None"
  shows "\<exists>m'. hist_run e es m = Inr m' \<and> length (mHistogram m') = hist_size \<and>
    (\<forall>ix < hist_size. counted ix m' = counted ix m + of_nat (hits ix (packets_in e es)))"
  using assms
proof (induction es arbitrary: m)
  case Nil
  then show ?case by (simp add: hits_def)
next
  case (Cons d es)
  obtain now event where d: "d = (now, event)" by (cases d)
  obtain m1 where m1: "hist_poll e now event m = Inr m1" "length (mHistogram m1) = hist_size"
    "hist_input m1 \<noteq> None"
    "\<forall>ix < hist_size. counted ix m1 = counted ix m + of_nat (hits ix (packets_in e [(now, event)]))"
    using hist_poll_counts [OF Cons.prems] by blast
  obtain m2 where m2: "hist_run e es m1 = Inr m2" "length (mHistogram m2) = hist_size"
    "\<forall>ix < hist_size. counted ix m2 = counted ix m1 + of_nat (hits ix (packets_in e es))"
    using Cons.IH [OF m1(2,3)] by blast
  have "hits ix (packets_in e (d # es)) = hits ix (packets_in e [(now, event)]) + hits ix (packets_in e es)" for ix
    by (simp add: d)
  then show ?case using m1 m2 by (simp add: d algebra_simps)
qed

lemma hist_index_pixel:
  assumes "x < 256" and "y < 256"
  shows "hist_index p = x + y * 256 \<longleftrightarrow> packet_x \<lparr>raw_value = p\<rparr> = int x \<and> packet_y \<lparr>raw_value = p\<rparr> = int y"
proof -
  define a where "a = unat (drop_bit 56 p AND 0xFF)"
  define c where "c = unat (drop_bit 48 p AND 0xFF)"
  have ac: "a < 256" "c < 256" "hist_index p = a + c * 256"
    using hist_index_sum [of p] by (simp_all only: a_def c_def)
  have xy: "packet_x \<lparr>raw_value = p\<rparr> = int a" "packet_y \<lparr>raw_value = p\<rparr> = int c"
    by (simp_all only: packet_x_def packet_y_def a_def c_def packet.select_convs uint_nat)
  have "a + c * 256 = x + y * 256 \<longleftrightarrow> a = x \<and> c = y"
  proof
    assume *: "a + c * 256 = x + y * 256"
    have "(a + c * 256) mod 256 = a" "(x + y * 256) mod 256 = x" using ac(1) assms(1) by simp_all
    with * have "a = x" by simp
    with * show "a = x \<and> c = y" by simp
  qed simp
  then show ?thesis unfolding ac(3) xy of_nat_eq_iff .
qed

definition listening_histogram :: "(string \<Rightarrow> bool) \<Rightarrow> string \<Rightarrow> int \<Rightarrow> string \<Rightarrow> histogram_manager" where
  "listening_histogram can input now publish = hist_setInputServerAddress can input (init_histogram_manager now publish)"

lemma histogram_counts:
  assumes "x < 256" and "y < 256" and "input \<noteq> []"
  shows "\<exists>m'. hist_run e es (listening_histogram can input t0 ep) = Inr m' \<and>
    sum_list (map (\<lambda>h. h ! (x + y * 256)) (hist_published m')) + mHistogram m' ! (x + y * 256) =
      of_nat (length (filter (\<lambda>p. packet_x \<lparr>raw_value = p\<rparr> = int x \<and> packet_y \<lparr>raw_value = p\<rparr> = int y)
        (packets_in e es)))"
proof -
  let ?m = "listening_histogram can input t0 ep"
  let ?ix = "x + y * 256"
  have ix: "?ix < hist_size" using assms(1,2) by (simp add: hist_size_def)
  have m: "length (mHistogram ?m) = hist_size" "hist_input ?m \<noteq> None" "counted ?ix ?m = 0"
    using ix assms(3)
    by (simp_all add: listening_histogram_def hist_setInputServerAddress_def init_histogram_manager_def counted_def Let_def)
  from hist_run_counts [OF m(1,2), of e es] m(3) ix show ?thesis
    by (auto simp: counted_def hits_def hist_index_pixel [OF assms(1,2)])
qed

section \<open>Properties\<close>

text \<open>C12. No click is lost or counted twice between histograms: over any run of polls every
  access to the image is in bounds, and for every pixel the published counts and the
  current one add up, modulo \<open>2 ^ 16\<close>, to the number of packets received for it.\<close>

theorem histogram_accounts_for_all:
  assumes "x < 256" and "y < 256"
  shows "\<exists>m'. hist_run e es (hist_setInputServerAddress can_connect (CHR ''t'' # path) (init_histogram_manager t0 ep)) = Inr m' \<and>
    sum_list (map (\<lambda>h. h ! (x + y * 256)) (hist_published m')) + mHistogram m' ! (x + y * 256) =
      of_nat (length (filter (\<lambda>p. packet_x \<lparr>raw_value = p\<rparr> = int x \<and> packet_y \<lparr>raw_value = p\<rparr> = int y)
        (packets_in e es)))"
  using histogram_counts [OF assms, of "CHR ''t'' # path" e es can_connect t0 ep]
  by (simp add: listening_histogram_def)

theorem histogram_accounts_for_all_witness:
  "\<exists>m'. hist_run Little [(5, Received [0, 0, 0, 0, 0, 0, 2, 1]), (2000000000, Received [0, 0, 0, 0, 0, 0, 2, 1])]
      (hist_setInputServerAddress (\<lambda>p. True) ''tcp://localhost:1'' (init_histogram_manager 0 ''tcp://0.0.0.0:2'')) = Inr m' \<and>
    sum_list (map (\<lambda>h. h ! (1 + 2 * 256)) (hist_published m')) + mHistogram m' ! (1 + 2 * 256) = 2"
  using histogram_accounts_for_all [of 1 2 Little "[(5, Received [0, 0, 0, 0, 0, 0, 2, 1]),
      (2000000000, Received [0, 0, 0, 0, 0, 0, 2, 1])]" "\<lambda>p. True" "''cp://localhost:1''" 0 "''tcp://0.0.0.0:2''"]
  by (simp add: load_words_def load_at_def load_def packet_x_def packet_y_def)

text \<open>Every well-formed command to the histogram thread is answered exactly once, with its
  own code or an error code.\<close>

theorem histogram_thread_answers:
  assumes "\<not> owing (socket t)" and "4 * (length data + 1) < 2 ^ 32"
  shows "\<exists>t' msg. pollCommands histogram_handleCommand ex h (Some (message (byte_order h) cmd data)) t = Inr t' \<and>
    answers (socket t') = answers (socket t) @ [msg] \<and> answer_to h cmd msg \<and>
    \<not> owing (socket t') \<and> th_cancelled t' = th_cancelled t"
proof -
  let ?t = "t\<lparr>socket := (socket t)\<lparr>owing := True\<rparr>, mLastCommand := cmd\<rparr>"
  obtain t' where "histogram_handleCommand h cmd data ?t = Inr t'"
    using histogram_handler_total [of ?t h cmd data] by auto
  then have t': "pollCommands histogram_handleCommand ex h (Some (message (byte_order h) cmd data)) t = Inr t'"
    using assms(1) by (simp add: pollCommands_def rep_recv_def message_words [OF assms(2)] Let_def)
  with histogram_commands.poll_answers [OF assms t'] show ?thesis by blast
qed

theorem histogram_thread_answers_witness:
  "\<exists>t' msg. pollCommands histogram_handleCommand (156384763, ''EFSM'')
      \<lparr>byte_order = Little, opens = (\<lambda>p. True), connects = (\<lambda>p. True)\<rparr>
      (Some (message Little GET_HISTOGRAM_SERVER_PATH []))
      (start_thread (init_histogram_manager 0 ''tcp://0.0.0.0:2'') ''tcp://0.0.0.0:3'') = Inr t' \<and>
    answers (socket t') = [msg]"
  using histogram_thread_answers [of "start_thread (init_histogram_manager 0 ''tcp://0.0.0.0:2'') ''tcp://0.0.0.0:3''"
      "[]" "(156384763, ''EFSM'')" "\<lparr>byte_order = Little, opens = (\<lambda>p. True), connects = (\<lambda>p. True)\<rparr>"
      GET_HISTOGRAM_SERVER_PATH]
  by (auto simp: start_thread_def fresh_rep_def)

end
