(* ===== verification/Server.thy ===== *)
theory Server
  imports Timepix UdpThread ClusterThread Histogram
begin

text \<open>
  The server's main thread: \<open>CommsThread\<close> (src/server/CommsThread.cpp), the client side
  \<open>PythonConnectionManager\<close> and the state machine of \<open>TimepixConnectionManager\<close>.  One
  iteration of the main loop is a function of the state and of what the outside provides:
  the asynchronous operations that have completed and the client's message.

  Assumptions about the libraries, all documented: at most the pending asynchronous
  operation completes; a REP socket alternates between receiving and sending; opening the
  client's socket and closing the Timepix's do not fail.  A forwarded command is answered
  by one poll of the thread behind the socket; when no thread polls that socket any more,
  the blocking receive never returns (\<open>Blocked\<close>).  \<open>mIsCancelled\<close> is set by the destructor
  only and is left out.
\<close>

section \<open>Tables\<close>

datatype client_action = Forward nat tpx_command | Pixel_Config | Bind_Udp_Port

definition command_map :: "(server_command \<times> client_action) list" where
  "command_map =
   [(NOP, Forward 0 CMD_NOP),
    (GET_SOFTWARE_VERSION, Forward 0 CMD_GET_SOFTWVERSION),
    (GET_FIRMWARE_VERSION, Forward 0 CMD_GET_FIRMWVERSION),
    (GET_CAMERA_ID, Forward 0 CMD_GET_CHIPBOARDID),
    (GET_DEVICE_IDS, Forward 0 CMD_GET_DEVICEIDS),
    (GET_LOCAL_TEMP, Forward 0 CMD_GET_LOCALTEMP),
    (GET_REMOTE_TEMP, Forward 0 CMD_GET_REMOTETEMP),
    (GET_FPGA_TEMP, Forward 0 CMD_GET_FPGATEMP),
    (GET_FAN_SPEED, Forward 0 CMD_GET_FANSPEED),
    (GET_PRESSURE, Forward 0 CMD_GET_PRESSURE),
    (GET_HUMIDITY, Forward 0 CMD_GET_HUMIDITY),
    (GET_SPIDR_ADC, Forward 1 CMD_GET_SPIDR_ADC),
    (SET_BIAS_VOLTAGE, Forward 1 CMD_SET_BIAS_ADJUST),
    (SET_BIAS_SUPPLY_ENABLED, Forward 1 CMD_BIAS_SUPPLY_ENA),
    (GET_DEVICE_PORT, Forward 0 CMD_GET_DEVICEPORT),
    (GET_SERVER_PORT, Forward 0 CMD_GET_SERVERPORT),
    (SET_SERVER_PORT, Forward 1 CMD_SET_SERVERPORT),
    (SET_TOA_DECODERS_ENABLED, Forward 1 CMD_DECODERS_ENA),
    (RESTART_TIMERS, Forward 0 CMD_RESTART_TIMERS),
    (RESET_TIMERS, Forward 0 CMD_RESET_TIMER),
    (RESET_PIXELS, Forward 0 CMD_RESET_PIXELS),
    (GET_SPIDR_REGISTER, Forward 1 CMD_GET_SPIDRREG),
    (SET_SPIDR_REGISTER, Forward 2 CMD_SET_SPIDRREG),
    (GET_PLL_CONFIG, Forward 0 CMD_GET_PLLCONFIG),
    (SET_PLL_CONFIG, Forward 1 CMD_SET_PLLCONFIG),
    (GET_HEADER_FILTER, Forward 0 CMD_GET_HEADERFILTER),
    (SET_HEADER_FILTER, Forward 1 CMD_SET_HEADERFILTER),
    (GET_GEN_CONFIG, Forward 0 CMD_GET_GENCONFIG),
    (SET_GEN_CONFIG, Forward 1 CMD_SET_GENCONFIG),
    (GET_PERIOD_PHASE, Forward 0 CMD_GET_TPPERIODPHASE),
    (SET_PERIOD_PHASE, Forward 1 CMD_SET_TPPERIODPHASE),
    (GET_TRIGGER_CONF, Forward 0 CMD_GET_TRIGCONFIG),
    (SET_TRIGGER_CONF, Forward 5 CMD_SET_TRIGCONFIG),
    (GET_DAC, Forward 1 CMD_GET_DAC),
    (SET_DAC, Forward 1 CMD_SET_DAC),
    (START_READOUT, Forward 0 CMD_DDRIVEN_READOUT),
    (STOP_READOUT, Forward 0 CMD_PAUSE_READOUT),
    (AUTOTRIG_START, Forward 0 CMD_AUTOTRIG_START),
    (AUTOTRIG_STOP, Forward 0 CMD_AUTOTRIG_STOP),
    (GET_PIXEL_CONFIG, Forward 1 CMD_GET_PIXCONF),
    (SET_PIXEL_CONFIG, Pixel_Config),
    (RESET_MODULE, Forward 1 CMD_RESET_MODULE),
    (GET_READOUT_SPEED, Forward 0 CMD_GET_READOUTSPEED),
    (SET_SENSEDAC, Forward 1 CMD_SET_SENSEDAC),
    (SET_UDP_PORT, Bind_Udp_Port)]"

definition udp_forward_commands :: "server_command list" where
  "udp_forward_commands = [SET_RAW_TPX3_PATH, GET_RAW_DATA_SERVER_PATH, RESET_TOA_ROLLOVER_COUNTER]"

definition cluster_forward_commands :: "server_command list" where
  "cluster_forward_commands =
     [GET_CLUSTER_SERVER_PATH, SET_CLUSTER_INPUT_SERVER, SET_CLUSTER_PARAMETERS, FLUSH_CLUSTERS,
      SET_CLUSTER_PATH]"

definition histogram_forward_commands :: "server_command list" where
  "histogram_forward_commands =
     [GET_HISTOGRAM_SERVER_PATH, SET_HISTOGRAM_INPUT_SERVER, SET_HISTOGRAM_OUTPUT_PERIOD]"

section \<open>State\<close>

text \<open>The asynchronous operation in progress on the Timepix socket.\<close>

datatype pending_op = Connecting | Sending | Reading

datatype exn = System_Error int string | Runtime_Error string

datatype phase = Running | Blocked | Stopped

record command_info =
  command :: tpx_command
  command_args :: "u32 list"
  sender :: nat

text \<open>
  The state is that of three objects, one record each: the Timepix manager, the client
  manager and the thread that owns both.  \<open>client_id\<close> tells the client managers apart that
  a run creates one after another; a pointer to a client manager is its number.  A thread
  field is \<open>None\<close> while the command socket is null; otherwise it is the thread behind that
  socket, alive or not.
\<close>

record tpx_manager =
  mIsConnected :: bool
  mIsExecutingCommand :: bool
  mLastCommandSource :: "nat option"
  mQueuedCommands :: "command_info list"
  mResponseBuffer :: bytes
  tpx_open :: bool
  tpx_pending :: "pending_op option"
  tpx_sent :: "bytes list"

record client_manager = tpx_manager +
  client_id :: nat
  client_socket :: rep_socket
  client_last :: server_command

record server = client_manager +
  comms_log :: "log_entry list"
  should_cancel :: bool
  mShouldResetClient :: bool
  phase :: phase
  udp_behind :: "udp_thread option"
  cluster_behind :: "cluster_thread option"
  histogram_behind :: "histogram_thread option"

abbreviation say :: "log_entry list \<Rightarrow> server \<Rightarrow> server" where
  "say es s \<equiv> s\<lparr>comms_log := comms_log s @ es\<rparr>"

abbreviation request_cancel :: "server \<Rightarrow> server" where
  "request_cancel s \<equiv> s\<lparr>should_cancel := True\<rparr>"

text \<open>
  What the outside provides in one iteration.  When the server connects, \<open>bind_error\<close> is the
  exception of opening the socket and binding it to the host's address, \<open>address_error\<close> that of
  reading the Timepix' address, and \<open>connect_error\<close> that of a blocking connect.  A fresh
  connection is drained: \<open>stale\<close> is what its reads return while something is available, and
  \<open>drain_error\<close> their exception.  \<open>close_error\<close> is the exception of closing the connection (one
  that is not established cannot be shut down), and \<open>open_error\<close> says that the client's port
  cannot be bound.
\<close>

record inputs =
  io_error :: "int \<times> string"
  client_message :: "bytes option"
  bind_error :: "string option"
  address_error :: "string option"
  connect_error :: "string option"
  stale :: "bytes list"
  drain_error :: "(int \<times> string) option"
  close_error :: "string option"
  open_error :: bool
  thread_endpoint :: string
  publish_endpoint :: string
  udp_bind_error :: "string option"
  clock :: int

section \<open>PythonConnectionManager: answers\<close>

definition client_sendResponse :: "host \<Rightarrow> u32 list \<Rightarrow> server \<Rightarrow> server result" where
  "client_sendResponse h data s =
     and_then (rep_send (message (byte_order h) (client_last s) data) (client_socket s))
       (\<lambda>sk. Inr (s\<lparr>client_socket := sk\<rparr>))"

definition client_sendError :: "host \<Rightarrow> server_command \<Rightarrow> server \<Rightarrow> server result" where
  "client_sendError h errcode s = client_sendResponse h [] (s\<lparr>client_last := errcode\<rparr>)"

text \<open>A call through a stored pointer to a client manager.\<close>

definition on_client :: "nat \<Rightarrow> (server \<Rightarrow> server result) \<Rightarrow> server \<Rightarrow> server result" where
  "on_client source f s = (if source = client_id s then f s else Inl Dangling)"

section \<open>TimepixConnectionManager\<close>

definition queueCommand :: "nat \<Rightarrow> tpx_command \<Rightarrow> u32 list \<Rightarrow> server \<Rightarrow> server" where
  "queueCommand source cmd data s =
     s\<lparr>mQueuedCommands := mQueuedCommands s @ [\<lparr>command = cmd, command_args = data, sender = source\<rparr>]\<rparr>"

definition sendCommand :: "host \<Rightarrow> tpx_command \<Rightarrow> u32 list \<Rightarrow> server \<Rightarrow> server result" where
  "sendCommand h cmd data s =
     and_then (command_bytes (byte_order h) cmd data False) (\<lambda>bs.
       Inr (s\<lparr>mIsExecutingCommand := True, tpx_pending := Some Sending, tpx_sent := tpx_sent s @ [bs]\<rparr>))"

definition terminateConnection :: "inputs \<Rightarrow> server \<Rightarrow> server" where
  "terminateConnection i s =
     (if tpx_open s
      then case close_error i of
             None \<Rightarrow> s\<lparr>tpx_open := False, tpx_pending := None\<rparr>
           | Some what \<Rightarrow> say [Warn ''Exception thrown while closing TCP connection'', Warn what] s
      else s)\<lparr>mIsConnected := False\<rparr>"

definition clearAnyClientRequest :: "host \<Rightarrow> server \<Rightarrow> server result" where
  "clearAnyClientRequest h s =
     (case mLastCommandSource s of
        None \<Rightarrow> Inr s
      | Some source \<Rightarrow>
          and_then (on_client source (client_sendError h ERROR_OCCURED) s)
            (\<lambda>s'. Inr (s'\<lparr>mLastCommandSource := None\<rparr>)))"

definition sendServerResetNotice :: "host \<Rightarrow> server \<Rightarrow> server result" where
  "sendServerResetNotice h s =
     (case mLastCommandSource s of
        None \<Rightarrow> Inr s
      | Some source \<Rightarrow>
          and_then (on_client source (client_sendError h SERVER_RESET) s)
            (\<lambda>s'. Inr (s'\<lparr>mLastCommandSource := None\<rparr>)))"

text \<open>What a read leaves in the response buffer.\<close>

definition into_buffer :: "bytes \<Rightarrow> bytes \<Rightarrow> bytes" where
  "into_buffer bs buf = (let got = take buffer_size bs in got @ drop (length got) buf)"

definition initializeConnection :: "inputs \<Rightarrow> (int \<times> string) option \<Rightarrow> server \<Rightarrow> server \<times> exn option" where
  "initializeConnection i err s =
     (case err of
        Some (code, what) \<Rightarrow> (s, Some (System_Error code what))
      | None \<Rightarrow>
          let s1 = s\<lparr>mIsConnected := True, mIsExecutingCommand := False,
                mResponseBuffer := fold into_buffer (stale i) (mResponseBuffer s)\<rparr>
          in (case drain_error i of
                Some (code, what) \<Rightarrow> (s1, Some (System_Error code what))
              | None \<Rightarrow> (say [Log ''Successfully connected.''] s1, None)))"

definition connection_failed :: "string \<Rightarrow> server \<Rightarrow> server" where
  "connection_failed what s =
     request_cancel (say [Err ''An unknown error occurred in the server thread.'',
       Err (newlines_to_br what)] s)"

text \<open>
  A new I/O context and socket replace the old ones; that an old socket which failed to close
  may still refer to the old context is left out.
\<close>

definition attemptConnection :: "inputs \<Rightarrow> bool \<Rightarrow> server \<Rightarrow> server" where
  "attemptConnection i wait s =
     (let s0 = s\<lparr>tpx_open := True, tpx_pending := None\<rparr>;
          s1 = say [Log ''Connecting to Timepix...''] s0
      in case (bind_error i, address_error i) of
           (Some what, _) \<Rightarrow> connection_failed what s0
         | (None, Some what) \<Rightarrow> connection_failed what s1
         | (None, None) \<Rightarrow>
             if \<not> wait then s1\<lparr>tpx_pending := Some Connecting\<rparr>
             else (case connect_error i of
                     Some what \<Rightarrow> connection_failed what s1
                   | None \<Rightarrow>
                       (case initializeConnection i None s1 of
                          (s2, Some (System_Error code what)) \<Rightarrow> connection_failed what s2
                        | (s2, _) \<Rightarrow> s2)))"

definition genericHandler :: "host \<Rightarrow> nat \<Rightarrow> nat \<Rightarrow> u32 list \<Rightarrow> server \<Rightarrow> server result" where
  "genericHandler h sz source data =
     on_client source
       (if length data \<noteq> sz then client_sendError h INVALID_COMMAND_DATA
        else client_sendResponse h data)"

definition processRecv ::
  "host \<Rightarrow> tpx_command \<Rightarrow> u32 list \<Rightarrow> server \<Rightarrow> (server \<times> exn option) result" where
  "processRecv h cmd data s =
     (case mLastCommandSource s of
        None \<Rightarrow> Inr (s, Some (Runtime_Error ''Received response, and there is no client!''))
      | Some source \<Rightarrow>
          and_then
            (case map_of handler_sizes cmd of
               None \<Rightarrow> Inr (say [Warn (''Did not recognise response from Timepix: '' @
                 to_string (uint (tpx_code cmd)))] s)
             | Some sz \<Rightarrow> genericHandler h sz source data s)
            (\<lambda>s1. if mQueuedCommands s1 = [] then Inl Out_Of_Bounds
              else Inr (s1\<lparr>mQueuedCommands := tl (mQueuedCommands s1), mIsExecutingCommand := False,
                           mLastCommandSource := None\<rparr>, None)))"

definition commandRecv ::
  "host \<Rightarrow> (int \<times> string) option \<Rightarrow> nat \<Rightarrow> server \<Rightarrow> (server \<times> exn option) result" where
  "commandRecv h err received s =
     (case err of
        Some (code, what) \<Rightarrow> Inr (s, Some (System_Error code what))
      | None \<Rightarrow>
          and_then (decode_reply (byte_order h) (mResponseBuffer s) received) (\<lambda>(es, reply).
            case reply of
              None \<Rightarrow> Inr (say es s, None)
            | Some (cmd, data) \<Rightarrow> processRecv h cmd data (say es s)))"

text \<open>
  A completed asynchronous operation.  Only the pending one can complete.  The error of a
  send is ignored; the bytes of a receive replace the front of the response buffer.
\<close>

datatype completion =
    Connect_Done "(int \<times> string) option"
  | Send_Done
  | Recv_Done "(int \<times> string) option" bytes

definition complete :: "host \<Rightarrow> inputs \<Rightarrow> completion \<Rightarrow> server \<Rightarrow> (server \<times> exn option) result" where
  "complete h i c s =
     (case (c, tpx_pending s) of
        (Connect_Done err, Some Connecting) \<Rightarrow> Inr (initializeConnection i err (s\<lparr>tpx_pending := None\<rparr>))
      | (Send_Done, Some Sending) \<Rightarrow> Inr (s\<lparr>tpx_pending := Some Reading\<rparr>, None)
      | (Recv_Done err bs, Some Reading) \<Rightarrow>
          commandRecv h err (length (take buffer_size bs))
            (s\<lparr>tpx_pending := None, mResponseBuffer := into_buffer bs (mResponseBuffer s)\<rparr>)
      | _ \<Rightarrow> Inr (s, None))"

fun run_io :: "host \<Rightarrow> inputs \<Rightarrow> completion list \<Rightarrow> server \<Rightarrow> (server \<times> exn option) result" where
  "run_io h i [] s = Inr (s, None)"
| "run_io h i (c # cs) s =
     and_then (complete h i c s) (\<lambda>(s', x). if x = None then run_io h i cs s' else Inr (s', x))"

text \<open>The body of \<open>poll\<close>'s \<open>try\<close>, and \<open>poll\<close> with its handler.\<close>

definition tpx_poll_body ::
  "host \<Rightarrow> inputs \<Rightarrow> completion list \<Rightarrow> server \<Rightarrow> (server \<times> exn option) result" where
  "tpx_poll_body h i cs s =
     (if mIsConnected s \<and> \<not> mIsExecutingCommand s \<and> mQueuedCommands s \<noteq> [] then
        let next = hd (mQueuedCommands s)
        in and_then (sendCommand h (command next) (command_args next) s) (\<lambda>s1.
             let s2 = s1\<lparr>mLastCommandSource := Some (sender next)\<rparr>
             in if command next = CMD_RESET_MODULE
                then and_then (on_client (sender next) (client_sendResponse h []) (terminateConnection i s2))
                  (\<lambda>s3. Inr (attemptConnection i True
                     (say [Log ''Resetting Timepix connection'']
                       (s3\<lparr>mQueuedCommands := tl (mQueuedCommands s3), mLastCommandSource := None\<rparr>)), None))
                else run_io h i cs s2)
      else run_io h i cs s)"

definition tpx_poll ::
  "host \<Rightarrow> inputs \<Rightarrow> completion list \<Rightarrow> server \<Rightarrow> (server \<times> exn option) result" where
  "tpx_poll h i cs s =
     and_then (tpx_poll_body h i cs s) (\<lambda>(s1, x).
       case x of
         Some (System_Error code what) \<Rightarrow>
           and_then
             (clearAnyClientRequest h (request_cancel (terminateConnection i
               (say [Err (''A network error occurred while communicating with the Timepix (errcode='' @
                       to_string code @ '')''), Err what] s1))))
             (\<lambda>s2. Inr (s2, None))
       | _ \<Rightarrow> Inr (s1, x))"


section \<open>CommsThread: the secondary threads\<close>

definition cancel_thread :: "'m secondary \<Rightarrow> 'm secondary" where
  "cancel_thread t = t\<lparr>th_cancelled := True\<rparr>"

text \<open>The manager is made by the new thread, which also opens its port.\<close>

definition new_udp_thread :: "inputs \<Rightarrow> udp_thread" where
  "new_udp_thread i =
     start_thread
       \<lparr>udp = udp_attemptConnection (udp_bind_error i) init_udp_manager,
        udp_publish_endpoint = publish_endpoint i\<rparr>
       (thread_endpoint i)"

definition bindUdpPort :: "inputs \<Rightarrow> server \<Rightarrow> server" where
  "bindUdpPort i s = s\<lparr>udp_behind := Some (new_udp_thread i)\<rparr>"

text \<open>The UDP thread is told to stop, but the socket to it stays.\<close>

definition resetClientConnection :: "server \<Rightarrow> server" where
  "resetClientConnection s =
     s\<lparr>mShouldResetClient := True, udp_behind := map_option cancel_thread (udp_behind s)\<rparr>"

text \<open>A command handed to the thread behind a socket: its answer, or \<open>None\<close> when it never comes.\<close>

definition ask_thread ::
  "'m handler \<Rightarrow> bool \<Rightarrow> int \<times> string \<Rightarrow> host \<Rightarrow> bytes \<Rightarrow> 'm secondary \<Rightarrow> (bytes option \<times> 'm secondary) result"
where
  "ask_thread handle alive ex h msg t =
     (if \<not> alive then Inr (None, t)
      else and_then (pollCommands handle ex h (Some msg) t) (\<lambda>t'.
        Inr (if length (answers (socket t)) < length (answers (socket t'))
             then Some (last (answers (socket t'))) else None, t')))"

definition udp_alive :: "udp_thread \<Rightarrow> bool" where
  "udp_alive t \<longleftrightarrow> \<not> th_cancelled t \<and> \<not> udp_cancelled (udp (manager t))"

section \<open>PythonConnectionManager: commands\<close>

definition genericForward :: "host \<Rightarrow> nat \<Rightarrow> tpx_command \<Rightarrow> u32 list \<Rightarrow> server \<Rightarrow> server result" where
  "genericForward h sz cmd data s =
     (if length data \<noteq> sz
      then client_sendError h INVALID_COMMAND_DATA
        (say [Warn (''An error occurred while executing command [0x'' @ to_hex (tpx_code cmd) @
           '']: expected command of size '' @ to_string (int sz) @ '', received '' @
           to_string (int (length data)))] s)
      else Inr (queueCommand (client_id s) cmd data s))"

text \<open>\<open>(data.size() - 1) % 48\<close> on a \<open>size_t\<close>: an empty vector wraps around.\<close>

definition sendPixelConfigData :: "host \<Rightarrow> u32 list \<Rightarrow> server \<Rightarrow> server result" where
  "sendPixelConfigData h data s =
     (if ((of_nat (length data) - 1 :: u64) mod 48) \<noteq> 0
      then client_sendError h INVALID_COMMAND_DATA s
      else Inr (queueCommand (client_id s) CMD_SET_PIXCONF data s))"

definition client_bindUdpPort :: "host \<Rightarrow> inputs \<Rightarrow> u32 list \<Rightarrow> server \<Rightarrow> server result" where
  "client_bindUdpPort h i data s =
     (if length data \<noteq> 1 then client_sendError h INVALID_COMMAND_DATA s
      else client_sendResponse h [] (bindUdpPort i s))"

definition run_action :: "host \<Rightarrow> inputs \<Rightarrow> client_action \<Rightarrow> u32 list \<Rightarrow> server \<Rightarrow> server result" where
  "run_action h i a data s =
     (case a of
        Forward sz cmd \<Rightarrow> genericForward h sz cmd data s
      | Pixel_Config \<Rightarrow> sendPixelConfigData h data s
      | Bind_Udp_Port \<Rightarrow> client_bindUdpPort h i data s)"

text \<open>The answer of the thread, as it is, goes to the client.\<close>

definition forward_answer :: "bytes option \<Rightarrow> server \<Rightarrow> server result" where
  "forward_answer reply s =
     (case reply of
        None \<Rightarrow> Inr (s\<lparr>phase := Blocked\<rparr>)
      | Some r \<Rightarrow> and_then (rep_send r (client_socket s)) (\<lambda>sk. Inr (s\<lparr>client_socket := sk\<rparr>)))"

definition forward_udp :: "host \<Rightarrow> inputs \<Rightarrow> bytes \<Rightarrow> server \<Rightarrow> server result" where
  "forward_udp h i msg s =
     (case udp_behind s of
        None \<Rightarrow> client_sendError h THREAD_NOT_STARTED s
      | Some t \<Rightarrow> and_then (ask_thread udp_handleCommand (udp_alive t) (io_error i) h msg t)
          (\<lambda>(reply, t'). forward_answer reply (s\<lparr>udp_behind := Some t'\<rparr>)))"

definition forward_cluster :: "host \<Rightarrow> inputs \<Rightarrow> bytes \<Rightarrow> server \<Rightarrow> server result" where
  "forward_cluster h i msg s =
     (case cluster_behind s of
        None \<Rightarrow> client_sendError h THREAD_NOT_STARTED s
      | Some t \<Rightarrow> and_then (ask_thread cluster_handleCommand (\<not> th_cancelled t) (io_error i) h msg t)
          (\<lambda>(reply, t'). forward_answer reply (s\<lparr>cluster_behind := Some t'\<rparr>)))"

definition forward_histogram :: "host \<Rightarrow> inputs \<Rightarrow> bytes \<Rightarrow> server \<Rightarrow> server result" where
  "forward_histogram h i msg s =
     (case histogram_behind s of
        None \<Rightarrow> client_sendError h THREAD_NOT_STARTED s
      | Some t \<Rightarrow> and_then (ask_thread histogram_handleCommand (\<not> th_cancelled t) (io_error i) h msg t)
          (\<lambda>(reply, t'). forward_answer reply (s\<lparr>histogram_behind := Some t'\<rparr>)))"

definition client_handleCommand :: "host \<Rightarrow> inputs \<Rightarrow> bytes \<Rightarrow> server \<Rightarrow> server result" where
  "client_handleCommand h i msg s =
     (if \<not> mIsConnected s then client_sendError h ERROR_OCCURED s
      else and_then (command_word (byte_order h) msg) (\<lambda>code.
        if misaligned msg then client_sendError h INVALID_COMMAND_DATA s
        else let cmd = ServerCommand code
             in case map_of command_map cmd of
                  Some a \<Rightarrow> run_action h i a (command_data (byte_order h) msg) (s\<lparr>client_last := cmd\<rparr>)
                | None \<Rightarrow>
                    if cmd \<in> set udp_forward_commands then forward_udp h i msg s
                    else if cmd \<in> set cluster_forward_commands then forward_cluster h i msg s
                    else if cmd \<in> set histogram_forward_commands then forward_histogram h i msg s
                    else client_sendError h UNKNOWN_COMMAND s))"

definition client_poll :: "host \<Rightarrow> inputs \<Rightarrow> server \<Rightarrow> server result" where
  "client_poll h i s =
     (case rep_recv (client_message i) (client_socket s) of
        Inl _ \<Rightarrow> Inr (resetClientConnection
          (say [Err (''An exception occurred in managing client connections (errcode='' @
             to_string (fst (io_error i)) @ '' - \"'' @ snd (io_error i) @ ''\")'')] s))
      | Inr (None, sk) \<Rightarrow> Inr s
      | Inr (Some msg, sk) \<Rightarrow> client_handleCommand h i msg (s\<lparr>client_socket := sk\<rparr>))"

section \<open>CommsThread: the main loop\<close>

definition open_client :: "server \<Rightarrow> server" where
  "open_client s =
     s\<lparr>client_id := Suc (client_id s), client_socket := fresh_rep, client_last := ERROR_OCCURED,
       mShouldResetClient := False\<rparr>"

definition shutdown :: "host \<Rightarrow> inputs \<Rightarrow> server \<Rightarrow> server result" where
  "shutdown h i s =
     and_then (clearAnyClientRequest h s) (\<lambda>s1.
       let s2 = terminateConnection i s1
       in Inr (say [Log ''Server thread shutting down'']
            (s2\<lparr>udp_behind := map_option cancel_thread (udp_behind s2),
                cluster_behind := map_option cancel_thread (cluster_behind s2),
                histogram_behind := map_option cancel_thread (histogram_behind s2),
                phase := Stopped\<rparr>)))"

text \<open>An exception that leaves \<open>execute\<close> ends the thread (\<open>BgThread::run\<close>), without the shutdown.\<close>

definition run_catch :: "server \<Rightarrow> server" where
  "run_catch s =
     say [Err ''An unknown exception has occurred. Shutting down server.''] (s\<lparr>phase := Stopped\<rparr>)"

text \<open>One iteration of the loop in \<open>execute\<close>, with the shutdown when the loop ends.\<close>

definition iterate :: "host \<Rightarrow> inputs \<Rightarrow> completion list \<Rightarrow> server \<Rightarrow> server result" where
  "iterate h i cs s =
     (if phase s \<noteq> Running then Inr s
      else if should_cancel s then shutdown h i s
      else if mShouldResetClient s \<and> open_error i then Inr (run_catch s)
      else and_then (tpx_poll h i cs (if mShouldResetClient s then open_client s else s)) (\<lambda>(s1, x).
        case x of
          Some (System_Error code what) \<Rightarrow>
            shutdown h i (say [Err (''A network error occurred while communicating with the Timepix (errcode='' @
                 to_string code @ '')''), Err what, Err ''Server is shutting down.''] s1)
        | Some (Runtime_Error what) \<Rightarrow>
            shutdown h i (request_cancel
              (say [Err ''An unknown error occurred:'', Err what, Err ''Server is shutting down.''] s1))
        | None \<Rightarrow> if mIsExecutingCommand s1 then Inr s1 else client_poll h i s1))"

section \<open>CommsThread: start\<close>

record comms_settings =
  host_ip :: string
  host_port :: u32
  timepix_ip :: string
  timepix_port :: u32
  outgoing_port :: u32

definition startup_text :: "comms_settings \<Rightarrow> string" where
  "startup_text st =
     ''Timepix server has started'' @
     ''<br>Host: '' @ host_ip st @ '':'' @ to_string (uint (host_port st)) @
     ''<br>Timepix: '' @ timepix_ip st @ '':'' @ to_string (uint (timepix_port st)) @
     ''<br>Outgoing data: tcp://localhost:'' @ to_string (uint (outgoing_port st))"

text \<open>A thread is made once; its two sockets bind to the endpoints given.\<close>

definition startClusterThread :: "string \<times> string \<Rightarrow> server \<Rightarrow> server" where
  "startClusterThread ends s =
     (if cluster_behind s \<noteq> None then s
      else s\<lparr>cluster_behind := Some (new_cluster_thread (fst ends) (snd ends))\<rparr>)"

definition startHistogramThread :: "int \<Rightarrow> string \<times> string \<Rightarrow> server \<Rightarrow> server" where
  "startHistogramThread now ends s =
     (if histogram_behind s \<noteq> None then s
      else s\<lparr>histogram_behind := Some (new_histogram_thread now (fst ends) (snd ends))\<rparr>)"

text \<open>The objects as constructed: no connection, no command, no secondary thread.\<close>

definition new_server :: server where
  "new_server =
     \<lparr>mIsConnected = False, mIsExecutingCommand = False, mLastCommandSource = None,
      mQueuedCommands = [], mResponseBuffer = replicate buffer_size 0, tpx_open = False,
      tpx_pending = None, tpx_sent = [], client_id = 0, client_socket = fresh_rep,
      client_last = ERROR_OCCURED, comms_log = [], should_cancel = False,
      mShouldResetClient = False, phase = Running, udp_behind = None, cluster_behind = None,
      histogram_behind = None\<rparr>"

text \<open>\<open>execute\<close> up to its loop.\<close>

definition initial_server ::
  "inputs \<Rightarrow> comms_settings \<Rightarrow> string \<times> string \<Rightarrow> string \<times> string \<Rightarrow> server" where
  "initial_server i st cluster_ends histogram_ends =
     (let s = attemptConnection i False (say [Log (startup_text st)] new_server)
      in if open_error i then run_catch s
         else startHistogramThread (clock i) histogram_ends (startClusterThread cluster_ends s))"

section \<open>Reachable states\<close>

text \<open>
  Between iterations the user can ask the server to stop, and the secondary threads take
  turns without a command of their own.
\<close>

inductive step :: "host \<Rightarrow> server \<Rightarrow> server \<Rightarrow> bool" for h where
  iteration: "iterate h i cs s = Inr s' \<Longrightarrow> step h s s'"
| cancelled: "step h s (request_cancel s)"
| udp_turn: "udp_behind s = Some t \<Longrightarrow> udp_turn ex h None ds t = Inr t' \<Longrightarrow>
    step h s (s\<lparr>udp_behind := Some t'\<rparr>)"
| cluster_turn: "cluster_behind s = Some t \<Longrightarrow> cluster_turn ex h None start now ev t = Inr t' \<Longrightarrow>
    step h s (s\<lparr>cluster_behind := Some t'\<rparr>)"
| histogram_turn: "histogram_behind s = Some t \<Longrightarrow> histogram_turn ex h None now ev t = Inr t' \<Longrightarrow>
    step h s (s\<lparr>histogram_behind := Some t'\<rparr>)"

inductive reachable :: "host \<Rightarrow> server \<Rightarrow> bool" for h where
  start: "reachable h (initial_server i st ce he)"
| step: "reachable h s \<Longrightarrow> step h s s' \<Longrightarrow> reachable h s'"

end
