(* ===== verification/ServerInvariant.thy ===== *)
theory ServerInvariant
  imports Server
begin

text \<open>
  The invariant of the main thread: between iterations it is quiet, or holds one queued
  command of a client that waits for the answer, or executes that command.  From it follow
  that the client socket is only used in turn and that no pointer to a client manager
  outlives it.
\<close>

section \<open>Safe computations\<close>

text \<open>No out-of-turn socket operation and no dangling pointer; and \<open>P\<close> of the result.\<close>

definition safe :: "'a result \<Rightarrow> ('a \<Rightarrow> bool) \<Rightarrow> bool" where
  "safe r P \<longleftrightarrow> (case r of Inl f \<Rightarrow> f = Out_Of_Bounds \<or> f = Bad_Cast | Inr x \<Rightarrow> P x)"

lemma safe_Inr [simp]: "safe (Inr x) P \<longleftrightarrow> P x"
  by (simp add: safe_def)

lemma safe_Inl [simp]: "safe (Inl f) P \<longleftrightarrow> f = Out_Of_Bounds \<or> f = Bad_Cast"
  by (simp add: safe_def)

lemma safe_then: "safe r P \<Longrightarrow> (\<And>x. P x \<Longrightarrow> safe (f x) Q) \<Longrightarrow> safe (and_then r f) Q"
  by (cases r) simp_all

lemma safe_mono: "safe r P \<Longrightarrow> (\<And>x. P x \<Longrightarrow> Q x) \<Longrightarrow> safe r Q"
  by (cases r) simp_all

section \<open>The invariant\<close>

definition threads_ok :: "server \<Rightarrow> bool" where
  "threads_ok s \<longleftrightarrow>
     (\<forall>t. udp_behind s = Some t \<longrightarrow> udp_alive t \<longrightarrow> \<not> owing (socket t)) \<and>
     (\<forall>t. cluster_behind s = Some t \<longrightarrow> \<not> th_cancelled t \<longrightarrow> \<not> owing (socket t)) \<and>
     (\<forall>t. histogram_behind s = Some t \<longrightarrow> \<not> th_cancelled t \<longrightarrow> \<not> owing (socket t))"

definition one_queued :: "server \<Rightarrow> bool" where
  "one_queued s \<longleftrightarrow> (\<exists>c. mQueuedCommands s = [c] \<and> sender c = client_id s)"

definition io_idle :: "server \<Rightarrow> bool" where
  "io_idle s \<longleftrightarrow> tpx_pending s \<noteq> Some Sending \<and> tpx_pending s \<noteq> Some Reading"

definition quiet :: "server \<Rightarrow> bool" where
  "quiet s \<longleftrightarrow> mLastCommandSource s = None \<and> mQueuedCommands s = [] \<and> io_idle s"

definition queued :: "server \<Rightarrow> bool" where
  "queued s \<longleftrightarrow> mLastCommandSource s = None \<and> one_queued s \<and> io_idle s \<and>
     mIsConnected s \<and> owing (client_socket s) \<and> \<not> mShouldResetClient s"

definition busy :: "server \<Rightarrow> bool" where
  "busy s \<longleftrightarrow> mLastCommandSource s = Some (client_id s) \<and> one_queued s \<and>
     tpx_pending s \<noteq> Some Connecting \<and> mIsConnected s \<and> owing (client_socket s) \<and> \<not> mShouldResetClient s"

definition source_ok :: "server \<Rightarrow> bool" where
  "source_ok s \<longleftrightarrow>
     mLastCommandSource s = None \<or> mLastCommandSource s = Some (client_id s) \<and> owing (client_socket s)"

definition server_inv :: "server \<Rightarrow> bool" where
  "server_inv s \<longleftrightarrow> threads_ok s \<and>
     (phase s = Running \<longrightarrow> source_ok s \<and>
       (\<not> should_cancel s \<longrightarrow> (if mIsExecutingCommand s then busy s else queued s \<or> quiet s)))"

text \<open>The invariant inside \<open>poll\<close>, while completions are handled.\<close>

definition polling :: "server \<Rightarrow> bool" where
  "polling s \<longleftrightarrow> threads_ok s \<and> phase s = Running \<and> \<not> mShouldResetClient s \<and>
     (if mIsExecutingCommand s then busy s else quiet s)"

text \<open>After \<open>poll\<close>: as \<open>polling\<close>, unless the server has been told to stop.\<close>

definition polled :: "server \<Rightarrow> bool" where
  "polled s \<longleftrightarrow> threads_ok s \<and> phase s = Running \<and> \<not> mShouldResetClient s \<and> source_ok s \<and>
     (if mIsExecutingCommand s then busy s \<or> should_cancel s else quiet s)"

lemmas mode_defs = quiet_def queued_def busy_def source_ok_def io_idle_def

lemma polling_source_ok: "polling s \<Longrightarrow> source_ok s"
  by (auto simp: polling_def mode_defs split: if_splits)

lemma threads_ok_frame [simp]:
  "threads_ok (s\<lparr>mIsConnected := b\<rparr>) = threads_ok s"
  "threads_ok (s\<lparr>mIsExecutingCommand := b\<rparr>) = threads_ok s"
  "threads_ok (s\<lparr>mLastCommandSource := src\<rparr>) = threads_ok s"
  "threads_ok (s\<lparr>mQueuedCommands := q\<rparr>) = threads_ok s"
  "threads_ok (s\<lparr>mResponseBuffer := bs\<rparr>) = threads_ok s"
  "threads_ok (s\<lparr>tpx_open := b\<rparr>) = threads_ok s"
  "threads_ok (s\<lparr>tpx_pending := op\<rparr>) = threads_ok s"
  "threads_ok (s\<lparr>tpx_sent := bss\<rparr>) = threads_ok s"
  "threads_ok (s\<lparr>client_id := k\<rparr>) = threads_ok s"
  "threads_ok (s\<lparr>client_socket := sk\<rparr>) = threads_ok s"
  "threads_ok (s\<lparr>client_last := c\<rparr>) = threads_ok s"
  "threads_ok (s\<lparr>comms_log := es\<rparr>) = threads_ok s"
  "threads_ok (s\<lparr>should_cancel := b\<rparr>) = threads_ok s"
  "threads_ok (s\<lparr>mShouldResetClient := b\<rparr>) = threads_ok s"
  "threads_ok (s\<lparr>phase := ph\<rparr>) = threads_ok s"
  by (simp_all add: threads_ok_def)

section \<open>Answers to the client\<close>

lemma sendResponse_client:
  "owing (client_socket s) \<Longrightarrow> client_sendResponse h data s =
     Inr (s\<lparr>client_socket := \<lparr>owing = False,
       answers = answers (client_socket s) @ [message (byte_order h) (client_last s) data]\<rparr>\<rparr>)"
  by (simp add: client_sendResponse_def rep_send_def)

lemma sendError_client:
  "owing (client_socket s) \<Longrightarrow> client_sendError h errcode s =
     Inr (s\<lparr>client_last := errcode, client_socket := \<lparr>owing = False,
       answers = answers (client_socket s) @ [message (byte_order h) errcode []]\<rparr>\<rparr>)"
  by (simp add: client_sendError_def sendResponse_client)

lemma clear_request:
  assumes "source_ok s"
  shows "\<exists>s'. clearAnyClientRequest h s = Inr s' \<and> mLastCommandSource s' = None \<and>
    threads_ok s' = threads_ok s \<and> phase s' = phase s \<and> should_cancel s' = should_cancel s \<and>
    mIsExecutingCommand s' = mIsExecutingCommand s \<and> mQueuedCommands s' = mQueuedCommands s \<and>
    tpx_pending s' = tpx_pending s \<and> client_id s' = client_id s \<and>
    mShouldResetClient s' = mShouldResetClient s"
  using assms
  by (auto simp: clearAnyClientRequest_def source_ok_def on_client_def sendError_client threads_ok_def
      split: option.splits)

section \<open>Completions\<close>

lemma genericHandler_busy:
  assumes "busy s"
  shows "genericHandler h sz (client_id s) data s =
    (if length data \<noteq> sz
     then Inr (s\<lparr>client_last := INVALID_COMMAND_DATA, client_socket := \<lparr>owing = False,
       answers = answers (client_socket s) @ [message (byte_order h) INVALID_COMMAND_DATA []]\<rparr>\<rparr>)
     else Inr (s\<lparr>client_socket := \<lparr>owing = False,
       answers = answers (client_socket s) @ [message (byte_order h) (client_last s) data]\<rparr>\<rparr>))"
  using assms by (simp add: genericHandler_def on_client_def sendResponse_client sendError_client busy_def)

lemma processRecv_polling:
  assumes "polling s" and "busy s" and "mIsExecutingCommand s" and "tpx_pending s = None"
  shows "safe (processRecv h cmd data s) (\<lambda>(s', x). polling s' \<and> x = None)"
proof -
  have src: "mLastCommandSource s = Some (client_id s)" using assms(2) by (simp add: busy_def)
  obtain c where q: "mQueuedCommands s = [c]" using assms(2) by (auto simp: busy_def one_queued_def)
  have t: "threads_ok s" "phase s = Running" "\<not> mShouldResetClient s"
    using assms(1) by (simp_all add: polling_def)
  show ?thesis
  proof (cases "map_of handler_sizes cmd")
    case None
    then show ?thesis using t assms(4)
      by (simp add: processRecv_def src q polling_def quiet_def io_idle_def threads_ok_def)
  next
    case (Some sz)
    then show ?thesis using t assms(4)
      by (simp add: processRecv_def src q genericHandler_busy [OF assms(2)] polling_def quiet_def
          io_idle_def threads_ok_def)
  qed
qed

lemma getErrorString_fault: "getErrorString w = Inl f \<Longrightarrow> f = Out_Of_Bounds"
  by (auto simp: getErrorString_def at_def Let_def and_then_eq_Inl split: if_splits)

lemma and_then_InlE:
  assumes "and_then r f = Inl e"
  obtains "r = Inl e" | x where "r = Inr x" "f x = Inl e"
  using assms by (auto simp: and_then_eq_Inl)

lemma error_report_fault: "error_report c w = Inl f \<Longrightarrow> f = Out_Of_Bounds"
  by (auto simp: error_report_def and_then_eq_Inl split: if_splits dest: getErrorString_fault)

lemma reply_data_fault: "reply_data e buf n = Inl f \<Longrightarrow> f = Out_Of_Bounds"
  by (simp add: reply_data_def split: if_splits)

lemma and_then_fault:
  assumes "and_then r g = Inl f" "r = Inl f \<Longrightarrow> P" "\<And>x. g x = Inl f \<Longrightarrow> P"
  shows P
  using assms by (cases r) auto

lemma decode_reply_fault:
  assumes "decode_reply e buf n = Inl f"
  shows "f = Out_Of_Bounds"
proof -
  let ?cmd = "reply_word e buf 0 XOR tpx_code CMD_REPLY"
  define d where "d = reply_data e buf (unat (reply_word e buf 1 - 16) div 4)"
  define r where "r = error_report ?cmd (reply_word e buf 2)"
  have d: "d = Inl g \<Longrightarrow> g = Out_Of_Bounds" and r: "r = Inl g \<Longrightarrow> g = Out_Of_Bounds" for g
    using reply_data_fault error_report_fault unfolding d_def r_def by blast+
  from assms show ?thesis
    unfolding decode_reply_def Let_def d_def [symmetric] r_def [symmetric]
    by (cases r; cases d) (auto simp only: and_then_simps sum.distinct sum.inject split: if_splits dest: d r)
qed

lemma complete_polling:
  assumes "polling s"
  shows "safe (complete h i c s) (\<lambda>(s', x). polling s' \<and> (\<forall>w. x \<noteq> Some (Runtime_Error w)))"
proof -
  consider (conn) err where "c = Connect_Done err" "tpx_pending s = Some Connecting"
    | (sent) "c = Send_Done" "tpx_pending s = Some Sending"
    | (recv) err bs where "c = Recv_Done err bs" "tpx_pending s = Some Reading"
    | (other) "complete h i c s = Inr (s, None)"
    by (cases c; cases "tpx_pending s"; cases "the (tpx_pending s)") (auto simp: complete_def)
  then show ?thesis
  proof cases
    case conn
    then have "\<not> mIsExecutingCommand s" using assms by (auto simp: polling_def busy_def)
    with conn assms show ?thesis
      by (cases err; cases "drain_error i")
        (auto simp: complete_def initializeConnection_def polling_def mode_defs threads_ok_def Let_def)
  next
    case sent
    then have "mIsExecutingCommand s" using assms by (auto simp: polling_def mode_defs split: if_splits)
    with sent assms show ?thesis
      by (simp add: complete_def polling_def busy_def one_queued_def threads_ok_def)
  next
    case recv
    define got where "got = take buffer_size bs"
    let ?s = "s\<lparr>tpx_pending := None, mResponseBuffer := into_buffer bs (mResponseBuffer s)\<rparr>"
    have ex: "mIsExecutingCommand s" using recv assms by (auto simp: polling_def mode_defs split: if_splits)
    have p: "polling (say es ?s)" "busy (say es ?s)" for es
      using ex assms by (simp_all add: polling_def busy_def one_queued_def threads_ok_def)
    have eq: "complete h i c s = commandRecv h err (length got) ?s"
      using recv by (simp add: complete_def Let_def got_def)
    show ?thesis
    proof (cases err)
      case None
      show ?thesis
      proof (cases "decode_reply (byte_order h) (mResponseBuffer ?s) (length got)")
        case (Inl f)
        with decode_reply_fault [OF Inl] show ?thesis by (simp add: eq commandRecv_def None)
      next
        case (Inr r)
        obtain es reply where r: "r = (es, reply)" by (cases r)
        show ?thesis
        proof (cases reply)
          case None
          with Inr r p [of es] \<open>err = None\<close> show ?thesis by (simp add: eq commandRecv_def)
        next
          case (Some cd)
          obtain cmd data where "cd = (cmd, data)" by (cases cd)
          moreover have "safe (processRecv h cmd data (say es ?s)) (\<lambda>(s', x). polling s' \<and> x = None)"
            by (rule processRecv_polling [OF p]) (use ex in simp_all)
          ultimately show ?thesis using Inr r Some None
            by (auto simp: eq commandRecv_def elim!: safe_mono)
        qed
      qed
    next
      case (Some e)
      then show ?thesis using p [of "[]"] by (cases e) (simp add: eq commandRecv_def)
    qed
  next
    case other
    with assms show ?thesis by simp
  qed
qed

lemma run_io_polling:
  assumes "polling s"
  shows "safe (run_io h i cs s) (\<lambda>(s', x). polling s' \<and> (\<forall>w. x \<noteq> Some (Runtime_Error w)))"
  using assms
proof (induction cs arbitrary: s)
  case Nil
  then show ?case by simp
next
  case (Cons c cs)
  show ?case
    unfolding run_io.simps
    by (rule safe_then [OF complete_polling [OF Cons.prems]]) (auto intro: Cons.IH)
qed


section \<open>Polling the Timepix\<close>

text \<open>The state \<open>poll\<close> starts from.\<close>

definition ready :: "server \<Rightarrow> bool" where
  "ready s \<longleftrightarrow> threads_ok s \<and> phase s = Running \<and> \<not> mShouldResetClient s \<and>
     (if mIsExecutingCommand s then busy s else queued s \<or> quiet s)"

lemma ready_polling:
  assumes "ready s" and "\<not> (mIsConnected s \<and> \<not> mIsExecutingCommand s \<and> mQueuedCommands s \<noteq> [])"
  shows "polling s"
  using assms by (auto simp: ready_def polling_def queued_def one_queued_def split: if_splits)

lemma attempt_frame [simp]:
  "threads_ok (attemptConnection i w s) = threads_ok s"
  "phase (attemptConnection i w s) = phase s"
  "mShouldResetClient (attemptConnection i w s) = mShouldResetClient s"
  "mLastCommandSource (attemptConnection i w s) = mLastCommandSource s"
  "mQueuedCommands (attemptConnection i w s) = mQueuedCommands s"
  "client_id (attemptConnection i w s) = client_id s"
  by (simp_all add: attemptConnection_def connection_failed_def initializeConnection_def Let_def
      threads_ok_def split: option.splits exn.splits)

lemma attempt_waiting:
  "tpx_pending (attemptConnection i True s) = None \<and>
   (should_cancel (attemptConnection i True s) \<or> \<not> mIsExecutingCommand (attemptConnection i True s))"
  by (simp add: attemptConnection_def connection_failed_def initializeConnection_def Let_def
      split: option.splits exn.splits)

lemma sendCommand_safe:
  "safe (sendCommand h cmd data s) (\<lambda>s'. \<exists>bs. s' = s\<lparr>mIsExecutingCommand := True,
     tpx_pending := Some Sending, tpx_sent := tpx_sent s @ [bs]\<rparr>)"
  by (auto simp: sendCommand_def command_bytes_def Let_def)

lemma terminate_frame [simp]:
  "client_id (terminateConnection i s) = client_id s"
  "client_socket (terminateConnection i s) = client_socket s"
  "client_last (terminateConnection i s) = client_last s"
  "mQueuedCommands (terminateConnection i s) = mQueuedCommands s"
  "mLastCommandSource (terminateConnection i s) = mLastCommandSource s"
  "mIsExecutingCommand (terminateConnection i s) = mIsExecutingCommand s"
  "udp_behind (terminateConnection i s) = udp_behind s"
  "cluster_behind (terminateConnection i s) = cluster_behind s"
  "histogram_behind (terminateConnection i s) = histogram_behind s"
  "threads_ok (terminateConnection i s) = threads_ok s"
  "phase (terminateConnection i s) = phase s"
  "should_cancel (terminateConnection i s) = should_cancel s"
  "mShouldResetClient (terminateConnection i s) = mShouldResetClient s"
  by (simp_all add: terminateConnection_def threads_ok_def split: option.split)

lemma terminate_io_idle: "io_idle s \<Longrightarrow> io_idle (terminateConnection i s)"
  by (simp add: terminateConnection_def io_idle_def split: option.split)

lemma tpx_poll_body_safe:
  assumes "ready s"
  shows "safe (tpx_poll_body h i cs s) (\<lambda>(s', x).
    (polling s' \<or> x = None \<and> polled s') \<and> (\<forall>w. x \<noteq> Some (Runtime_Error w)))"
proof (cases "mIsConnected s \<and> \<not> mIsExecutingCommand s \<and> mQueuedCommands s \<noteq> []")
  case True
  then have q: "queued s" using assms by (auto simp: ready_def quiet_def split: if_splits)
  then obtain c where c: "mQueuedCommands s = [c]" "sender c = client_id s"
    by (auto simp: queued_def one_queued_def)
  have t: "threads_ok s" "phase s = Running" "\<not> mShouldResetClient s" "owing (client_socket s)" "mIsConnected s"
    using assms q by (simp_all add: ready_def queued_def)
  let ?after = "\<lambda>s1. let s2 = s1\<lparr>mLastCommandSource := Some (sender c)\<rparr>
    in if command c = CMD_RESET_MODULE
       then and_then (on_client (sender c) (client_sendResponse h []) (terminateConnection i s2))
         (\<lambda>s3. Inr (attemptConnection i True (say [Log ''Resetting Timepix connection'']
           (s3\<lparr>mQueuedCommands := tl (mQueuedCommands s3), mLastCommandSource := None\<rparr>)), None))
       else run_io h i cs s2"
  have eq: "tpx_poll_body h i cs s = and_then (sendCommand h (command c) (command_args c) s) ?after"
    using True c by (simp add: tpx_poll_body_def)
  show ?thesis unfolding eq
  proof (rule safe_then [OF sendCommand_safe])
    fix s1 assume "\<exists>bs. s1 = s\<lparr>mIsExecutingCommand := True, tpx_pending := Some Sending,
      tpx_sent := tpx_sent s @ [bs]\<rparr>"
    then obtain bs where s1: "s1 = s\<lparr>mIsExecutingCommand := True, tpx_pending := Some Sending,
      tpx_sent := tpx_sent s @ [bs]\<rparr>" by blast
    define s2 where "s2 = s1\<lparr>mLastCommandSource := Some (sender c)\<rparr>"
    have p: "polling s2" using t c by (simp add: s2_def s1 polling_def busy_def one_queued_def threads_ok_def)
    show "safe (?after s1) (\<lambda>(s', x). (polling s' \<or> x = None \<and> polled s') \<and>
      (\<forall>w. x \<noteq> Some (Runtime_Error w)))"
    proof (cases "command c = CMD_RESET_MODULE")
      case False
      then show ?thesis using run_io_polling [OF p, of h i cs]
        by (auto simp flip: s2_def elim!: safe_mono)
    next
      case True
      define s3 where "s3 = (terminateConnection i s2)\<lparr>client_socket := \<lparr>owing = False,
        answers = answers (client_socket s) @ [message (byte_order h) (client_last s) []]\<rparr>\<rparr>"
      have own: "owing (client_socket s2)" "client_id s2 = client_id s" "client_socket s2 = client_socket s"
        "client_last s2 = client_last s"
        using t by (simp_all add: s2_def s1)
      then have "on_client (sender c) (client_sendResponse h []) (terminateConnection i s2) = Inr s3"
        using c by (simp add: on_client_def sendResponse_client s3_def)
      moreover define s4 where "s4 = say [Log ''Resetting Timepix connection'']
        (s3\<lparr>mQueuedCommands := tl (mQueuedCommands s3), mLastCommandSource := None\<rparr>)"
      ultimately have eq4: "?after s1 = Inr (attemptConnection i True s4, None)"
        using True by (simp add: Let_def flip: s2_def)
      have "threads_ok s4" "phase s4 = Running" "\<not> mShouldResetClient s4" "mLastCommandSource s4 = None"
        "mQueuedCommands s4 = []"
        using p c unfolding s4_def s3_def by (simp_all add: polling_def s2_def s1)
      then have "polled (attemptConnection i True s4)"
        using attempt_waiting [of i s4]
        by (auto simp: polled_def source_ok_def quiet_def io_idle_def)
      then show ?thesis unfolding eq4 by simp
    qed
  qed
next
  case False
  with assms have "polling s" by (blast intro: ready_polling)
  then have "safe (tpx_poll_body h i cs s) (\<lambda>(s', x). polling s' \<and> (\<forall>w. x \<noteq> Some (Runtime_Error w)))"
    using False run_io_polling [of s h i cs] by (auto simp: tpx_poll_body_def)
  then show ?thesis by (auto elim!: safe_mono)
qed


lemma tpx_poll_safe:
  assumes "ready s"
  shows "safe (tpx_poll h i cs s) (\<lambda>(s', x). polled s' \<and> x = None)"
  unfolding tpx_poll_def
proof (rule safe_then [OF tpx_poll_body_safe [OF assms]], clarify)
  fix s1 x assume p: "polling s1 \<or> x = None \<and> polled s1" and rt: "\<forall>w. x \<noteq> Some (Runtime_Error w)"
  have plain: "polling s1 \<Longrightarrow> polled s1"
    using polling_source_ok [of s1] by (auto simp: polling_def polled_def split: if_splits)
  show "safe (case x of Some (System_Error code what) \<Rightarrow> and_then (clearAnyClientRequest h (request_cancel
      (terminateConnection i (say [Err (''A network error occurred while communicating with the Timepix (errcode='' @
        to_string code @ '')''), Err what] s1)))) (\<lambda>s2. Inr (s2, None)) | _ \<Rightarrow> Inr (s1, x))
    (\<lambda>(s', x). polled s' \<and> x = None)"
  proof (cases x)
    case None
    with p plain show ?thesis by auto
  next
    case (Some e)
    with rt obtain code what where e: "x = Some (System_Error code what)" by (cases e) auto
    with p have pol: "polling s1" by simp
    define s2 where "s2 = request_cancel (terminateConnection i
      (say [Err (''A network error occurred while communicating with the Timepix (errcode='' @
        to_string code @ '')''), Err what] s1))"
    have "source_ok s2" using polling_source_ok [OF pol] by (simp add: s2_def source_ok_def split: option.splits)
    from clear_request [OF this, of h] obtain s3 where s3: "clearAnyClientRequest h s2 = Inr s3"
      "mLastCommandSource s3 = None" "threads_ok s3 = threads_ok s2" "phase s3 = phase s2"
      "should_cancel s3 = should_cancel s2" "mIsExecutingCommand s3 = mIsExecutingCommand s2"
      "mQueuedCommands s3 = mQueuedCommands s2" "tpx_pending s3 = tpx_pending s2"
      "mShouldResetClient s3 = mShouldResetClient s2" by blast
    have "io_idle s2" if "quiet s1"
      using that terminate_io_idle [of "say es s1" for es] by (simp add: s2_def quiet_def io_idle_def terminateConnection_def)
    then have "polled s3" using pol s3
      by (auto simp: polled_def polling_def source_ok_def s2_def quiet_def io_idle_def split: if_splits)
    then show ?thesis unfolding e option.case exn.case s2_def [symmetric] using s3(1) by simp
  qed
qed

section \<open>The client\<close>

lemma server_inv_idle:
  "threads_ok s \<Longrightarrow> quiet s \<Longrightarrow> \<not> mIsExecutingCommand s \<Longrightarrow> server_inv s"
  by (simp add: server_inv_def mode_defs)

lemma server_inv_queued:
  "threads_ok s \<Longrightarrow> queued s \<Longrightarrow> \<not> mIsExecutingCommand s \<Longrightarrow> server_inv s"
  by (simp add: server_inv_def mode_defs)

text \<open>A state in which the client's command is handled: nothing in progress, an answer due.\<close>

definition handling :: "server \<Rightarrow> bool" where
  "handling s \<longleftrightarrow> threads_ok s \<and> quiet s \<and> \<not> mIsExecutingCommand s \<and> \<not> mShouldResetClient s \<and>
     owing (client_socket s)"

lemma quiet_frame [simp]:
  "quiet (s\<lparr>client_socket := sk\<rparr>) = quiet s"
  "quiet (s\<lparr>client_last := c\<rparr>) = quiet s"
  "quiet (s\<lparr>comms_log := es\<rparr>) = quiet s"
  "quiet (s\<lparr>phase := ph\<rparr>) = quiet s"
  "quiet (s\<lparr>udp_behind := u\<rparr>) = quiet s"
  "quiet (s\<lparr>cluster_behind := c'\<rparr>) = quiet s"
  "quiet (s\<lparr>histogram_behind := h'\<rparr>) = quiet s"
  "quiet (s\<lparr>mShouldResetClient := b\<rparr>) = quiet s"
  by (simp_all add: quiet_def io_idle_def)

lemma handling_error: "handling s \<Longrightarrow> safe (client_sendError h err s) server_inv"
  by (auto simp: handling_def sendError_client intro!: server_inv_idle)

lemma handling_response: "handling s \<Longrightarrow> safe (client_sendResponse h data s) server_inv"
  by (auto simp: handling_def sendResponse_client intro!: server_inv_idle)

lemma handling_queue:
  assumes "handling s" and "mIsConnected s"
  shows "server_inv (queueCommand (client_id s) cmd data s)"
proof (rule server_inv_queued)
  show "queued (queueCommand (client_id s) cmd data s)"
    using assms by (simp add: handling_def queued_def quiet_def one_queued_def queueCommand_def io_idle_def)
qed (use assms in \<open>simp_all add: handling_def queueCommand_def\<close>)

lemma handling_action:
  assumes "handling s" and "mIsConnected s"
  shows "safe (run_action h i a data s) server_inv"
proof (cases a)
  case (Forward sz cmd)
  have "handling (say es s)" for es using assms(1) by (simp add: handling_def)
  then show ?thesis using assms handling_queue
    by (auto simp: Forward run_action_def genericForward_def intro: handling_error)
next
  case Pixel_Config
  then show ?thesis using assms handling_queue
    by (auto simp: run_action_def sendPixelConfigData_def intro: handling_error)
next
  case Bind_Udp_Port
  have "handling (bindUdpPort i s)" using assms(1)
    by (simp add: handling_def bindUdpPort_def threads_ok_def new_udp_thread_def start_thread_def fresh_rep_def)
  then show ?thesis using assms
    by (auto simp: Bind_Udp_Port run_action_def client_bindUdpPort_def
        intro: handling_error handling_response)
qed

context command_thread
begin

text \<open>A thread that is there answers; one that is gone never does.\<close>

lemma ask_answers:
  assumes "alive \<Longrightarrow> \<not> owing (socket t)" and "4 \<le> length msg" and "\<not> misaligned msg"
  shows "safe (ask_thread handle alive ex h msg t) (\<lambda>(reply, t').
    if alive then reply \<noteq> None \<and> \<not> owing (socket t') else reply = None \<and> t' = t)"
proof (cases alive)
  case True
  with assms have ow: "\<not> owing (socket t)" by simp
  show ?thesis
  proof (cases "pollCommands handle ex h (Some msg) t")
    case (Inl f)
    with poll_faults [OF ow assms(2,3)] True show ?thesis by (simp add: ask_thread_def)
  next
    case (Inr t')
    with poll_answers_any [OF ow assms(2,3) Inr] True show ?thesis by (auto simp: ask_thread_def)
  qed
qed (simp add: ask_thread_def)

end

lemma forward_answer_inv:
  "handling s \<Longrightarrow> safe (forward_answer reply s) server_inv"
  by (cases reply) (auto simp: forward_answer_def handling_def rep_send_def intro!: server_inv_idle)

lemma forward_udp_inv:
  assumes "handling s" and "4 \<le> length msg" and "\<not> misaligned msg"
  shows "safe (forward_udp h i msg s) server_inv"
proof (cases "udp_behind s")
  case None
  with assms(1) show ?thesis by (simp add: forward_udp_def handling_error)
next
  case (Some t)
  have "safe (ask_thread udp_handleCommand (udp_alive t) (io_error i) h msg t) (\<lambda>(reply, t').
    if udp_alive t then reply \<noteq> None \<and> \<not> owing (socket t') else reply = None \<and> t' = t)"
    by (rule udp_commands.ask_answers) (use assms Some in \<open>auto simp: handling_def threads_ok_def\<close>)
  then show ?thesis unfolding forward_udp_def Some option.case
    by (rule safe_then) (use assms Some in \<open>auto intro!: forward_answer_inv
        simp: handling_def threads_ok_def split: if_splits\<close>)
qed

lemma forward_cluster_inv:
  assumes "handling s" and "4 \<le> length msg" and "\<not> misaligned msg"
  shows "safe (forward_cluster h i msg s) server_inv"
proof (cases "cluster_behind s")
  case None
  with assms(1) show ?thesis by (simp add: forward_cluster_def handling_error)
next
  case (Some t)
  have "safe (ask_thread cluster_handleCommand (\<not> th_cancelled t) (io_error i) h msg t) (\<lambda>(reply, t').
    if \<not> th_cancelled t then reply \<noteq> None \<and> \<not> owing (socket t') else reply = None \<and> t' = t)"
    by (rule cluster_commands.ask_answers) (use assms Some in \<open>auto simp: handling_def threads_ok_def\<close>)
  then show ?thesis unfolding forward_cluster_def Some option.case
    by (rule safe_then) (use assms Some in \<open>auto intro!: forward_answer_inv
        simp: handling_def threads_ok_def split: if_splits\<close>)
qed

lemma forward_histogram_inv:
  assumes "handling s" and "4 \<le> length msg" and "\<not> misaligned msg"
  shows "safe (forward_histogram h i msg s) server_inv"
proof (cases "histogram_behind s")
  case None
  with assms(1) show ?thesis by (simp add: forward_histogram_def handling_error)
next
  case (Some t)
  have "safe (ask_thread histogram_handleCommand (\<not> th_cancelled t) (io_error i) h msg t) (\<lambda>(reply, t').
    if \<not> th_cancelled t then reply \<noteq> None \<and> \<not> owing (socket t') else reply = None \<and> t' = t)"
    by (rule histogram_commands.ask_answers) (use assms Some in \<open>auto simp: handling_def threads_ok_def\<close>)
  then show ?thesis unfolding forward_histogram_def Some option.case
    by (rule safe_then) (use assms Some in \<open>auto intro!: forward_answer_inv
        simp: handling_def threads_ok_def split: if_splits\<close>)
qed


lemma handling_command:
  assumes "handling s"
  shows "safe (client_handleCommand h i msg s) server_inv"
proof -
  consider (off) "\<not> mIsConnected s" | (short) "mIsConnected s" "length msg < 4"
    | (odd) "mIsConnected s" "4 \<le> length msg" "misaligned msg"
    | (ok) "mIsConnected s" "4 \<le> length msg" "\<not> misaligned msg"
    by linarith
  then show ?thesis
  proof cases
    case ok
    let ?c = "ServerCommand (load_at (byte_order h) 4 msg 0)"
    have "handling (s\<lparr>client_last := ?c\<rparr>)" using assms by (simp add: handling_def)
    then have act: "safe (run_action h i a data (s\<lparr>client_last := ?c\<rparr>)) server_inv" for a data
      using ok(1) by (intro handling_action) simp_all
    show ?thesis
    proof (cases "map_of command_map ?c")
      case (Some a)
      then show ?thesis using ok act by (simp add: client_handleCommand_def command_word_def Let_def)
    next
      case None
      then show ?thesis using ok forward_udp_inv [OF assms ok(2,3)]
          forward_cluster_inv [OF assms ok(2,3)] forward_histogram_inv [OF assms ok(2,3)]
          handling_error [OF assms]
        by (simp add: client_handleCommand_def command_word_def Let_def)
    qed
  qed (use handling_error [OF assms] in \<open>simp_all add: client_handleCommand_def command_word_def\<close>)
qed

lemma cancel_threads_ok:
  "threads_ok s \<Longrightarrow> threads_ok (s\<lparr>udp_behind := map_option cancel_thread (udp_behind s)\<rparr>)"
  by (auto simp: threads_ok_def udp_alive_def cancel_thread_def)

lemma client_poll_inv:
  assumes "polled s" and "\<not> mIsExecutingCommand s"
  shows "safe (client_poll h i s) server_inv"
proof -
  have q: "threads_ok s" "quiet s" "\<not> mShouldResetClient s"
    using assms by (simp_all add: polled_def)
  show ?thesis
  proof (cases "owing (client_socket s)")
    case True
    have "server_inv (resetClientConnection (say es s))" for es
    proof (rule server_inv_idle)
      show "threads_ok (resetClientConnection (say es s))"
        using cancel_threads_ok [OF q(1)] by (simp add: resetClientConnection_def threads_ok_def)
    qed (use q assms(2) in \<open>simp_all add: resetClientConnection_def\<close>)
    with True show ?thesis by (simp add: client_poll_def rep_recv_def)
  next
    case False
    show ?thesis
    proof (cases "client_message i")
      case None
      with False q assms(2) show ?thesis
        by (simp add: client_poll_def rep_recv_def server_inv_idle)
    next
      case (Some msg)
      have "handling (s\<lparr>client_socket := client_socket s\<lparr>owing := True\<rparr>\<rparr>)"
        using q assms(2) by (simp add: handling_def)
      with False Some show ?thesis by (simp add: client_poll_def rep_recv_def handling_command)
    qed
  qed
qed

section \<open>Iterations\<close>

lemma shutdown_safe:
  assumes "threads_ok s" and "source_ok s"
  shows "safe (shutdown h i s) (\<lambda>s'. server_inv s' \<and> phase s' = Stopped)"
proof -
  from clear_request [OF assms(2), of h] obtain s1 where
    "clearAnyClientRequest h s = Inr s1" "threads_ok s1 = threads_ok s" by blast
  then show ?thesis using assms(1)
    by (auto simp: shutdown_def Let_def server_inv_def threads_ok_def cancel_thread_def udp_alive_def)
qed

lemma open_client_ready:
  assumes "server_inv s" and "phase s = Running" and "\<not> should_cancel s"
  shows "ready (if mShouldResetClient s then open_client s else s)"
  using assms
  by (auto simp: server_inv_def ready_def open_client_def busy_def queued_def quiet_def io_idle_def
      split: if_splits)

lemma iterate_safe:
  assumes "server_inv s"
  shows "safe (iterate h i cs s) server_inv"
proof -
  consider (idle) "phase s \<noteq> Running" | (stop) "phase s = Running" "should_cancel s"
    | (dead) "phase s = Running" "\<not> should_cancel s" "mShouldResetClient s \<and> open_error i"
    | (go) "phase s = Running" "\<not> should_cancel s" "\<not> (mShouldResetClient s \<and> open_error i)" by blast
  then show ?thesis
  proof cases
    case idle
    with assms show ?thesis by (simp add: iterate_def)
  next
    case stop
    then have "safe (shutdown h i s) server_inv"
      using assms by (auto simp: server_inv_def intro: safe_mono [OF shutdown_safe])
    with stop show ?thesis by (simp add: iterate_def)
  next
    case dead
    with assms show ?thesis by (simp add: iterate_def run_catch_def server_inv_def)
  next
    case go
    note r = tpx_poll_safe [OF open_client_ready [OF assms go(1,2)], of h i cs]
    have "safe (if mIsExecutingCommand s1 then Inr s1 else client_poll h i s1) server_inv" if "polled s1" for s1
      using that client_poll_inv [OF that] by (auto simp: polled_def server_inv_def)
    moreover have running: "\<not> phase s \<noteq> Running" using go by simp
    ultimately show ?thesis
      unfolding iterate_def if_not_P [OF running] if_not_P [OF go(2)] if_not_P [OF go(3)]
      by (intro safe_then [OF r]) auto
  qed
qed

lemmas initial_server_defs = initial_server_def startHistogramThread_def startClusterThread_def
  new_server_def new_cluster_thread_def new_histogram_thread_def start_thread_def fresh_rep_def attemptConnection_def connection_failed_def Let_def

lemma initial_inv: "server_inv (initial_server i st ce he)"
  by (rule server_inv_idle)
    (simp_all add: initial_server_defs run_catch_def threads_ok_def quiet_def io_idle_def split: option.splits)

lemma server_inv_other:
  "server_inv s \<Longrightarrow> threads_ok (s\<lparr>udp_behind := u\<rparr>) \<Longrightarrow> server_inv (s\<lparr>udp_behind := u\<rparr>)"
  "server_inv s \<Longrightarrow> threads_ok (s\<lparr>cluster_behind := c\<rparr>) \<Longrightarrow> server_inv (s\<lparr>cluster_behind := c\<rparr>)"
  "server_inv s \<Longrightarrow> threads_ok (s\<lparr>histogram_behind := g\<rparr>) \<Longrightarrow> server_inv (s\<lparr>histogram_behind := g\<rparr>)"
  by (auto simp: server_inv_def source_ok_def busy_def queued_def one_queued_def io_idle_def split: if_splits)

lemma step_inv: "step h s s' \<Longrightarrow> server_inv s \<Longrightarrow> server_inv s'"
proof (induction rule: step.induct)
  case (iteration i cs s s')
  with iterate_safe [of s h i cs] show ?case by simp
next
  case (cancelled s)
  then show ?case by (simp add: server_inv_def source_ok_def)
next
  case (udp_turn s t ex ds t')
  have "threads_ok s" using udp_turn.prems by (simp add: server_inv_def)
  then have "threads_ok (s\<lparr>udp_behind := Some t'\<rparr>)"
    using udp_turn.hyps udp_commands.poll_idle [of t ex h]
    by (auto simp: threads_ok_def udp_turn_def udp_alive_def split: if_splits)
  with udp_turn.prems show ?case by (rule server_inv_other)
next
  case (cluster_turn s t ex start now ev t')
  have "threads_ok s" using cluster_turn.prems by (simp add: server_inv_def)
  then have "threads_ok (s\<lparr>cluster_behind := Some t'\<rparr>)"
    using cluster_turn.hyps cluster_commands.poll_idle [of t ex h]
    by (auto simp: threads_ok_def cluster_turn_def and_then_eq_Inr split: if_splits)
  with cluster_turn.prems show ?case by (rule server_inv_other)
next
  case (histogram_turn s t ex now ev t')
  have "threads_ok s" using histogram_turn.prems by (simp add: server_inv_def)
  then have "threads_ok (s\<lparr>histogram_behind := Some t'\<rparr>)"
    using histogram_turn.hyps histogram_commands.poll_idle [of t ex h]
    by (auto simp: threads_ok_def histogram_turn_def and_then_eq_Inr split: if_splits)
  with histogram_turn.prems show ?case by (rule server_inv_other)
qed

lemma reachable_inv: "reachable h s \<Longrightarrow> server_inv s"
  by (induction rule: reachable.induct) (auto intro: initial_inv step_inv)

end
