(* ===== verification/ServerProps.thy ===== *)
theory ServerProps
  imports ServerInvariant
begin

text \<open>
  What the main thread does with a client's command: the round trip through the Timepix, the
  answers to commands it refuses, and the replies it does not recover from.
\<close>

section \<open>One command at a time\<close>

lemma running_mode:
  assumes "server_inv s" and "phase s = Running" and "\<not> should_cancel s"
  shows "if mIsExecutingCommand s then busy s else queued s \<or> quiet s"
  using assms by (simp add: server_inv_def)

definition first_inputs :: inputs where
  "first_inputs = \<lparr>io_error = (0, []), client_message = None, bind_error = None, address_error = None, connect_error = None,
     stale = [], drain_error = None, close_error = None, open_error = False,
     thread_endpoint = ''tcp://127.0.0.1:9101'', publish_endpoint = ''tcp://127.0.0.1:9102'',
     udp_bind_error = None, clock = 0\<rparr>"

definition first_settings :: comms_settings where
  "first_settings = \<lparr>host_ip = ''192.168.100.1'', host_port = 8192, timepix_ip = ''192.168.100.10'',
     timepix_port = 50000, outgoing_port = 5555\<rparr>"

definition first_server :: server where
  "first_server = initial_server first_inputs first_settings (''tcp://127.0.0.1:9103'', ''tcp://127.0.0.1:9104'')
     (''tcp://127.0.0.1:9105'', ''tcp://127.0.0.1:9106'')"

lemma first_reachable: "reachable h first_server"
  unfolding first_server_def by (rule reachable.start)

text \<open>C10. While the server runs and has not been asked to stop, at most one command is queued for the Timepix; while one executes
  it is the queue's front, its answer is owed to the client manager that is there now, and no
  other message of a client has been taken.\<close>

theorem one_outstanding_command:
  assumes "reachable h s" and "phase s = Running" and "\<not> should_cancel s"
  shows "length (mQueuedCommands s) \<le> 1 \<and>
    (mIsExecutingCommand s \<longrightarrow>
       (\<exists>c. mQueuedCommands s = [c] \<and> sender c = client_id s) \<and>
       mLastCommandSource s = Some (client_id s) \<and> owing (client_socket s))"
  using running_mode [OF reachable_inv [OF assms(1)] assms(2,3)]
  by (auto simp: busy_def queued_def quiet_def one_queued_def split: if_splits)

theorem one_outstanding_command_witness:
  "length (mQueuedCommands first_server) \<le> 1"
proof -
  have "phase first_server = Running" "\<not> should_cancel first_server"
    by (simp_all add: first_server_def initial_server_defs first_inputs_def)
  from one_outstanding_command [OF first_reachable this] show ?thesis by (rule conjunct1)
qed

section \<open>A command's round trip\<close>

text \<open>A server with a connected Timepix, ready for a client's command.\<close>

definition awaiting :: "server \<Rightarrow> bool" where
  "awaiting s \<longleftrightarrow> phase s = Running \<and> \<not> should_cancel s \<and> \<not> mShouldResetClient s \<and>
     mIsConnected s \<and> \<not> mIsExecutingCommand s \<and> mQueuedCommands s = [] \<and>
     mLastCommandSource s = None \<and> \<not> owing (client_socket s) \<and> io_idle s"

lemma iterate_running:
  "phase s = Running \<Longrightarrow> \<not> should_cancel s \<Longrightarrow> \<not> mShouldResetClient s \<Longrightarrow>
     tpx_poll h i cs s = Inr (s1, None) \<Longrightarrow>
     iterate h i cs s = (if mIsExecutingCommand s1 then Inr s1 else client_poll h i s1)"
  by (simp add: iterate_def)

lemma iterate_blocked: "phase s \<noteq> Running \<Longrightarrow> iterate h i cs s = Inr s"
  by (simp add: iterate_def)

lemma no_completion: "tpx_pending s = None \<Longrightarrow> run_io h i cs s = Inr (s, None)"
  by (induction cs) (simp_all add: complete_def into_buffer_def split: completion.splits)

lemma tpx_poll_quiet:
  "mQueuedCommands s = [] \<Longrightarrow> tpx_poll h i [] s = Inr (s, None)"
  by (simp add: tpx_poll_def tpx_poll_body_def)

lemma client_takes:
  assumes "awaiting s" and "client_message i = Some msg"
  shows "iterate h i [] s =
    client_handleCommand h i msg (s\<lparr>client_socket := client_socket s\<lparr>owing := True\<rparr>\<rparr>)"
  using assms tpx_poll_quiet [of s h i]
  by (simp add: awaiting_def iterate_running client_poll_def rep_recv_def)

lemma command_word_message:
  "4 * (length args + 1) < 2 ^ 32 \<Longrightarrow>
     4 \<le> length (message e cmd args) \<and> ServerCommand (load_at e 4 (message e cmd args) 0) = cmd"
  using message_words(1) [of args e cmd] by (cases cmd) (auto simp: command_word_def split: if_splits)

lemma handle_mapped:
  assumes "mIsConnected s" and "map_of command_map cmd = Some a" and "4 * (length args + 1) < 2 ^ 32"
  shows "client_handleCommand h i (message (byte_order h) cmd args) s =
    run_action h i a args (s\<lparr>client_last := cmd\<rparr>)"
  using assms message_words [OF assms(3), of "byte_order h" cmd] command_word_message [OF assms(3)]
  by (cases cmd) (simp add: client_handleCommand_def Let_def)

lemma handler_bounds:
  assumes "map_of handler_sizes cmd = Some n"
  shows "n \<le> 252 \<and> tpx_code cmd < 0x10000"
proof -
  have "list_all (\<lambda>(cmd, n). n \<le> 252 \<and> tpx_code cmd < 0x10000) handler_sizes"
    by (simp add: handler_sizes_def)
  with map_of_SomeD [OF assms] show ?thesis by (auto simp: list_all_iff)
qed

text \<open>The data of a reply as it reaches the handler: never empty.\<close>

definition reply_payload :: "u32 list \<Rightarrow> u32 list" where
  "reply_payload data = (if data = [] then [0] else data)"

text \<open>A well-formed reply to the command in progress: the client is answered.\<close>

lemma reply_completes:
  assumes "busy s" and "tpx_pending s = Some Reading" and "map_of handler_sizes cmd = Some n"
    and "length (reply_payload data) = n" and "error_report (tpx_code cmd) err = Inr errs"
  shows "\<exists>buf. complete h i (Recv_Done None (reply_bytes cmd err data)) s =
    Inr (s\<lparr>tpx_pending := None, mResponseBuffer := buf, comms_log := comms_log s @ errs,
           client_socket := \<lparr>owing = False,
             answers = answers (client_socket s) @ [message (byte_order h) (client_last s) (reply_payload data)]\<rparr>,
           mQueuedCommands := [], mIsExecutingCommand := False, mLastCommandSource := None\<rparr>, None)"
proof -
  let ?bs = "reply_bytes cmd err data"
  have b: "n \<le> 252" "tpx_code cmd < 0x10000" using handler_bounds [OF assms(3)] by auto
  then have short: "length data \<le> 252" using assms(4) by (auto simp: reply_payload_def split: if_splits)
  have fits: "take buffer_size ?bs = ?bs"
    using b assms(4) by (simp add: length_reply_bytes buffer_size_def flip: reply_payload_def)
  define buf where "buf = ?bs @ drop (length ?bs) (mResponseBuffer s)"
  define s1 where "s1 = s\<lparr>tpx_pending := None, mResponseBuffer := buf, comms_log := comms_log s @ errs\<rparr>"
  have dec: "decode_reply (byte_order h) buf (length ?bs) = Inr (errs, Some (cmd, reply_payload data))"
    unfolding buf_def reply_payload_def by (rule decode_reply_bytes [OF b(2) short assms(5)])
  obtain c where c: "mQueuedCommands s = [c]" using assms(1) by (auto simp: busy_def one_queued_def)
  have bz: "busy s1" using assms(1) by (simp add: s1_def busy_def one_queued_def)
  have "complete h i (Recv_Done None ?bs) s = processRecv h cmd (reply_payload data) s1"
    using dec by (simp add: complete_def into_buffer_def assms(2) Let_def fits commandRecv_def s1_def flip: buf_def)
  also have "\<dots> = Inr (s1\<lparr>client_socket := \<lparr>owing = False,
      answers = answers (client_socket s1) @ [message (byte_order h) (client_last s1) (reply_payload data)]\<rparr>,
      mQueuedCommands := [], mIsExecutingCommand := False, mLastCommandSource := None\<rparr>, None)"
    using assms(1,3,4) genericHandler_busy [OF bz, of h n "reply_payload data"] c
    by (simp add: processRecv_def busy_def s1_def)
  finally show ?thesis by (intro exI [of _ buf]) (simp add: s1_def)
qed

lemma no_message: "client_message i = None \<Longrightarrow> \<not> owing (client_socket s) \<Longrightarrow> client_poll h i s = Inr s"
  by (simp add: client_poll_def rep_recv_def)

text \<open>A connected server to try the properties on.\<close>

definition connected_server :: server where
  "connected_server = fst (initializeConnection first_inputs None (first_server\<lparr>tpx_pending := None\<rparr>))"

lemma connected_awaiting: "awaiting connected_server" "threads_ok connected_server"
    "tpx_sent connected_server = []" "answers (client_socket connected_server) = []"
  by (simp_all add: connected_server_def first_server_def initial_server_defs
      first_inputs_def initializeConnection_def awaiting_def io_idle_def threads_ok_def)

section \<open>Commands the server refuses\<close>

text \<open>The error code that answers a message, when the message is not passed on.\<close>

definition refused_message :: "host \<Rightarrow> bytes \<Rightarrow> server_command option" where
  "refused_message h msg =
     (if misaligned msg then Some INVALID_COMMAND_DATA
      else let cmd = ServerCommand (load_at (byte_order h) 4 msg 0); n = length (command_data (byte_order h) msg)
           in case map_of command_map cmd of
                Some (Forward sz tpx) \<Rightarrow> if n \<noteq> sz then Some INVALID_COMMAND_DATA else None
              | Some Bind_Udp_Port \<Rightarrow> if n \<noteq> 1 then Some INVALID_COMMAND_DATA else None
              | Some Pixel_Config \<Rightarrow>
                  if (of_nat n - 1 :: u64) mod 48 \<noteq> 0 then Some INVALID_COMMAND_DATA else None
              | None \<Rightarrow>
                  if cmd \<in> set (udp_forward_commands @ cluster_forward_commands @ histogram_forward_commands)
                  then None else Some UNKNOWN_COMMAND)"

definition refusal :: "host \<Rightarrow> bytes \<Rightarrow> server \<Rightarrow> server_command option" where
  "refusal h msg s = (if mIsConnected s then refused_message h msg else Some ERROR_OCCURED)"

text \<open>Refusing a message only logs and answers, whatever code was last noted for the client.\<close>

lemma refusal_sent:
  assumes "4 \<le> length msg" and "refusal h msg s = Some err"
  shows "\<exists>es cmd. client_handleCommand h i msg (s\<lparr>client_socket := sk\<rparr>) =
    client_sendError h err (say es (s\<lparr>client_socket := sk, client_last := cmd\<rparr>))"
proof -
  let ?s = "s\<lparr>client_socket := sk\<rparr>"
  let ?c = "ServerCommand (load_at (byte_order h) 4 msg 0)"
  have same: "client_sendError h err ?s = client_sendError h err (say [] (?s\<lparr>client_last := c\<rparr>))" for c
    by (simp add: client_sendError_def)
  consider (off) "\<not> mIsConnected s \<or> misaligned msg" | (on) "mIsConnected s" "\<not> misaligned msg" by blast
  then show ?thesis
  proof cases
    case off
    then have "client_handleCommand h i msg ?s = client_sendError h err ?s"
      using assms by (auto simp: client_handleCommand_def refusal_def refused_message_def command_word_def)
    with same [of cmd] show ?thesis by (intro exI [of _ "[]"] exI [of _ cmd]) simp
  next
    case on
    show ?thesis
    proof (cases "map_of command_map ?c")
      case None
      then have "client_handleCommand h i msg ?s = client_sendError h err ?s" using on assms
        by (auto simp: client_handleCommand_def refusal_def refused_message_def command_word_def Let_def split: if_splits)
      with same [of cmd] show ?thesis by (intro exI [of _ "[]"] exI [of _ cmd]) simp
    next
      case (Some a)
      then have "client_handleCommand h i msg ?s =
          run_action h i a (command_data (byte_order h) msg) (?s\<lparr>client_last := ?c\<rparr>)"
        using on assms(1) by (simp add: client_handleCommand_def command_word_def Let_def)
      moreover have "\<exists>es. run_action h i a (command_data (byte_order h) msg) (?s\<lparr>client_last := ?c\<rparr>) =
          client_sendError h err (say es (?s\<lparr>client_last := ?c\<rparr>))"
        using Some on assms same [of ?c]
        by (cases a) (auto simp: refusal_def refused_message_def run_action_def genericForward_def
            sendPixelConfigData_def client_bindUdpPort_def Let_def split: if_splits intro: exI [of _ "[]"])
      ultimately show ?thesis by auto
    qed
  qed
qed

text \<open>C19. A message that cannot be executed is answered at once with its error code and nothing
  else happens: apart from the client's socket, the code kept for the next answer and the log
  the state is the one before, so no command is queued, nothing is sent to the Timepix, and
  neither a connection nor a thread changes.\<close>

theorem refused_command_answered:
  assumes "\<not> owing (client_socket s)" and "client_message i = Some msg" and "4 \<le> length msg"
    and "refusal h msg s = Some err"
  shows "\<exists>es. client_poll h i s = Inr (s\<lparr>client_last := err,
    client_socket := \<lparr>owing = False, answers = answers (client_socket s) @ [message (byte_order h) err []]\<rparr>,
    comms_log := comms_log s @ es\<rparr>)"
proof -
  obtain es cmd where "client_handleCommand h i msg (s\<lparr>client_socket := client_socket s\<lparr>owing := True\<rparr>\<rparr>) =
      client_sendError h err (say es (s\<lparr>client_socket := client_socket s\<lparr>owing := True\<rparr>, client_last := cmd\<rparr>))"
    using refusal_sent [OF assms(3,4)] by blast
  then have "client_poll h i s = Inr (s\<lparr>comms_log := comms_log s @ es, client_last := err,
      client_socket := \<lparr>owing = False, answers = answers (client_socket s) @ [message (byte_order h) err []]\<rparr>\<rparr>)"
    using assms(1,2) by (simp add: client_poll_def rep_recv_def client_sendError_def client_sendResponse_def rep_send_def)
  then show ?thesis by (intro exI [of _ es]) (cases s; simp)
qed

theorem refused_command_answered_witness:
  "\<exists>es. client_poll test_host (first_inputs\<lparr>client_message := Some (message Little GET_DAC [])\<rparr>) connected_server =
    Inr (connected_server\<lparr>client_last := INVALID_COMMAND_DATA,
      client_socket := \<lparr>owing = False, answers = [message Little INVALID_COMMAND_DATA []]\<rparr>,
      comms_log := comms_log connected_server @ es\<rparr>)"
proof -
  let ?msg = "message Little GET_DAC []"
  have w: "load_at Little 4 ?msg 0 = (33 :: u32)" "command_data Little ?msg = []" "\<not> misaligned ?msg" "4 \<le> length ?msg"
    using message_words [of "[]" Little GET_DAC] by (simp_all add: command_word_def split: if_splits)
  have "refusal test_host ?msg connected_server = Some INVALID_COMMAND_DATA"
    using connected_awaiting(1) w
    by (simp add: refusal_def refused_message_def awaiting_def test_host_def command_map_def Let_def)
  from refused_command_answered [OF _ _ w(4) this, of "first_inputs\<lparr>client_message := Some ?msg\<rparr>"]
  show ?thesis using connected_awaiting by (auto simp: awaiting_def test_host_def)
qed

section \<open>The command tables\<close>

text \<open>C20. The tables fit together: no command has two meanings, and every command forwarded to
  the Timepix has a handler for its reply.\<close>

theorem command_tables_consistent:
  "distinct (map fst command_map @ udp_forward_commands @ cluster_forward_commands @ histogram_forward_commands) \<and>
   (\<forall>cmd sz tpx. map_of command_map cmd = Some (Forward sz tpx) \<longrightarrow> tpx \<in> dom (map_of handler_sizes)) \<and>
   CMD_SET_PIXCONF \<in> dom (map_of handler_sizes) \<and> distinct (map fst handler_sizes)"
proof -
  have f: "list_all (\<lambda>(cmd, a). case a of Forward sz tpx \<Rightarrow> map_of handler_sizes tpx \<noteq> None | _ \<Rightarrow> True) command_map"
    by (simp add: command_map_def handler_sizes_def)
  have "\<forall>cmd sz tpx. map_of command_map cmd = Some (Forward sz tpx) \<longrightarrow> tpx \<in> dom (map_of handler_sizes)"
    using f by (auto simp: list_all_iff dest!: map_of_SomeD split: prod.splits)
  moreover have "distinct (map fst handler_sizes)" "CMD_SET_PIXCONF \<in> dom (map_of handler_sizes)"
    by (simp_all add: handler_sizes_def)
  moreover have "distinct (map fst command_map @ udp_forward_commands @ cluster_forward_commands @ histogram_forward_commands)"
    by (simp add: command_map_def udp_forward_commands_def cluster_forward_commands_def
        histogram_forward_commands_def)
  ultimately show ?thesis by blast
qed

theorem command_tables_consistent_witness:
  "CMD_GET_DAC \<in> dom (map_of handler_sizes)"
proof -
  have "map_of command_map GET_DAC = Some (Forward 1 CMD_GET_DAC)" by (simp add: command_map_def)
  then show ?thesis using command_tables_consistent by blast
qed

section \<open>Replies the server does not recover from\<close>

lemma reply_iteration:
  assumes "busy s" and "mIsExecutingCommand s" and "phase s = Running" and "\<not> should_cancel s"
    and "complete h i c s = Inr (s1, None)"
  shows "iterate h i [c] s = (if mIsExecutingCommand s1 then Inr s1 else client_poll h i s1)"
proof -
  have "tpx_poll h i [c] s = Inr (s1, None)"
    using assms(2,5) by (simp add: tpx_poll_def tpx_poll_body_def)
  then show ?thesis using assms(1,3,4) by (simp add: iterate_running busy_def)
qed


definition reading_server :: server where
  "reading_server = (queueCommand 0 CMD_GET_DAC [3] connected_server)\<lparr>mIsExecutingCommand := True,
     mLastCommandSource := Some 0, tpx_pending := Some Reading,
     client_socket := \<lparr>owing = True, answers = []\<rparr>, client_last := GET_DAC\<rparr>"

lemma reading_server_simps:
  "busy reading_server" "mIsExecutingCommand reading_server" "phase reading_server = Running"
  "\<not> should_cancel reading_server" "tpx_pending reading_server = Some Reading"
  "client_socket reading_server = \<lparr>owing = True, answers = []\<rparr>"
  by (simp_all add: reading_server_def busy_def one_queued_def queueCommand_def connected_server_def
      initializeConnection_def first_server_def initial_server_defs first_inputs_def)


text \<open>C26. A well-formed reply with a code that has no handler leaves the client without an answer:
  the command is dropped, and in the same iteration the client's socket refuses the next
  receive, so that the client manager is to be replaced and the UDP thread is told to stop.\<close>

theorem unknown_reply_resets_client:
  assumes "busy s" and "mIsExecutingCommand s" and "phase s = Running" and "\<not> should_cancel s"
    and "tpx_pending s = Some Reading" and "tpx_code cmd < 0x10000" and "length data \<le> 252"
    and "map_of handler_sizes cmd = None"
  shows "\<exists>s'. iterate h i [Recv_Done None (reply_bytes cmd 0 data)] s = Inr s' \<and>
    client_socket s' = client_socket s \<and> mQueuedCommands s' = [] \<and> \<not> mIsExecutingCommand s' \<and>
    mShouldResetClient s' \<and> udp_behind s' = map_option cancel_thread (udp_behind s)"
proof -
  let ?bs = "reply_bytes cmd 0 data"
  have fits: "take buffer_size ?bs = ?bs" using assms(7)
    by (simp add: length_reply_bytes buffer_size_def)
  obtain c where c: "mQueuedCommands s = [c]" using assms(1) by (auto simp: busy_def one_queued_def)
  define buf where "buf = ?bs @ drop (length ?bs) (mResponseBuffer s)"
  have dec: "decode_reply (byte_order h) buf (length ?bs) = Inr ([], Some (cmd, reply_payload data))"
    unfolding buf_def reply_payload_def
    by (rule decode_reply_bytes [OF assms(6,7)]) (simp add: error_report_def)
  define s1 where "s1 = s\<lparr>tpx_pending := None, mResponseBuffer := buf, comms_log := comms_log s @
    [Warn (''Did not recognise response from Timepix: '' @ to_string (uint (tpx_code cmd)))],
    mQueuedCommands := [], mIsExecutingCommand := False, mLastCommandSource := None\<rparr>"
  have "complete h i (Recv_Done None ?bs) s = Inr (s1, None)"
    using assms(1,8) dec c
    by (simp add: complete_def into_buffer_def assms(5) Let_def fits commandRecv_def processRecv_def busy_def s1_def
        flip: buf_def)
  from reply_iteration [OF assms(1-4) this]
  have "iterate h i [Recv_Done None ?bs] s = client_poll h i s1" by (simp add: s1_def)
  moreover have "owing (client_socket s1)" using assms(1) by (simp add: s1_def busy_def)
  ultimately show ?thesis by (simp add: client_poll_def rep_recv_def resetClientConnection_def s1_def)
qed

theorem unknown_reply_resets_client_witness:
  "\<exists>s'. iterate test_host first_inputs [Recv_Done None (reply_bytes CMD_SET_BUSY 0 [])] reading_server = Inr s' \<and>
    answers (client_socket s') = [] \<and> owing (client_socket s') \<and> mShouldResetClient s'"
  using unknown_reply_resets_client [of reading_server CMD_SET_BUSY "[]" test_host first_inputs] reading_server_simps
  by (auto simp: handler_sizes_def)

text \<open>C27. Once the UDP thread has been told to stop, the socket to it remains: the next UDP command
  waits for an answer that never comes, and the main thread no longer does anything.\<close>

theorem udp_command_blocks_server:
  assumes "awaiting s" and "udp_behind s = Some t" and "th_cancelled t"
    and "cmd \<in> set udp_forward_commands"
    and "client_message i = Some (message (byte_order h) cmd args)" and "4 * (length args + 1) < 2 ^ 32"
  shows "\<exists>s'. iterate h i [] s = Inr s' \<and> answers (client_socket s') = answers (client_socket s) \<and>
    owing (client_socket s') \<and> (\<forall>i' cs. iterate h i' cs s' = Inr s')"
proof -
  have cm: "map_of command_map cmd = None"
    using assms(4) by (auto simp: udp_forward_commands_def command_map_def)
  have on: "mIsConnected s" using assms(1) by (simp add: awaiting_def)
  let ?s = "s\<lparr>client_socket := client_socket s\<lparr>owing := True\<rparr>\<rparr>"
  have "client_handleCommand h i (message (byte_order h) cmd args) ?s =
      forward_udp h i (message (byte_order h) cmd args) ?s"
    using message_words [OF assms(6), of "byte_order h" cmd] cm assms(4) on
    by (cases cmd) (simp add: client_handleCommand_def Let_def)
  also have "\<dots> = Inr (?s\<lparr>phase := Blocked\<rparr>)"
    using assms(2,3) by (simp add: forward_udp_def ask_thread_def udp_alive_def forward_answer_def)
  finally have "iterate h i [] s = Inr (?s\<lparr>phase := Blocked\<rparr>)" by (simp only: client_takes [OF assms(1,5)])
  then show ?thesis by (intro exI [of _ "?s\<lparr>phase := Blocked\<rparr>"]) (simp add: iterate_blocked)
qed

theorem udp_command_blocks_server_witness:
  "\<exists>s'. iterate test_host (first_inputs\<lparr>client_message := Some (message Little RESET_TOA_ROLLOVER_COUNTER [])\<rparr>) []
      (resetClientConnection (bindUdpPort first_inputs connected_server)\<lparr>mShouldResetClient := False\<rparr>) = Inr s' \<and>
    answers (client_socket s') = [] \<and> (\<forall>i' cs. iterate test_host i' cs s' = Inr s')"
  using udp_command_blocks_server [of "resetClientConnection (bindUdpPort first_inputs connected_server)
      \<lparr>mShouldResetClient := False\<rparr>" "cancel_thread (new_udp_thread first_inputs)" RESET_TOA_ROLLOVER_COUNTER
      "first_inputs\<lparr>client_message := Some (message Little RESET_TOA_ROLLOVER_COUNTER [])\<rparr>" test_host "[]"]
    connected_awaiting
  by (auto simp: resetClientConnection_def bindUdpPort_def cancel_thread_def udp_forward_commands_def
      awaiting_def io_idle_def test_host_def)

end
