(* ===== verification/Session.thy ===== *)
theory Session
  imports ServerProps
begin

text \<open>
  Whole sessions: from the start of the server over the connection to the Timepix, any number
  of requests of the client are answered one after another, however the completions of the
  socket operations are spread over the iterations of the main loop.
\<close>

section \<open>Runs of the main loop\<close>

fun run_iterations :: "host \<Rightarrow> (inputs \<times> completion list) list \<Rightarrow> server \<Rightarrow> server result" where
  "run_iterations h [] s = Inr s"
| "run_iterations h ((i, cs) # its) s = and_then (iterate h i cs s) (run_iterations h its)"

lemma run_iterations_append:
  "run_iterations h (xs @ ys) s = and_then (run_iterations h xs s) (run_iterations h ys)"
  by (induction h xs s rule: run_iterations.induct) (auto simp: and_then_def split: sum.split)

text \<open>An iteration in which the client sends nothing.\<close>

definition silent :: "inputs \<times> completion list \<Rightarrow> bool" where
  "silent it \<longleftrightarrow> client_message (fst it) = None"

lemma silent_iff [simp]: "silent (i, cs) \<longleftrightarrow> client_message i = None"
  by (simp add: silent_def)

text \<open>The secondary threads that are there run.\<close>

definition threads_up :: "server \<Rightarrow> bool" where
  "threads_up s \<longleftrightarrow>
     (\<forall>t. udp_behind s = Some t \<longrightarrow> udp_alive t) \<and>
     (\<forall>t. cluster_behind s = Some t \<longrightarrow> \<not> th_cancelled t) \<and>
     (\<forall>t. histogram_behind s = Some t \<longrightarrow> \<not> th_cancelled t)"

definition serving :: "server \<Rightarrow> bool" where
  "serving s \<longleftrightarrow> awaiting s \<and> tpx_pending s = None \<and> threads_ok s \<and> threads_up s"

definition executing :: "pending_op \<Rightarrow> server \<Rightarrow> bool" where
  "executing p s \<longleftrightarrow> busy s \<and> mIsExecutingCommand s \<and> tpx_pending s = Some p \<and> phase s = Running \<and>
     \<not> should_cancel s \<and> threads_ok s \<and> threads_up s"

lemma threads_up_frame [simp]:
  "threads_up (s\<lparr>mIsConnected := v0\<rparr>) = threads_up s"
  "threads_up (s\<lparr>mIsExecutingCommand := v1\<rparr>) = threads_up s"
  "threads_up (s\<lparr>mLastCommandSource := v2\<rparr>) = threads_up s"
  "threads_up (s\<lparr>mQueuedCommands := v3\<rparr>) = threads_up s"
  "threads_up (s\<lparr>mResponseBuffer := v4\<rparr>) = threads_up s"
  "threads_up (s\<lparr>tpx_open := v5\<rparr>) = threads_up s"
  "threads_up (s\<lparr>tpx_pending := v6\<rparr>) = threads_up s"
  "threads_up (s\<lparr>tpx_sent := v7\<rparr>) = threads_up s"
  "threads_up (s\<lparr>client_id := v8\<rparr>) = threads_up s"
  "threads_up (s\<lparr>client_socket := v9\<rparr>) = threads_up s"
  "threads_up (s\<lparr>client_last := v10\<rparr>) = threads_up s"
  "threads_up (s\<lparr>comms_log := v11\<rparr>) = threads_up s"
  "threads_up (s\<lparr>should_cancel := v12\<rparr>) = threads_up s"
  "threads_up (s\<lparr>mShouldResetClient := v13\<rparr>) = threads_up s"
  "threads_up (s\<lparr>phase := v14\<rparr>) = threads_up s"
  by (simp_all add: threads_up_def)

lemma serving_poll:
  assumes "serving s"
  shows "iterate h i cs s = client_poll h i s"
proof -
  have "tpx_poll h i cs s = Inr (s, None)"
    using assms no_completion [of s h i cs] by (simp add: serving_def awaiting_def tpx_poll_def tpx_poll_body_def)
  then show ?thesis using assms by (simp add: serving_def awaiting_def iterate_running)
qed

lemma serving_takes:
  "serving s \<Longrightarrow> client_message i = Some msg \<Longrightarrow>
     iterate h i cs s = client_handleCommand h i msg (s\<lparr>client_socket := client_socket s\<lparr>owing := True\<rparr>\<rparr>)"
  by (simp add: serving_poll client_poll_def rep_recv_def) (simp add: serving_def awaiting_def)

lemma serving_silent: "serving s \<Longrightarrow> silent (i, cs) \<Longrightarrow> iterate h i cs s = Inr s"
  by (simp add: serving_poll) (simp add: serving_def awaiting_def no_message)

lemma silent_run: "serving s \<Longrightarrow> list_all silent its \<Longrightarrow> run_iterations h its s = Inr s"
  by (induction its) (auto simp: serving_silent)

lemma executing_iterate:
  assumes "executing p s" and "run_io h i cs s = Inr (s1, None)"
  shows "iterate h i cs s = (if mIsExecutingCommand s1 then Inr s1 else client_poll h i s1)"
proof -
  have "tpx_poll h i cs s = Inr (s1, None)"
    using assms by (simp add: executing_def tpx_poll_def tpx_poll_body_def)
  then show ?thesis using assms(1) by (simp add: executing_def busy_def iterate_running)
qed

lemma executing_no_completion: "executing p s \<Longrightarrow> iterate h i [] s = Inr s"
  using executing_iterate [of p s h i "[]" s] by (simp add: executing_def)

section \<open>Waiting for the Timepix\<close>

definition answered_with :: "bytes \<Rightarrow> server \<Rightarrow> server \<Rightarrow> bool" where
  "answered_with msg s s' \<longleftrightarrow> serving s' \<and> tpx_sent s' = tpx_sent s \<and>
     answers (client_socket s') = answers (client_socket s) @ [msg]"

lemma executing_reply:
  assumes "executing Reading s" and "map_of handler_sizes cmd = Some (length (reply_payload data))"
    and "error_report (tpx_code cmd) err = Inr errs"
  shows "\<exists>s'. complete h i (Recv_Done None (reply_bytes cmd err data)) s = Inr (s', None) \<and>
    answered_with (message (byte_order h) (client_last s) (reply_payload data)) s s' \<and> \<not> mIsExecutingCommand s'"
proof -
  have "busy s" "tpx_pending s = Some Reading" using assms(1) by (simp_all add: executing_def)
  from reply_completes [OF this assms(2) refl assms(3), of h i] assms(1) show ?thesis
    by (auto simp: answered_with_def serving_def awaiting_def executing_def busy_def io_idle_def)
qed

lemma wait_for_reply:
  assumes "executing Reading s" and "map_of handler_sizes cmd = Some (length (reply_payload data))"
    and "error_report (tpx_code cmd) err = Inr errs" and "list_all silent its"
    and "concat (map snd its) = [Recv_Done None (reply_bytes cmd err data)]"
  shows "\<exists>s'. run_iterations h its s = Inr s' \<and>
    answered_with (message (byte_order h) (client_last s) (reply_payload data)) s s'"
  using assms(4,5)
proof (induction its)
  case (Cons it its)
  obtain i cs where it: "it = (i, cs)" by (cases it)
  show ?case
  proof (cases cs)
    case Nil
    with Cons it assms(1) show ?thesis by (simp add: executing_no_completion)
  next
    case (Cons c cs')
    then have cs: "cs = [Recv_Done None (reply_bytes cmd err data)]" using Cons.prems it by simp
    from executing_reply [OF assms(1-3), of h i] obtain s' where
      s': "complete h i (Recv_Done None (reply_bytes cmd err data)) s = Inr (s', None)"
      "answered_with (message (byte_order h) (client_last s) (reply_payload data)) s s'" "\<not> mIsExecutingCommand s'"
      by blast
    then have "serving s'" by (simp add: answered_with_def)
    then have "iterate h i cs s = Inr s'"
      using executing_iterate [OF assms(1), of h i cs s'] s'(1,3) Cons.prems it cs
      by (simp add: no_message serving_def awaiting_def)
    then show ?thesis using silent_run [OF \<open>serving s'\<close>, of its h] Cons.prems it s'(2) by simp
  qed
qed simp

lemma wait_for_exchange:
  assumes "executing Sending s" and "map_of handler_sizes cmd = Some (length (reply_payload data))"
    and "error_report (tpx_code cmd) err = Inr errs" and "list_all silent its"
    and "concat (map snd its) = [Send_Done, Recv_Done None (reply_bytes cmd err data)]"
  shows "\<exists>s'. run_iterations h its s = Inr s' \<and>
    answered_with (message (byte_order h) (client_last s) (reply_payload data)) s s'"
  using assms(4,5)
proof (induction its)
  case (Cons it its)
  obtain i cs where it: "it = (i, cs)" by (cases it)
  let ?R = "Recv_Done None (reply_bytes cmd err data)"
  let ?s1 = "s\<lparr>tpx_pending := Some Reading\<rparr>"
  have e1: "executing Reading ?s1" using assms(1) by (simp add: executing_def busy_def one_queued_def)
  have c1: "complete h i Send_Done s = Inr (?s1, None)" using assms(1) by (simp add: executing_def complete_def)
  consider (none) "cs = []" "concat (map snd its) = [Send_Done, ?R]"
    | (sent) "cs = [Send_Done]" "concat (map snd its) = [?R]"
    | (both) "cs = [Send_Done, ?R]" "concat (map snd its) = []"
    using Cons.prems(2) it by (auto simp: append_eq_Cons_conv)
  then show ?case
  proof cases
    case none
    with Cons it assms(1) show ?thesis by (simp add: executing_no_completion)
  next
    case sent
    have "iterate h i cs s = Inr ?s1"
      using executing_iterate [OF assms(1), of h i cs ?s1] c1 sent(1) assms(1) by (simp add: executing_def)
    then show ?thesis using wait_for_reply [OF e1 assms(2,3) _ sent(2), of h] Cons.prems it
      by (simp add: answered_with_def)
  next
    case both
    have "concat (map snd ((i, [?R]) # its)) = [?R]" using both(2) by simp
    moreover have "list_all silent ((i, [?R]) # its)" using Cons.prems(1) it by simp
    ultimately obtain s' where
      "run_iterations h ((i, [?R]) # its) ?s1 = Inr s'"
      "answered_with (message (byte_order h) (client_last s) (reply_payload data)) s s'"
      using wait_for_reply [OF e1 assms(2,3), of "(i, [?R]) # its" h] by (auto simp: answered_with_def)
    moreover have "tpx_poll h i cs s = tpx_poll h i [?R] ?s1"
      using assms(1) c1 both(1) by (simp add: tpx_poll_def tpx_poll_body_def executing_def)
    then have "iterate h i cs s = iterate h i [?R] ?s1"
      using assms(1) by (simp add: iterate_def executing_def busy_def)
    ultimately show ?thesis using it by simp
  qed
qed simp

section \<open>Requests\<close>

text \<open>
  What a client can ask for: a command for the Timepix with the reply that the Timepix will
  give, a reset of the connection, the start of the UDP thread, a command for another thread,
  and a message that the server refuses.
\<close>

datatype request =
    To_Timepix server_command "u32 list" tpx_command u32 "u32 list"
  | Reset_Module "u32 list"
  | Bind_Port "u32 list"
  | To_Thread server_command "u32 list"
  | Refused bytes server_command

fun request_message :: "host \<Rightarrow> request \<Rightarrow> bytes" where
  "request_message h (To_Timepix cmd args tpx err data) = message (byte_order h) cmd args"
| "request_message h (Reset_Module args) = message (byte_order h) RESET_MODULE args"
| "request_message h (Bind_Port args) = message (byte_order h) SET_UDP_PORT args"
| "request_message h (To_Thread cmd args) = message (byte_order h) cmd args"
| "request_message h (Refused msg err) = msg"

text \<open>A flush is left out because it faults when an open cluster has no weight.\<close>

definition thread_command :: "server_command \<Rightarrow> u32 list \<Rightarrow> bool" where
  "thread_command cmd args \<longleftrightarrow>
     cmd \<in> set (udp_forward_commands @ cluster_forward_commands @ histogram_forward_commands) \<and>
     cmd \<noteq> FLUSH_CLUSTERS \<and> (cmd = SET_CLUSTER_PARAMETERS \<longrightarrow> 3 \<le> length args) \<and>
     4 * (length args + 1) < 2 ^ 32"

fun request_ok :: "host \<Rightarrow> request \<Rightarrow> bool" where
  "request_ok h (To_Timepix cmd args tpx err data) \<longleftrightarrow>
     (map_of command_map cmd = Some (Forward (length args) tpx) \<and> tpx \<noteq> CMD_RESET_MODULE \<or>
      map_of command_map cmd = Some Pixel_Config \<and> tpx = CMD_SET_PIXCONF \<and> length args mod 48 = 1) \<and>
     length args \<le> 252 \<and> map_of handler_sizes tpx = Some (length (reply_payload data)) \<and>
     \<not> isl (error_report (tpx_code tpx) err)"
| "request_ok h (Reset_Module args) \<longleftrightarrow> length args = 1"
| "request_ok h (Bind_Port args) \<longleftrightarrow> length args = 1"
| "request_ok h (To_Thread cmd args) \<longleftrightarrow> thread_command cmd args"
| "request_ok h (Refused msg err) \<longleftrightarrow> 4 \<le> length msg \<and> refused_message h msg = Some err"

text \<open>The bytes that go to the Timepix, and what the client may get.\<close>

fun wire :: "host \<Rightarrow> request \<Rightarrow> bytes result list" where
  "wire h (To_Timepix cmd args tpx err data) = [command_bytes (byte_order h) tpx args False]"
| "wire h (Reset_Module args) = [command_bytes (byte_order h) CMD_RESET_MODULE args False]"
| "wire h _ = []"

fun expected :: "host \<Rightarrow> request \<Rightarrow> bytes \<Rightarrow> bool" where
  "expected h (To_Timepix cmd args tpx err data) msg \<longleftrightarrow> msg = message (byte_order h) cmd (reply_payload data)"
| "expected h (Reset_Module args) msg \<longleftrightarrow> msg = message (byte_order h) RESET_MODULE []"
| "expected h (Bind_Port args) msg \<longleftrightarrow> msg = message (byte_order h) SET_UDP_PORT []"
| "expected h (To_Thread cmd args) msg \<longleftrightarrow>
     answer_to h cmd msg \<or> msg = message (byte_order h) THREAD_NOT_STARTED []"
| "expected h (Refused m err) msg \<longleftrightarrow> msg = message (byte_order h) err []"

text \<open>
  An exchange: the request, the iteration that takes it, and the silent ones until the next.
  During a command for the Timepix the operating system completes the send and the receive in
  some of them; a reset and the start of the UDP thread find the network in order.
\<close>

type_synonym exchange = "request \<times> (inputs \<times> completion list) \<times> (inputs \<times> completion list) list"

fun exchange_ok :: "host \<Rightarrow> exchange \<Rightarrow> bool" where
  "exchange_ok h (r, (i, cs), its) \<longleftrightarrow>
     request_ok h r \<and> client_message i = Some (request_message h r) \<and> list_all silent its \<and>
     (case r of
        To_Timepix cmd args tpx err data \<Rightarrow>
          concat (map snd its) = [Send_Done, Recv_Done None (reply_bytes tpx err data)]
      | Reset_Module args \<Rightarrow> its \<noteq> [] \<and>
          bind_error (fst (hd its)) = None \<and> address_error (fst (hd its)) = None \<and>
          connect_error (fst (hd its)) = None \<and> drain_error (fst (hd its)) = None
      | Bind_Port args \<Rightarrow> udp_bind_error i = None
      | _ \<Rightarrow> True)"

fun exchange_iterations :: "exchange \<Rightarrow> (inputs \<times> completion list) list" where
  "exchange_iterations (r, it, its) = it # its"

text \<open>One request served: an answer, and its bytes on the wire.\<close>

definition served :: "host \<Rightarrow> request \<Rightarrow> server \<Rightarrow> server \<Rightarrow> bool" where
  "served h r s s' \<longleftrightarrow> serving s' \<and>
     (\<exists>msg. answers (client_socket s') = answers (client_socket s) @ [msg] \<and> expected h r msg) \<and>
     map Inr (tpx_sent s') = map Inr (tpx_sent s) @ wire h r"

section \<open>Requests that take one iteration\<close>

definition taking :: "server \<Rightarrow> server" where
  "taking s = s\<lparr>client_socket := client_socket s\<lparr>owing := True\<rparr>\<rparr>"

lemma taking_client:
  assumes "serving s" and "client_message i = Some msg"
  shows "iterate h i cs s = client_handleCommand h i msg (taking s)"
  using serving_takes [OF assms] by (simp add: taking_def)

lemma refused_served:
  assumes "serving s" and "request_ok h (Refused msg err)" and "client_message i = Some msg"
  shows "\<exists>s'. iterate h i cs s = Inr s' \<and> served h (Refused msg err) s s'"
proof -
  have "4 \<le> length msg" "refusal h msg s = Some err"
    using assms(1,2) by (simp_all add: refusal_def serving_def awaiting_def)
  from refusal_sent [OF this, of i "client_socket s\<lparr>owing := True\<rparr>"] obtain es cmd where
    "client_handleCommand h i msg (taking s) = client_sendError h err (say es ((taking s)\<lparr>client_last := cmd\<rparr>))"
    by (auto simp: taking_def)
  then show ?thesis using assms(1) taking_client [OF assms(1,3), of h cs]
    by (simp add: sendError_client taking_def served_def serving_def awaiting_def io_idle_def)
qed

lemma mapped_request:
  assumes "serving s" and "client_message i = Some (message (byte_order h) cmd args)"
    and "map_of command_map cmd = Some a" and "4 * (length args + 1) < 2 ^ 32"
  shows "iterate h i cs s = run_action h i a args ((taking s)\<lparr>client_last := cmd\<rparr>)"
proof -
  have "mIsConnected (taking s)" using assms(1) by (simp add: serving_def awaiting_def taking_def)
  then show ?thesis using handle_mapped [OF _ assms(3,4), of "taking s" h i] taking_client [OF assms(1,2), of h cs] by simp
qed

lemma bind_served:
  assumes "serving s" and "request_ok h (Bind_Port args)"
    and "client_message i = Some (request_message h (Bind_Port args))" and "udp_bind_error i = None"
  shows "\<exists>s'. iterate h i cs s = Inr s' \<and> served h (Bind_Port args) s s'"
proof -
  have "iterate h i cs s = run_action h i Bind_Udp_Port args ((taking s)\<lparr>client_last := SET_UDP_PORT\<rparr>)"
    using assms(2,3) by (intro mapped_request [OF assms(1)]) (simp_all add: command_map_def)
  moreover have "udp_alive (new_udp_thread i)" "\<not> owing (socket (new_udp_thread i))"
    using assms(4) by (simp_all add: udp_alive_def new_udp_thread_def start_thread_def fresh_rep_def
        udp_attemptConnection_def init_udp_manager_def)
  ultimately show ?thesis using assms(1,2)
    by (simp add: run_action_def client_bindUdpPort_def sendResponse_client bindUdpPort_def taking_def
        served_def serving_def awaiting_def io_idle_def threads_ok_def threads_up_def)
qed

context command_thread
begin

lemma ask_live:
  assumes "\<not> owing (socket t)" and "4 * (length args + 1) < 2 ^ 32"
    and total: "\<exists>t'. handle h cmd args (t\<lparr>socket := (socket t)\<lparr>owing := True\<rparr>, mLastCommand := cmd\<rparr>) = Inr t'"
  shows "\<exists>t' msg. ask_thread handle True ex h (message (byte_order h) cmd args) t = Inr (Some msg, t') \<and>
    answer_to h cmd msg \<and> \<not> owing (socket t') \<and> th_cancelled t' = th_cancelled t \<and>
    handle h cmd args (t\<lparr>socket := (socket t)\<lparr>owing := True\<rparr>, mLastCommand := cmd\<rparr>) = Inr t'"
proof -
  let ?t = "t\<lparr>socket := (socket t)\<lparr>owing := True\<rparr>, mLastCommand := cmd\<rparr>"
  obtain t' where t': "handle h cmd args ?t = Inr t'" using total by auto
  then have poll: "pollCommands handle ex h (Some (message (byte_order h) cmd args)) t = Inr t'"
    using assms(1) by (simp add: pollCommands_def rep_recv_def message_words [OF assms(2)] Let_def)
  from poll_answers [OF assms(1,2) poll] obtain msg where
    "\<not> owing (socket t')" "th_cancelled t' = th_cancelled t"
    "answers (socket t') = answers (socket t) @ [msg]" "answer_to h cmd msg" by blast
  with poll t' show ?thesis by (simp add: ask_thread_def)
qed

end

lemma forwarded:
  assumes "serving s" and "client_message i = Some (message (byte_order h) cmd args)" and "thread_command cmd args"
  shows "iterate h i cs s =
    (if cmd \<in> set udp_forward_commands then forward_udp h i (message (byte_order h) cmd args) (taking s)
     else if cmd \<in> set cluster_forward_commands then forward_cluster h i (message (byte_order h) cmd args) (taking s)
     else forward_histogram h i (message (byte_order h) cmd args) (taking s))"
proof -
  have c: "4 * (length args + 1) < 2 ^ 32"
    "cmd \<in> set (udp_forward_commands @ cluster_forward_commands @ histogram_forward_commands)"
    using assms(3) by (simp_all add: thread_command_def)
  have "list_all (\<lambda>cmd. map_of command_map cmd = None)
      (udp_forward_commands @ cluster_forward_commands @ histogram_forward_commands)"
    by (simp add: udp_forward_commands_def cluster_forward_commands_def histogram_forward_commands_def command_map_def)
  with c(2) have "map_of command_map cmd = None" unfolding list_all_iff by blast
  moreover have "mIsConnected (taking s)" using assms(1) by (simp add: serving_def awaiting_def taking_def)
  ultimately show ?thesis using c command_word_message [OF c(1), of "byte_order h" cmd] message_words [OF c(1), of "byte_order h" cmd]
    unfolding taking_client [OF assms(1,2), of h cs]
    by (auto simp: client_handleCommand_def Let_def)
qed

lemmas answered_frame = taking_def served_def serving_def awaiting_def io_idle_def threads_ok_def threads_up_def

lemma not_started:
  assumes "serving s"
  shows "\<exists>s'. client_sendError h THREAD_NOT_STARTED (taking s) = Inr s' \<and> served h (To_Thread cmd args) s s'"
  using assms by (simp add: sendError_client answered_frame)

lemma udp_served:
  assumes "serving s" and "4 * (length args + 1) < 2 ^ 32"
  shows "\<exists>s'. forward_udp h i (message (byte_order h) cmd args) (taking s) = Inr s' \<and>
    served h (To_Thread cmd args) s s'"
proof (cases "udp_behind s")
  case None
  then show ?thesis using not_started [OF assms(1)] by (simp add: forward_udp_def taking_def)
next
  case (Some t)
  then have t: "\<not> owing (socket t)" "udp_alive t" using assms(1)
    by (simp_all add: serving_def threads_ok_def threads_up_def)
  have total: "\<exists>t'. udp_handleCommand h cmd args (t\<lparr>socket := (socket t)\<lparr>owing := True\<rparr>, mLastCommand := cmd\<rparr>) = Inr t'"
    by (rule udp_handler_total) simp
  obtain t' msg where ask:
    "ask_thread udp_handleCommand True (io_error i) h (message (byte_order h) cmd args) t = Inr (Some msg, t')"
    "answer_to h cmd msg" "\<not> owing (socket t')" "th_cancelled t' = th_cancelled t"
    "udp_handleCommand h cmd args (t\<lparr>socket := (socket t)\<lparr>owing := True\<rparr>, mLastCommand := cmd\<rparr>) = Inr t'"
    using udp_commands.ask_live [OF t(1) assms(2) total, of "io_error i"] by blast
  then show ?thesis using udp_handler_keeps_manager [OF ask(5)] assms(1) t(2) Some
    by (simp add: forward_udp_def forward_answer_def rep_send_def udp_alive_def answered_frame)
qed

lemma cluster_served:
  assumes "serving s" and "\<And>t. cluster_command_ok cmd args t" and "4 * (length args + 1) < 2 ^ 32"
  shows "\<exists>s'. forward_cluster h i (message (byte_order h) cmd args) (taking s) = Inr s' \<and>
    served h (To_Thread cmd args) s s'"
proof (cases "cluster_behind s")
  case None
  then show ?thesis using not_started [OF assms(1)] by (simp add: forward_cluster_def taking_def)
next
  case (Some t)
  then have t: "\<not> owing (socket t)" "\<not> th_cancelled t" using assms(1)
    by (simp_all add: serving_def threads_ok_def threads_up_def)
  have total: "\<exists>t'. cluster_handleCommand h cmd args (t\<lparr>socket := (socket t)\<lparr>owing := True\<rparr>, mLastCommand := cmd\<rparr>) = Inr t'"
    by (rule cluster_handler_total [OF _ assms(2)]) simp
  obtain t' msg where ask:
    "ask_thread cluster_handleCommand True (io_error i) h (message (byte_order h) cmd args) t = Inr (Some msg, t')"
    "answer_to h cmd msg" "\<not> owing (socket t')" "th_cancelled t' = th_cancelled t"
    "cluster_handleCommand h cmd args (t\<lparr>socket := (socket t)\<lparr>owing := True\<rparr>, mLastCommand := cmd\<rparr>) = Inr t'"
    using cluster_commands.ask_live [OF t(1) assms(3) total, of "io_error i"] by blast
  then show ?thesis using assms(1) t(2) Some
    by (simp add: forward_cluster_def forward_answer_def rep_send_def answered_frame)
qed

lemma histogram_served:
  assumes "serving s" and "4 * (length args + 1) < 2 ^ 32"
  shows "\<exists>s'. forward_histogram h i (message (byte_order h) cmd args) (taking s) = Inr s' \<and>
    served h (To_Thread cmd args) s s'"
proof (cases "histogram_behind s")
  case None
  then show ?thesis using not_started [OF assms(1)] by (simp add: forward_histogram_def taking_def)
next
  case (Some t)
  then have t: "\<not> owing (socket t)" "\<not> th_cancelled t" using assms(1)
    by (simp_all add: serving_def threads_ok_def threads_up_def)
  have total: "\<exists>t'. histogram_handleCommand h cmd args (t\<lparr>socket := (socket t)\<lparr>owing := True\<rparr>, mLastCommand := cmd\<rparr>) = Inr t'"
    by (rule histogram_handler_total) simp
  obtain t' msg where ask:
    "ask_thread histogram_handleCommand True (io_error i) h (message (byte_order h) cmd args) t = Inr (Some msg, t')"
    "answer_to h cmd msg" "\<not> owing (socket t')" "th_cancelled t' = th_cancelled t"
    "histogram_handleCommand h cmd args (t\<lparr>socket := (socket t)\<lparr>owing := True\<rparr>, mLastCommand := cmd\<rparr>) = Inr t'"
    using histogram_commands.ask_live [OF t(1) assms(2) total, of "io_error i"] by blast
  then show ?thesis using assms(1) t(2) Some
    by (simp add: forward_histogram_def forward_answer_def rep_send_def answered_frame)
qed

lemma thread_served:
  assumes "serving s" and "request_ok h (To_Thread cmd args)"
    and "client_message i = Some (request_message h (To_Thread cmd args))"
  shows "\<exists>s'. iterate h i cs s = Inr s' \<and> served h (To_Thread cmd args) s s'"
proof -
  have c: "thread_command cmd args" "client_message i = Some (message (byte_order h) cmd args)" "4 * (length args + 1) < 2 ^ 32"
    using assms(2,3) by (simp_all add: thread_command_def)
  have ok: "cluster_command_ok cmd args t" for t using c(1) by (simp add: cluster_command_ok_def thread_command_def)
  show ?thesis
    unfolding forwarded [OF assms(1) c(2,1)]
    using udp_served [OF assms(1) c(3), of h i cmd] cluster_served [OF assms(1) ok c(3), of h i]
      histogram_served [OF assms(1) c(3), of h i cmd]
    by (auto simp only: split: if_split)
qed

section \<open>Requests for the Timepix\<close>

definition queued_for :: "server_command \<Rightarrow> tpx_command \<Rightarrow> u32 list \<Rightarrow> server \<Rightarrow> server" where
  "queued_for cmd tpx args s = queueCommand (client_id s) tpx args ((taking s)\<lparr>client_last := cmd\<rparr>)"

definition sending :: "bytes \<Rightarrow> server \<Rightarrow> server" where
  "sending bs s = s\<lparr>mIsExecutingCommand := True, tpx_pending := Some Sending,
     tpx_sent := tpx_sent s @ [bs], mLastCommandSource := Some (client_id s)\<rparr>"

lemma queued_state:
  assumes "serving s"
  shows "phase (queued_for cmd tpx args s) = Running" "\<not> should_cancel (queued_for cmd tpx args s)"
    "\<not> mShouldResetClient (queued_for cmd tpx args s)" "mIsConnected (queued_for cmd tpx args s)"
    "\<not> mIsExecutingCommand (queued_for cmd tpx args s)"
    "mQueuedCommands (queued_for cmd tpx args s) = [\<lparr>command = tpx, command_args = args, sender = client_id s\<rparr>]"
    "client_id (queued_for cmd tpx args s) = client_id s" "client_last (queued_for cmd tpx args s) = cmd"
    "answers (client_socket (queued_for cmd tpx args s)) = answers (client_socket s)"
    "tpx_sent (queued_for cmd tpx args s) = tpx_sent s" "owing (client_socket (queued_for cmd tpx args s))"
    "threads_ok (queued_for cmd tpx args s)" "threads_up (queued_for cmd tpx args s)"
  using assms by (simp_all add: queued_for_def queueCommand_def taking_def serving_def awaiting_def)

lemma timepix_taken:
  assumes "serving s" and "request_ok h (To_Timepix cmd args tpx err data)"
    and "client_message i = Some (message (byte_order h) cmd args)"
  shows "iterate h i cs s = Inr (queued_for cmd tpx args s)"
proof -
  have small: "4 * (length args + 1) < 2 ^ 32" using assms(2) by simp
  note it = mapped_request [OF assms(1,3) _ small, of _ cs]
  consider "map_of command_map cmd = Some (Forward (length args) tpx)"
    | "map_of command_map cmd = Some Pixel_Config" "tpx = CMD_SET_PIXCONF" "length args mod 48 = 1"
    using assms(2) by auto
  then show ?thesis
  proof cases
    case 1
    then show ?thesis by (simp add: it run_action_def genericForward_def queued_for_def taking_def)
  next
    case 2
    have "((of_nat (length args) - 1 :: u64) mod 48) = 0"
    proof -
      obtain n where n: "length args = 48 * n + 1" using 2(3) by (metis mult_div_mod_eq)
      then have "n \<le> 5" using assms(2) by simp
      have "(of_nat (length args) - 1 :: u64) = 48 * of_nat n" using n by simp
      moreover have "unat (48 * of_nat n :: u64) = 48 * n" using \<open>n \<le> 5\<close>
        by (simp add: unat_word_ariths unat_of_nat)
      then have "unat ((48 * of_nat n :: u64) mod 48) = 0" by (simp add: unat_mod)
      ultimately show ?thesis by (simp add: unat_eq_zero)
    qed
    then show ?thesis using 2 by (simp add: it run_action_def sendPixelConfigData_def queued_for_def taking_def)
  qed
qed

lemma sending_iterate:
  assumes "serving s" and "tpx \<noteq> CMD_RESET_MODULE" and "command_bytes (byte_order h) tpx args False = Inr bs"
  shows "iterate h i cs (queued_for cmd tpx args s) = iterate h i cs (sending bs (queued_for cmd tpx args s))"
proof -
  have "tpx_poll h i cs (queued_for cmd tpx args s) = tpx_poll h i cs (sending bs (queued_for cmd tpx args s))"
    using assms(2,3) queued_state [OF assms(1)]
    by (simp add: tpx_poll_def tpx_poll_body_def sendCommand_def sending_def)
  then show ?thesis using queued_state [OF assms(1)] by (simp add: iterate_def sending_def)
qed

lemma sending_executing:
  "serving s \<Longrightarrow> executing Sending (sending bs (queued_for cmd tpx args s))"
  using queued_state [of s cmd tpx args] by (simp add: executing_def sending_def busy_def one_queued_def)

lemma timepix_served:
  assumes "serving s" and "exchange_ok h (To_Timepix cmd args tpx err data, (i, cs), its)"
  shows "\<exists>s'. run_iterations h ((i, cs) # its) s = Inr s' \<and> served h (To_Timepix cmd args tpx err data) s s'"
proof -
  have ok: "request_ok h (To_Timepix cmd args tpx err data)" "list_all silent its"
    "concat (map snd its) = [Send_Done, Recv_Done None (reply_bytes tpx err data)]"
    "client_message i = Some (message (byte_order h) cmd args)" using assms(2) by simp_all
  obtain bs where bs: "command_bytes (byte_order h) tpx args False = Inr bs"
    using command_bytes_wire [of args "byte_order h" tpx False] ok(1) by auto
  let ?s1 = "queued_for cmd tpx args s"
  obtain i' cs' its' where its: "its = (i', cs') # its'" using ok(3) by (cases its) auto
  have "tpx \<noteq> CMD_RESET_MODULE" using ok(1) by auto
  then have "run_iterations h its ?s1 = run_iterations h its (sending bs ?s1)"
    using sending_iterate [OF assms(1) _ bs] by (simp add: its)
  moreover obtain errs where "error_report (tpx_code tpx) err = Inr errs"
    using ok(1) by (cases "error_report (tpx_code tpx) err") auto
  from wait_for_exchange [OF sending_executing [OF assms(1), of bs cmd tpx args] _ this ok(2,3), of h] ok(1) obtain s' where
    "run_iterations h its (sending bs ?s1) = Inr s'"
    "answered_with (message (byte_order h) (client_last (sending bs ?s1)) (reply_payload data)) (sending bs ?s1) s'"
    by auto
  ultimately show ?thesis
    using timepix_taken [OF assms(1) ok(1,4), of cs] bs queued_state [OF assms(1), of cmd tpx args]
    by (simp add: answered_with_def served_def sending_def)
qed

lemma reset_served:
  assumes "serving s" and "exchange_ok h (Reset_Module args, (i, cs), its)"
  shows "\<exists>s'. run_iterations h ((i, cs) # its) s = Inr s' \<and> served h (Reset_Module args) s s'"
proof -
  have ok: "length args = 1" "list_all silent its" "its \<noteq> []"
    "bind_error (fst (hd its)) = None \<and> address_error (fst (hd its)) = None \<and> drain_error (fst (hd its)) = None" "connect_error (fst (hd its)) = None" "client_message i = Some (message (byte_order h) RESET_MODULE args)"
    using assms(2) by simp_all
  then obtain i' cs' its' where its: "its = (i', cs') # its'" by (cases its) auto
  let ?s1 = "queued_for RESET_MODULE CMD_RESET_MODULE args s"
  obtain bs where bs: "command_bytes (byte_order h) CMD_RESET_MODULE args False = Inr bs"
    using command_bytes_wire [of args "byte_order h" CMD_RESET_MODULE False] ok(1) by auto
  have "iterate h i cs s = run_action h i (Forward 1 CMD_RESET_MODULE) args ((taking s)\<lparr>client_last := RESET_MODULE\<rparr>)"
    by (rule mapped_request [OF assms(1) ok(6)]) (simp_all add: command_map_def ok(1))
  then have first: "iterate h i cs s = Inr ?s1"
    using ok(1) by (simp add: run_action_def genericForward_def queued_for_def taking_def)
  have "\<exists>s'. tpx_poll h i' cs' ?s1 = Inr (s', None) \<and> served h (Reset_Module args) s s'"
    using ok(4,5) bs queued_state [OF assms(1), of RESET_MODULE CMD_RESET_MODULE args]
    by (cases "close_error i'"; cases "tpx_open ?s1")
      (simp_all add: its tpx_poll_def tpx_poll_body_def sendCommand_def on_client_def sendResponse_client
        terminateConnection_def attemptConnection_def initializeConnection_def served_def serving_def
        awaiting_def io_idle_def Let_def)
  then obtain s' where s': "tpx_poll h i' cs' ?s1 = Inr (s', None)" "served h (Reset_Module args) s s'" by blast
  then have "serving s'" by (simp add: served_def)
  then have "iterate h i' cs' ?s1 = Inr s'"
    using s'(1) ok(2) queued_state [OF assms(1), of RESET_MODULE CMD_RESET_MODULE args]
    by (simp add: iterate_running its no_message serving_def awaiting_def)
  then show ?thesis using first s'(2) silent_run [OF \<open>serving s'\<close>, of its' h] ok(2) by (simp add: its)
qed

section \<open>Sessions\<close>

lemma instant_served:
  assumes "\<exists>s'. iterate h i cs s = Inr s' \<and> served h r s s'" and "list_all silent its"
  shows "\<exists>s'. run_iterations h ((i, cs) # its) s = Inr s' \<and> served h r s s'"
  using assms silent_run [of _ its h] by (auto simp: served_def)

lemma exchange_served:
  assumes "serving s" and "exchange_ok h (r, it, its)"
  shows "\<exists>s'. run_iterations h (it # its) s = Inr s' \<and> served h r s s'"
proof -
  obtain i cs where it: "it = (i, cs)" by (cases it)
  note ok = assms(2) [unfolded it exchange_ok.simps]
  show ?thesis
  proof (cases r)
    case (To_Timepix cmd args tpx err data)
    then show ?thesis using timepix_served [OF assms(1)] assms(2) it by blast
  next
    case (Reset_Module args)
    then show ?thesis using reset_served [OF assms(1)] assms(2) it by blast
  next
    case (Bind_Port args)
    then show ?thesis unfolding it using ok by (intro instant_served) (auto intro!: bind_served [OF assms(1)])
  next
    case (To_Thread cmd args)
    then show ?thesis unfolding it using ok by (intro instant_served) (auto intro!: thread_served [OF assms(1)])
  next
    case (Refused msg err)
    then show ?thesis unfolding it using ok by (intro instant_served) (auto intro!: refused_served [OF assms(1)])
  qed
qed

lemma session_run:
  assumes "serving s" and "list_all (exchange_ok h) xs"
  shows "\<exists>s' msgs. run_iterations h (concat (map exchange_iterations xs)) s = Inr s' \<and> serving s' \<and>
    answers (client_socket s') = answers (client_socket s) @ msgs \<and>
    list_all2 (\<lambda>x. expected h (fst x)) xs msgs \<and>
    map Inr (tpx_sent s') = map Inr (tpx_sent s) @ concat (map (\<lambda>x. wire h (fst x)) xs)"
  using assms
proof (induction xs arbitrary: s)
  case Nil
  then show ?case by simp
next
  case (Cons x xs)
  obtain r it its where x: "x = (r, it, its)" by (cases x)
  have "exchange_ok h (r, it, its)" using Cons.prems(2) x by simp
  from exchange_served [OF Cons.prems(1) this] obtain s1 msg where
    s1: "run_iterations h (it # its) s = Inr s1" "serving s1" "expected h r msg"
    "answers (client_socket s1) = answers (client_socket s) @ [msg]"
    "map Inr (tpx_sent s1) = map Inr (tpx_sent s) @ wire h r" by (auto simp: served_def simp del: run_iterations.simps)
  from Cons.IH [OF s1(2)] Cons.prems(2) obtain s' msgs where
    "run_iterations h (concat (map exchange_iterations xs)) s1 = Inr s'" "serving s'"
    "answers (client_socket s') = answers (client_socket s1) @ msgs"
    "list_all2 (\<lambda>x. expected h (fst x)) xs msgs"
    "map Inr (tpx_sent s') = map Inr (tpx_sent s1) @ concat (map (\<lambda>x. wire h (fst x)) xs)" by auto
  with s1 x show ?case
    using run_iterations_append [of h "it # its" "concat (map exchange_iterations xs)" s]
    by (intro exI [of _ s'] exI [of _ "msg # msgs"]) (simp del: run_iterations.simps)
qed

text \<open>From the start to the connection.\<close>

definition connecting :: "server \<Rightarrow> bool" where
  "connecting s \<longleftrightarrow> phase s = Running \<and> \<not> should_cancel s \<and> \<not> mShouldResetClient s \<and>
     \<not> mIsConnected s \<and> \<not> mIsExecutingCommand s \<and> mQueuedCommands s = [] \<and> mLastCommandSource s = None \<and>
     \<not> owing (client_socket s) \<and> tpx_pending s = Some Connecting \<and> threads_ok s \<and> threads_up s"

lemma initial_connecting:
  assumes "bind_error i = None" and "address_error i = None" and "\<not> open_error i"
  shows "connecting (initial_server i st ce he)" "answers (client_socket (initial_server i st ce he)) = []"
    "tpx_sent (initial_server i st ce he) = []"
  using assms by (simp_all add: initial_server_defs connecting_def threads_ok_def threads_up_def)

lemma connects:
  assumes "connecting s" and "list_all (\<lambda>it. silent it \<and> drain_error (fst it) = None) its" and "concat (map snd its) = [Connect_Done None]"
  shows "\<exists>s'. run_iterations h its s = Inr s' \<and> serving s' \<and>
    answers (client_socket s') = answers (client_socket s) \<and> tpx_sent s' = tpx_sent s"
  using assms(2,3)
proof (induction its)
  case (Cons it its)
  obtain i cs where it: "it = (i, cs)" by (cases it)
  show ?case
  proof (cases cs)
    case Nil
    with Cons it assms(1) have "iterate h i cs s = Inr s"
      by (simp add: iterate_running connecting_def tpx_poll_quiet no_message)
    with Cons it Nil show ?thesis by simp
  next
    case (Cons c cs')
    then have cs: "cs = [Connect_Done None]" and rest: "concat (map snd its) = []" using Cons.prems it by simp_all
    have quiet_drain: "drain_error i = None" using Cons.prems(1) it by simp
    define s1 where "s1 = fst (initializeConnection i None (s\<lparr>tpx_pending := None\<rparr>))"
    have s1: "serving s1" "answers (client_socket s1) = answers (client_socket s)" "tpx_sent s1 = tpx_sent s"
      using assms(1) by (simp_all add: s1_def initializeConnection_def Let_def quiet_drain connecting_def
          serving_def awaiting_def io_idle_def)
    have "tpx_poll h i cs s = Inr (s1, None)"
      using assms(1) by (simp add: cs s1_def tpx_poll_def tpx_poll_body_def complete_def connecting_def initializeConnection_def
          Let_def quiet_drain)
    then have "iterate h i cs s = Inr s1"
      using assms(1) s1(1) Cons.prems(1) it
      by (simp add: iterate_running connecting_def serving_def awaiting_def no_message)
    then show ?thesis using silent_run [OF s1(1), of its h] Cons.prems(1) it s1 by (simp add: list_all_iff)
  qed
qed simp

section \<open>Properties\<close>

text \<open>C3. From its start the server answers every request of the client exactly once and in order:
  once the Timepix is connected, the n-th answer belongs to the n-th request (the words of the
  Timepix under the client's code, the answer of the thread asked, or the error code), and the
  Timepix has been sent exactly the bytes of the commands for it.\<close>

theorem session_served:
  assumes "bind_error i = None" and "address_error i = None" and "\<not> open_error i"
    and "list_all (\<lambda>it. silent it \<and> drain_error (fst it) = None) its" and "concat (map snd its) = [Connect_Done None]" and "list_all (exchange_ok h) xs"
  shows "\<exists>s. run_iterations h (its @ concat (map exchange_iterations xs)) (initial_server i st ce he) = Inr s \<and>
    list_all2 (\<lambda>x. expected h (fst x)) xs (answers (client_socket s)) \<and>
    map Inr (tpx_sent s) = concat (map (\<lambda>x. wire h (fst x)) xs) \<and> serving s"
proof -
  note start = initial_connecting [OF assms(1-3), of st ce he]
  from connects [OF start(1) assms(4,5), of h] start(2,3) obtain s1 where
    "run_iterations h its (initial_server i st ce he) = Inr s1" "serving s1"
    "answers (client_socket s1) = []" "tpx_sent s1 = []" by auto
  with session_run [of s1 h xs] assms(6) show ?thesis by (auto simp: run_iterations_append)
qed

definition session_example :: "exchange list" where
  "session_example =
     [(To_Timepix GET_DAC [3] CMD_GET_DAC 0 [77],
        (first_inputs\<lparr>client_message := Some (message Little GET_DAC [3])\<rparr>, []),
        [(first_inputs, []), (first_inputs, [Send_Done]), (first_inputs, []),
         (first_inputs, [Recv_Done None (reply_bytes CMD_GET_DAC 0 [77])])]),
      (To_Thread GET_CLUSTER_SERVER_PATH [],
        (first_inputs\<lparr>client_message := Some (message Little GET_CLUSTER_SERVER_PATH [])\<rparr>, []), []),
      (Reset_Module [0], (first_inputs\<lparr>client_message := Some (message Little RESET_MODULE [0])\<rparr>, []),
        [(first_inputs, [])])]"

theorem session_served_witness:
  "\<exists>s. run_iterations test_host ([(first_inputs, []), (first_inputs, [Connect_Done None])] @
      concat (map exchange_iterations session_example)) first_server = Inr s \<and>
    list_all2 (\<lambda>x. expected test_host (fst x)) session_example (answers (client_socket s)) \<and>
    length (tpx_sent s) = 2"
proof -
  have ok: "list_all (exchange_ok test_host) session_example"
    by (simp add: session_example_def first_inputs_def test_host_def thread_command_def udp_forward_commands_def
        cluster_forward_commands_def histogram_forward_commands_def command_map_def handler_sizes_def
        reply_payload_def error_report_def)
  have pre: "list_all (\<lambda>it. silent it \<and> drain_error (fst it) = None) [(first_inputs, []), (first_inputs, [Connect_Done None])]"
    "\<not> open_error first_inputs" "bind_error first_inputs = None"
    "address_error first_inputs = None" by (simp_all add: first_inputs_def)
  have two: "map Inr sent = concat (map (\<lambda>x. wire test_host (fst x)) session_example) \<Longrightarrow> length sent = 2" for sent
    by (drule arg_cong [where f = length]) (simp add: session_example_def)
  show ?thesis
    using session_served [OF pre(3,4,2,1) _ ok, of first_settings "(''tcp://127.0.0.1:9103'', ''tcp://127.0.0.1:9104'')"
        "(''tcp://127.0.0.1:9105'', ''tcp://127.0.0.1:9106'')", folded first_server_def] two
    by auto
qed

end
