(* ===== verification/Front.thy ===== *)
theory Front
  imports Session "HOL-Library.Sublist"
begin

text \<open>
  What the server promises its client, as a small state machine, and the proof that every run
  of the main loop refines it: an answer is only sent to a request that has been taken, once,
  and under the request's own code or an error code; a request stays unanswered only while it
  is in progress, or when the client manager is replaced or the server ends.
\<close>

section \<open>The abstract front of the server\<close>

datatype front = Free | Owes server_command | Over

datatype front_event = Got bytes | Sent bytes | Replaced

definition front_errors :: "server_command list" where
  "front_errors = [ERROR_OCCURED, INVALID_COMMAND_DATA, UNKNOWN_COMMAND, THREAD_NOT_STARTED, CANT_OPEN_FILE]"

definition request_code :: "host \<Rightarrow> bytes \<Rightarrow> server_command" where
  "request_code h msg = ServerCommand (load_at (byte_order h) 4 msg 0)"

inductive front_step :: "host \<Rightarrow> front \<Rightarrow> front_event \<Rightarrow> front \<Rightarrow> bool" for h where
  take_request: "front_step h Free (Got msg) (Owes (request_code h msg))"
| answer: "front_step h (Owes c) (Sent (message (byte_order h) c data)) Free"
| error: "err \<in> set front_errors \<Longrightarrow> front_step h (Owes c) (Sent (message (byte_order h) err [])) Free"
| replace: "f \<noteq> Over \<Longrightarrow> front_step h f Replaced Free"

text \<open>A run of the front; it may be over at any time, and then nothing is sent any more.\<close>

inductive front_run :: "host \<Rightarrow> front \<Rightarrow> front_event list \<Rightarrow> front \<Rightarrow> bool" for h where
  same: "front_run h f [] f"
| ended: "front_run h f [] Over"
| more: "front_step h f ev g \<Longrightarrow> front_run h g evs f' \<Longrightarrow> front_run h f (ev # evs) f'"

inductive_cases front_step_OverE: "front_step h Over ev g"
inductive_cases front_run_ConsE: "front_run h f (ev # evs) f'"

lemma front_over: "front_run h Over evs f \<Longrightarrow> evs = [] \<and> f = Over"
  by (induction Over evs f rule: front_run.induct) (auto elim: front_step_OverE)

lemma front_run_append:
  "front_run h f evs g \<Longrightarrow> front_run h g evs' f' \<Longrightarrow> front_run h f (evs @ evs') f'"
  by (induction rule: front_run.induct) (auto intro: front_run.intros dest: front_over)

definition sent_of :: "front_event list \<Rightarrow> bytes list" where
  "sent_of evs = concat (map (\<lambda>ev. case ev of Sent msg \<Rightarrow> [msg] | _ \<Rightarrow> []) evs)"

definition got_of :: "front_event list \<Rightarrow> bytes list" where
  "got_of evs = concat (map (\<lambda>ev. case ev of Got msg \<Rightarrow> [msg] | _ \<Rightarrow> []) evs)"

definition replacements :: "front_event list \<Rightarrow> nat" where
  "replacements evs = length (filter (\<lambda>ev. ev = Replaced) evs)"

lemma trace_simps [simp]:
  "sent_of [] = []" "sent_of (Got m # evs) = sent_of evs" "sent_of (Sent m # evs) = m # sent_of evs"
  "sent_of (Replaced # evs) = sent_of evs" "sent_of (evs @ evs') = sent_of evs @ sent_of evs'"
  "got_of [] = []" "got_of (Got m # evs) = m # got_of evs" "got_of (Sent m # evs) = got_of evs"
  "got_of (Replaced # evs) = got_of evs" "got_of (evs @ evs') = got_of evs @ got_of evs'"
  "replacements [] = 0" "replacements (Got m # evs) = replacements evs" "replacements (Sent m # evs) = replacements evs"
  "replacements (Replaced # evs) = Suc (replacements evs)" "replacements (evs @ evs') = replacements evs + replacements evs'"
  by (simp_all add: sent_of_def got_of_def replacements_def)

text \<open>There are never more answers than requests.\<close>

lemma front_counts:
  "front_run h f evs f' \<Longrightarrow> length (sent_of evs) \<le> length (got_of evs) + (if \<exists>c. f = Owes c then 1 else 0)"
  by (induction rule: front_run.induct) (fastforce elim: front_step.cases)+

section \<open>The abstraction\<close>

definition front_of :: "server \<Rightarrow> front" where
  "front_of s =
     (if phase s \<noteq> Running then Over
      else if owing (client_socket s) then Owes (client_last s) else Free)"

text \<open>A part of an iteration: the same client manager, and answers that the front allows.\<close>

definition keeps_front :: "host \<Rightarrow> bytes list \<Rightarrow> server \<Rightarrow> server \<Rightarrow> bool" where
  "keeps_front h got s s' \<longleftrightarrow> client_id s' = client_id s \<and>
     (\<exists>evs. front_run h (front_of s) evs (front_of s') \<and> got_of evs = got \<and> replacements evs = 0 \<and>
       answers (client_socket s') = answers (client_socket s) @ sent_of evs)"

lemma front_trans: "keeps_front h xs s s1 \<Longrightarrow> keeps_front h ys s1 s2 \<Longrightarrow> keeps_front h (xs @ ys) s s2"
proof -
  assume "keeps_front h xs s s1" "keeps_front h ys s1 s2"
  then obtain evs evs' where e: "client_id s1 = client_id s" "front_run h (front_of s) evs (front_of s1)"
    "got_of evs = xs" "replacements evs = 0" "answers (client_socket s1) = answers (client_socket s) @ sent_of evs"
    "client_id s2 = client_id s1" "front_run h (front_of s1) evs' (front_of s2)" "got_of evs' = ys"
    "replacements evs' = 0" "answers (client_socket s2) = answers (client_socket s1) @ sent_of evs'"
    unfolding keeps_front_def by blast
  then show ?thesis unfolding keeps_front_def using front_run_append [OF e(2,7)]
    by (intro conjI exI [of _ "evs @ evs'"]) simp_all
qed

lemma front_same:
  assumes "client_id s' = client_id s" and "client_socket s' = client_socket s" and "client_last s' = client_last s"
    and "phase s' = phase s"
  shows "keeps_front h [] s s'"
  unfolding keeps_front_def using assms
  by (intro conjI exI [of _ "[]"]) (simp_all add: front_of_def front_run.same)

lemma front_stopped:
  assumes "client_id s' = client_id s" and "answers (client_socket s') = answers (client_socket s)" and "phase s' \<noteq> Running"
  shows "keeps_front h [] s s'"
  unfolding keeps_front_def using assms
  by (intro conjI exI [of _ "[]"]) (simp_all add: front_of_def front_run.ended)

lemma front_sent:
  assumes "client_id s' = client_id s" and "phase s = Running" and "phase s' = Running" and "owing (client_socket s)"
    and "client_socket s' = \<lparr>owing = False, answers = answers (client_socket s) @ [msg]\<rparr>"
    and "front_step h (Owes (client_last s)) (Sent msg) Free"
  shows "keeps_front h [] s s'"
  unfolding keeps_front_def using assms
  by (intro conjI exI [of _ "[Sent msg]"])
    (auto simp: front_of_def intro: front_run.intros)

lemma sendResponse_front:
  assumes "client_sendResponse h data s = Inr s'" and "phase s = Running"
  shows "keeps_front h [] s s'"
proof (cases "owing (client_socket s)")
  case True
  then show ?thesis using assms
    by (intro front_sent [where msg = "message (byte_order h) (client_last s) data"])
      (auto simp: sendResponse_client intro: front_step.answer)
qed (use assms in \<open>simp add: client_sendResponse_def rep_send_def\<close>)

lemma sendError_front:
  assumes "client_sendError h err s = Inr s'" and "phase s = Running" and "err \<in> set front_errors"
  shows "keeps_front h [] s s'"
proof (cases "owing (client_socket s)")
  case True
  then show ?thesis using assms
    by (intro front_sent [where msg = "message (byte_order h) err []"])
      (auto simp: sendError_client intro: front_step.error)
qed (use assms in \<open>simp add: client_sendError_def client_sendResponse_def rep_send_def\<close>)

lemma on_client_front:
  "on_client source f s = Inr s' \<Longrightarrow> (\<And>s'. f s = Inr s' \<Longrightarrow> keeps_front h [] s s') \<Longrightarrow> keeps_front h [] s s'"
  by (simp add: on_client_def split: if_splits)

text \<open>Two parts one after the other.\<close>

lemma front_then:
  "keeps_front h [] s s1 \<Longrightarrow> keeps_front h got s1 s2 \<Longrightarrow> keeps_front h got s s2"
  using front_trans [of h "[]" s s1 got s2] by simp

lemma front_after: "keeps_front h got s s1 \<Longrightarrow> keeps_front h [] s1 s2 \<Longrightarrow> keeps_front h got s s2"
  using front_trans [of h got s s1 "[]" s2] by simp

section \<open>The Timepix side\<close>

lemma clear_front:
  assumes "clearAnyClientRequest h s = Inr s'" and "phase s = Running"
  shows "keeps_front h [] s s'"
proof (cases "mLastCommandSource s")
  case None
  then show ?thesis using assms(1) by (auto simp: clearAnyClientRequest_def intro: front_same)
next
  case (Some source)
  then obtain s1 where s1: "on_client source (client_sendError h ERROR_OCCURED) s = Inr s1"
    "s' = s1\<lparr>mLastCommandSource := None\<rparr>"
    using assms(1) by (auto simp: clearAnyClientRequest_def and_then_eq_Inr)
  have "keeps_front h [] s s1"
    by (rule on_client_front [OF s1(1)]) (erule sendError_front, use assms(2) in \<open>simp_all add: front_errors_def\<close>)
  moreover have "keeps_front h [] s1 s'" unfolding s1(2) by (rule front_same) simp_all
  ultimately show ?thesis by (rule front_then)
qed

lemma processRecv_front:
  assumes "processRecv h cmd data s = Inr (s', x)" and "phase s = Running"
  shows "keeps_front h [] s s'"
proof (cases "mLastCommandSource s")
  case None
  then show ?thesis using assms(1) by (auto simp: processRecv_def intro: front_same)
next
  case (Some source)
  from assms(1) Some obtain s1 where
    s1: "(case map_of handler_sizes cmd of
               None \<Rightarrow> Inr (say [Warn (''Did not recognise response from Timepix: '' @
                 to_string (uint (tpx_code cmd)))] s)
             | Some sz \<Rightarrow> genericHandler h sz source data s) = Inr s1"
    "s' = s1\<lparr>mQueuedCommands := tl (mQueuedCommands s1), mIsExecutingCommand := False, mLastCommandSource := None\<rparr>"
    by (auto simp: processRecv_def and_then_eq_Inr split: if_splits)
  have "keeps_front h [] s s1"
  proof (cases "map_of handler_sizes cmd")
    case None
    then show ?thesis using s1(1) by (auto intro: front_same)
  next
    case (Some sz)
    then have "genericHandler h sz source data s = Inr s1" using s1(1) by simp
    then show ?thesis unfolding genericHandler_def
      by (rule on_client_front)
        (auto split: if_splits intro: sendError_front sendResponse_front assms(2) simp: front_errors_def)
  qed
  moreover have "keeps_front h [] s1 s'" unfolding s1(2) by (rule front_same) simp_all
  ultimately show ?thesis by (rule front_then)
qed

lemma complete_front:
  assumes "complete h i c s = Inr (s', x)" and "phase s = Running"
  shows "keeps_front h [] s s'"
proof (cases "\<exists>bs. c = Recv_Done None bs \<and> tpx_pending s = Some Reading")
  case False
  then show ?thesis using assms(1)
    by (auto simp: complete_def commandRecv_def initializeConnection_def Let_def
        split: completion.splits pending_op.splits option.splits intro!: front_same)
next
  case True
  then obtain bs where c: "c = Recv_Done None bs" "tpx_pending s = Some Reading" by blast
  define s1 where "s1 = s\<lparr>tpx_pending := None, mResponseBuffer := into_buffer bs (mResponseBuffer s)\<rparr>"
  have r: "commandRecv h None (length (take buffer_size bs)) s1 = Inr (s', x)"
    using assms(1) c by (simp add: complete_def s1_def Let_def)
  have 1: "keeps_front h [] s (say es s1)" for es by (rule front_same) (simp_all add: s1_def)
  from r obtain es reply where "decode_reply (byte_order h) (mResponseBuffer s1) (length (take buffer_size bs)) = Inr (es, reply)"
    "(case reply of None \<Rightarrow> Inr (say es s1, None) | Some (cmd, data) \<Rightarrow> processRecv h cmd data (say es s1)) = Inr (s', x)"
    by (auto simp: commandRecv_def and_then_eq_Inr)
  then show ?thesis using 1 assms(2)
    by (cases reply) (auto simp: s1_def intro: front_then [OF 1 processRecv_front])
qed

lemmas sends_defs = client_sendError_def client_sendResponse_def on_client_def and_then_eq_Inr

lemma processRecv_phase: "processRecv h cmd data s = Inr (s', x) \<Longrightarrow> phase s' = phase s"
  by (auto simp: processRecv_def genericHandler_def sends_defs split: option.splits if_splits)

lemma complete_phase: "complete h i c s = Inr (s', x) \<Longrightarrow> phase s' = phase s"
  by (auto simp: complete_def commandRecv_def initializeConnection_def Let_def and_then_eq_Inr
      split: completion.splits pending_op.splits option.splits dest!: processRecv_phase)

lemma run_io_front:
  "run_io h i cs s = Inr (s', x) \<Longrightarrow> phase s = Running \<Longrightarrow> keeps_front h [] s s' \<and> phase s' = Running"
proof (induction cs arbitrary: s)
  case Nil
  then show ?case by (auto intro: front_same)
next
  case (Cons c cs)
  then obtain s1 y where c: "complete h i c s = Inr (s1, y)"
    and r: "(if y = None then run_io h i cs s1 else Inr (s1, y)) = Inr (s', x)" by (auto simp: and_then_eq_Inr)
  note 1 = complete_front [OF c Cons.prems(2)] complete_phase [OF c]
  show ?case
  proof (cases y)
    case None
    with Cons.IH [of s1] r 1 Cons.prems(2) show ?thesis by (auto intro: front_then)
  next
    case (Some e)
    with r 1 Cons.prems(2) show ?thesis by simp
  qed
qed

lemma attempt_front: "keeps_front h [] s (attemptConnection i wait s)" "phase (attemptConnection i wait s) = phase s"
  by (auto simp: attemptConnection_def connection_failed_def initializeConnection_def Let_def
      split: option.split exn.split intro!: front_same)

lemma reset_front:
  assumes "on_client source (client_sendResponse h []) (terminateConnection i s) = Inr s'" and "phase s = Running"
  shows "keeps_front h [] s s' \<and> phase s' = Running"
proof
  have 1: "keeps_front h [] s (terminateConnection i s)" "phase (terminateConnection i s) = Running"
    using assms(2) by (auto intro!: front_same)
  have "keeps_front h [] (terminateConnection i s) s'"
    by (rule on_client_front [OF assms(1)]) (erule sendResponse_front, use 1(2) in simp_all)
  with 1(1) show "keeps_front h [] s s'" by (rule front_then)
  show "phase s' = Running" using assms(1) 1(2) by (auto simp: sends_defs split: if_splits)
qed

lemma tpx_poll_body_front:
  assumes "tpx_poll_body h i cs s = Inr (s', x)" and "phase s = Running"
  shows "keeps_front h [] s s' \<and> phase s' = Running"
proof (cases "mIsConnected s \<and> \<not> mIsExecutingCommand s \<and> mQueuedCommands s \<noteq> []")
  case False
  with assms run_io_front show ?thesis by (auto simp: tpx_poll_body_def)
next
  case True
  let ?c = "hd (mQueuedCommands s)"
  from assms(1) True obtain bs s2 where
    s2: "s2 = s\<lparr>mIsExecutingCommand := True, tpx_pending := Some Sending, tpx_sent := tpx_sent s @ [bs],
      mLastCommandSource := Some (sender ?c)\<rparr>" and
    r: "(if command ?c = CMD_RESET_MODULE
       then and_then (on_client (sender ?c) (client_sendResponse h []) (terminateConnection i s2))
         (\<lambda>s3. Inr (attemptConnection i True (say [Log ''Resetting Timepix connection'']
           (s3\<lparr>mQueuedCommands := tl (mQueuedCommands s3), mLastCommandSource := None\<rparr>)), None))
       else run_io h i cs s2) = Inr (s', x)"
    by (auto simp: tpx_poll_body_def sendCommand_def and_then_eq_Inr Let_def)
  have 2: "keeps_front h [] s s2" "phase s2 = Running" using assms(2) unfolding s2 by (auto intro: front_same)
  show ?thesis
  proof (cases "command ?c = CMD_RESET_MODULE")
    case False
    with r run_io_front [of h i cs s2 s' x] 2 show ?thesis by (auto intro: front_then)
  next
    case True
    with r obtain s3 where s3: "on_client (sender ?c) (client_sendResponse h []) (terminateConnection i s2) = Inr s3"
      "s' = attemptConnection i True (say [Log ''Resetting Timepix connection'']
           (s3\<lparr>mQueuedCommands := tl (mQueuedCommands s3), mLastCommandSource := None\<rparr>))" by (auto simp: and_then_eq_Inr)
    let ?s4 = "say [Log ''Resetting Timepix connection'']
           (s3\<lparr>mQueuedCommands := tl (mQueuedCommands s3), mLastCommandSource := None\<rparr>)"
    have "keeps_front h [] s3 ?s4" by (rule front_same) simp_all
    then have "keeps_front h [] s3 s'" unfolding s3(2) by (rule front_then) (rule attempt_front)
    with reset_front [OF s3(1) 2(2)] 2(1) show ?thesis
      by (auto simp: s3(2) attempt_front(2) intro: front_then)
  qed
qed

lemma tpx_poll_front:
  assumes "tpx_poll h i cs s = Inr (s', x)" and "phase s = Running"
  shows "keeps_front h [] s s' \<and> phase s' = Running"
proof -
  from assms(1) obtain s1 y where 1: "tpx_poll_body h i cs s = Inr (s1, y)" and
    r: "(case y of
         Some (System_Error code what) \<Rightarrow>
           and_then
             (clearAnyClientRequest h (request_cancel (terminateConnection i
               (say [Err (''A network error occurred while communicating with the Timepix (errcode='' @
                       to_string code @ '')''), Err what] s1))))
             (\<lambda>s2. Inr (s2, None))
       | _ \<Rightarrow> Inr (s1, y)) = Inr (s', x)" by (auto simp: tpx_poll_def and_then_eq_Inr)
  note b = tpx_poll_body_front [OF 1 assms(2)]
  show ?thesis
  proof (cases "\<exists>code what. y = Some (System_Error code what)")
    case False
    with r b show ?thesis by (auto split: option.splits exn.splits)
  next
    case True
    then obtain code what where y: "y = Some (System_Error code what)" by blast
    define t where "t = request_cancel (terminateConnection i
        (say [Err (''A network error occurred while communicating with the Timepix (errcode='' @
           to_string code @ '')''), Err what] s1))"
    have t: "clearAnyClientRequest h t = Inr s'" using r by (simp add: y and_then_eq_Inr t_def)
    have t': "keeps_front h [] s1 t" "phase t = Running"
      using b by (simp_all add: t_def front_same)
    have "phase s' = Running" using t t'(2)
      by (auto simp: clearAnyClientRequest_def sends_defs split: option.splits if_splits)
    with front_then [OF t'(1) clear_front [OF t t'(2)]] b show ?thesis by (auto intro: front_then)
  qed
qed

section \<open>The client side\<close>

lemma answer_to_front: "answer_to h c msg \<Longrightarrow> front_step h (Owes c) (Sent msg) Free"
  by (auto simp: answer_to_def list_ex_iff thread_errors_def front_errors_def
      intro: front_step.answer front_step.error)

context command_thread
begin

lemma ask_reply:
  assumes "ask_thread handle alive ex h msg t = Inr (Some reply, t')" and "4 \<le> length msg" and "\<not> misaligned msg"
  shows "answer_to h (request_code h msg) reply"
proof -
  have poll: "pollCommands handle ex h (Some msg) t = Inr t'" and
    more: "length (answers (socket t)) < length (answers (socket t'))" and reply: "reply = last (answers (socket t'))"
    using assms(1) by (auto simp: ask_thread_def and_then_eq_Inr split: if_splits)
  have "\<not> owing (socket t)" using poll more by (auto simp: pollCommands_def rep_recv_def)
  from poll_answers_any [OF this assms(2,3) poll] reply show ?thesis by (auto simp: request_code_def)
qed

end

text \<open>The client's state once a message has been taken.\<close>

definition owing_for :: "server_command \<Rightarrow> server \<Rightarrow> server" where
  "owing_for c s = s\<lparr>client_socket := client_socket s\<lparr>owing := True\<rparr>, client_last := c\<rparr>"

lemma taken_front:
  assumes "keeps_front h [] (owing_for (request_code h msg) s) s'" and "phase s = Running" and "\<not> owing (client_socket s)"
  shows "keeps_front h [msg] s s'"
proof -
  obtain evs where e: "front_run h (Owes (request_code h msg)) evs (front_of s')" "got_of evs = []" "replacements evs = 0"
    "answers (client_socket s') = answers (client_socket s) @ sent_of evs" "client_id s' = client_id s"
    using assms(1,2) by (auto simp: keeps_front_def owing_for_def front_of_def)
  have "front_step h (front_of s) (Got msg) (Owes (request_code h msg))"
    using assms(2,3) by (simp add: front_of_def front_step.take_request)
  then show ?thesis unfolding keeps_front_def using e
    by (intro conjI exI [of _ "Got msg # evs"]) (auto intro: front_run.more)
qed

lemma forward_answer_front:
  assumes "forward_answer reply s1 = Inr s'" and "\<And>r. reply = Some r \<Longrightarrow> answer_to h c r"
    and "client_id s1 = client_id s" and "client_socket s1 = client_socket s\<lparr>owing := True\<rparr>" and "phase s1 = phase s"
    and "phase s = Running"
  shows "keeps_front h [] (owing_for c s) s'"
proof (cases reply)
  case None
  then show ?thesis using assms by (intro front_stopped) (auto simp: forward_answer_def owing_for_def)
next
  case (Some r)
  then have "s' = s1\<lparr>client_socket := \<lparr>owing = False, answers = answers (client_socket s) @ [r]\<rparr>\<rparr>"
    using assms(1,4) by (simp add: forward_answer_def rep_send_def)
  then show ?thesis using assms(2-6) Some
    by (intro front_sent [where msg = r]) (auto simp: owing_for_def intro: answer_to_front)
qed

lemma sendError_taken:
  assumes "client_sendError h err s1 = Inr s'" and "err \<in> set front_errors" and "phase s = Running"
    and "s1\<lparr>client_last := c\<rparr> = owing_for c s"
  shows "keeps_front h [] (owing_for c s) s'"
proof -
  have "client_sendError h err (owing_for c s) = Inr s'"
    using assms(1) unfolding assms(4) [symmetric] by (simp add: client_sendError_def)
  then show ?thesis by (rule sendError_front) (use assms in \<open>simp_all add: owing_for_def\<close>)
qed

text \<open>The three forwards have one shape.\<close>

context command_thread
begin

lemma forwards_front:
  assumes "and_then (ask_thread handle alive ex h msg t) (\<lambda>(reply, t'). forward_answer reply (put t')) = Inr s'"
    and "\<And>t'. client_id (put t') = client_id s \<and> phase (put t') = phase s \<and>
      client_socket (put t') = client_socket s\<lparr>owing := True\<rparr>"
    and "4 \<le> length msg" and "\<not> misaligned msg" and "phase s = Running"
  shows "keeps_front h [] (owing_for (request_code h msg) s) s'"
proof -
  obtain reply t' where ask: "ask_thread handle alive ex h msg t = Inr (reply, t')"
    and fwd: "forward_answer reply (put t') = Inr s'" using assms(1) by (auto simp: and_then_eq_Inr)
  have "answer_to h (request_code h msg) r" if "reply = Some r" for r
    using ask_reply [OF ask [unfolded that] assms(3,4)] .
  from forward_answer_front [OF fwd this] assms(2,5) show ?thesis by simp
qed

end

lemma forward_udp_front:
  assumes "forward_udp h i msg (s\<lparr>client_socket := client_socket s\<lparr>owing := True\<rparr>\<rparr>) = Inr s'"
    and "4 \<le> length msg" and "\<not> misaligned msg" and "phase s = Running"
  shows "keeps_front h [] (owing_for (request_code h msg) s) s'"
proof (cases "udp_behind s")
  case None
  then show ?thesis using assms(1,4)
    by (intro sendError_taken [of h THREAD_NOT_STARTED]) (auto simp: forward_udp_def front_errors_def owing_for_def)
next
  case (Some t)
  with assms(1) show ?thesis unfolding forward_udp_def
    by simp (erule udp_commands.forwards_front, use assms(2-4) in simp_all)
qed

lemma forward_cluster_front:
  assumes "forward_cluster h i msg (s\<lparr>client_socket := client_socket s\<lparr>owing := True\<rparr>\<rparr>) = Inr s'"
    and "4 \<le> length msg" and "\<not> misaligned msg" and "phase s = Running"
  shows "keeps_front h [] (owing_for (request_code h msg) s) s'"
proof (cases "cluster_behind s")
  case None
  then show ?thesis using assms(1,4)
    by (intro sendError_taken [of h THREAD_NOT_STARTED]) (auto simp: forward_cluster_def front_errors_def owing_for_def)
next
  case (Some t)
  with assms(1) show ?thesis unfolding forward_cluster_def
    by simp (erule cluster_commands.forwards_front, use assms(2-4) in simp_all)
qed

lemma forward_histogram_front:
  assumes "forward_histogram h i msg (s\<lparr>client_socket := client_socket s\<lparr>owing := True\<rparr>\<rparr>) = Inr s'"
    and "4 \<le> length msg" and "\<not> misaligned msg" and "phase s = Running"
  shows "keeps_front h [] (owing_for (request_code h msg) s) s'"
proof (cases "histogram_behind s")
  case None
  then show ?thesis using assms(1,4)
    by (intro sendError_taken [of h THREAD_NOT_STARTED]) (auto simp: forward_histogram_def front_errors_def owing_for_def)
next
  case (Some t)
  with assms(1) show ?thesis unfolding forward_histogram_def
    by simp (erule histogram_commands.forwards_front, use assms(2-4) in simp_all)
qed

lemma run_action_front:
  assumes "run_action h i a data s = Inr s'" and "phase s = Running"
  shows "keeps_front h [] s s'"
proof (cases a)
  case (Forward sz cmd)
  show ?thesis
  proof (cases "length data = sz")
    case True
    then show ?thesis using assms Forward
      by (auto simp: run_action_def genericForward_def queueCommand_def intro!: front_same)
  next
    case False
    then obtain es where "client_sendError h INVALID_COMMAND_DATA (say es s) = Inr s'"
      using assms(1) Forward by (simp add: run_action_def genericForward_def)
    then have "keeps_front h [] (say es s) s'"
      by (rule sendError_front) (use assms(2) in \<open>simp_all add: front_errors_def\<close>)
    then show ?thesis by (rule front_then [OF front_same, rotated -1]) simp_all
  qed
next
  case Pixel_Config
  then show ?thesis using assms
    by (auto simp: run_action_def sendPixelConfigData_def queueCommand_def front_errors_def split: if_splits
        intro!: front_same elim!: sendError_front)
next
  case Bind_Udp_Port
  show ?thesis
  proof (cases "length data = 1")
    case False
    then have "client_sendError h INVALID_COMMAND_DATA s = Inr s'"
      using assms(1) Bind_Udp_Port by (simp add: run_action_def client_bindUdpPort_def)
    then show ?thesis by (rule sendError_front) (use assms(2) in \<open>simp_all add: front_errors_def\<close>)
  next
    case True
    then have "client_sendResponse h [] (bindUdpPort i s) = Inr s'"
      using assms(1) Bind_Udp_Port by (simp add: run_action_def client_bindUdpPort_def)
    then have "keeps_front h [] (bindUdpPort i s) s'"
      by (rule sendResponse_front) (use assms(2) in \<open>simp add: bindUdpPort_def\<close>)
    then show ?thesis by (rule front_then [OF front_same, rotated -1]) (simp_all add: bindUdpPort_def)
  qed
qed

lemma handleCommand_front:
  assumes "client_handleCommand h i msg (s\<lparr>client_socket := client_socket s\<lparr>owing := True\<rparr>\<rparr>) = Inr s'"
    and "phase s = Running"
  shows "keeps_front h [] (owing_for (request_code h msg) s) s'"
proof -
  let ?s = "s\<lparr>client_socket := client_socket s\<lparr>owing := True\<rparr>\<rparr>"
  let ?c = "request_code h msg"
  have err: "keeps_front h [] (owing_for ?c s) s'" if "client_sendError h err ?s = Inr s'" "err \<in> set front_errors" for err
    using sendError_taken [OF that assms(2)] by (simp add: owing_for_def)
  consider (off) "\<not> mIsConnected s" | (odd) "mIsConnected s" "4 \<le> length msg" "misaligned msg"
    | (ok) "mIsConnected s" "4 \<le> length msg" "\<not> misaligned msg"
    using assms(1) by (fastforce simp: client_handleCommand_def command_word_def split: if_splits)
  then show ?thesis
  proof cases
    case off
    then show ?thesis using assms(1) by (auto simp: client_handleCommand_def front_errors_def intro: err)
  next
    case odd
    then show ?thesis using assms(1)
      by (auto simp: client_handleCommand_def command_word_def front_errors_def intro: err)
  next
    case ok
    show ?thesis
    proof (cases "map_of command_map ?c")
      case (Some a)
      then have "run_action h i a (command_data (byte_order h) msg) (owing_for ?c s) = Inr s'"
        using assms(1) ok by (simp add: client_handleCommand_def command_word_def owing_for_def request_code_def Let_def)
      then show ?thesis by (rule run_action_front) (use assms(2) in \<open>simp add: owing_for_def\<close>)
    next
      case None
      then have "(if ?c \<in> set udp_forward_commands then forward_udp h i msg ?s
          else if ?c \<in> set cluster_forward_commands then forward_cluster h i msg ?s
          else if ?c \<in> set histogram_forward_commands then forward_histogram h i msg ?s
          else client_sendError h UNKNOWN_COMMAND ?s) = Inr s'"
        using assms(1) ok
        by (simp add: client_handleCommand_def command_word_def request_code_def Let_def
            cong: if_cong split del: if_split)
      then show ?thesis
        using forward_udp_front [OF _ ok(2,3) assms(2)] forward_cluster_front [OF _ ok(2,3) assms(2)]
          forward_histogram_front [OF _ ok(2,3) assms(2)] err [of UNKNOWN_COMMAND]
        by (auto simp: front_errors_def split: if_splits)
    qed
  qed
qed

lemma client_poll_front:
  assumes "client_poll h i s = Inr s'" and "phase s = Running"
  shows "keeps_front h [] s s' \<or> (\<exists>msg. client_message i = Some msg \<and> keeps_front h [msg] s s')"
proof (cases "owing (client_socket s) \<or> client_message i = None")
  case True
  then show ?thesis using assms
    by (intro disjI1 front_same) (auto simp: client_poll_def rep_recv_def resetClientConnection_def split: if_splits)
next
  case False
  then obtain msg where msg: "client_message i = Some msg" "\<not> owing (client_socket s)" by auto
  then have "client_handleCommand h i msg (s\<lparr>client_socket := client_socket s\<lparr>owing := True\<rparr>\<rparr>) = Inr s'"
    using assms(1) by (simp add: client_poll_def rep_recv_def)
  from taken_front [OF handleCommand_front [OF this assms(2)] assms(2) msg(2)] msg(1) show ?thesis by blast
qed

lemma shutdown_front:
  assumes "shutdown h i s = Inr s'" and "phase s = Running"
  shows "keeps_front h [] s s'"
proof -
  from assms(1) obtain s1 where s1: "clearAnyClientRequest h s = Inr s1" "phase s' \<noteq> Running"
    "client_id s' = client_id s1" "client_socket s' = client_socket s1"
    by (auto simp: shutdown_def and_then_eq_Inr Let_def)
  then show ?thesis using clear_front [OF s1(1) assms(2)]
    by (elim front_then) (auto intro: front_stopped)
qed

section \<open>Whole iterations and runs\<close>

text \<open>The answers an iteration has sent; a new client manager starts without any.\<close>

definition new_answers :: "server \<Rightarrow> server \<Rightarrow> bytes list" where
  "new_answers s s' =
     (if client_id s' = client_id s
      then drop (length (answers (client_socket s))) (answers (client_socket s'))
      else answers (client_socket s'))"

fun run_answers :: "host \<Rightarrow> (inputs \<times> completion list) list \<Rightarrow> server \<Rightarrow> bytes list" where
  "run_answers h [] s = []"
| "run_answers h ((i, cs) # its) s =
     (case iterate h i cs s of Inl f \<Rightarrow> [] | Inr s' \<Rightarrow> new_answers s s' @ run_answers h its s')"

definition offered :: "inputs \<Rightarrow> bytes list" where
  "offered i = (case client_message i of None \<Rightarrow> [] | Some msg \<Rightarrow> [msg])"

definition replaces_client :: "inputs \<Rightarrow> server \<Rightarrow> bool" where
  "replaces_client i s \<longleftrightarrow> mShouldResetClient s \<and> \<not> should_cancel s \<and> \<not> open_error i"

lemma iterate_parts:
  assumes "iterate h i cs s = Inr s'" and "phase s = Running"
  shows "\<exists>got. subseq got (offered i) \<and> keeps_front h got (if replaces_client i s then open_client s else s) s'"
proof (cases "should_cancel s \<or> mShouldResetClient s \<and> open_error i")
  case True
  then have "keeps_front h [] s s'" using assms
    by (auto simp: iterate_def run_catch_def split: if_splits intro: shutdown_front front_stopped)
  with True show ?thesis by (intro exI [of _ "[]"]) (auto simp: replaces_client_def)
next
  case False
  let ?s = "if mShouldResetClient s then open_client s else s"
  obtain s1 x where p: "tpx_poll h i cs ?s = Inr (s1, x)"
    using assms False by (cases "tpx_poll h i cs ?s") (auto simp: iterate_def)
  have r: "(\<exists>t. shutdown h i t = Inr s' \<and> client_id t = client_id s1 \<and> client_socket t = client_socket s1 \<and>
      client_last t = client_last s1 \<and> phase t = phase s1) \<or>
    (if mIsExecutingCommand s1 then s' = s1 else client_poll h i s1 = Inr s')"
  proof (cases x)
    case (Some e)
    with assms False p show ?thesis
      by (cases e) (auto simp: iterate_def split del: if_split)
  qed (use assms False p in \<open>auto simp: iterate_def split: if_splits\<close>)
  have "phase ?s = Running" using assms(2) by (simp add: open_client_def)
  note 1 = tpx_poll_front [OF p this]
  have down: "keeps_front h [] s1 s'" if "shutdown h i t = Inr s'" "client_id t = client_id s1"
    "client_socket t = client_socket s1" "client_last t = client_last s1" "phase t = phase s1" for t
    using 1 that by (intro front_then [OF front_same [OF that(2-5)] shutdown_front [OF that(1)]]) simp
  have "\<exists>got. subseq got (offered i) \<and> keeps_front h got s1 s'"
  proof (cases "\<exists>t. shutdown h i t = Inr s' \<and> client_id t = client_id s1 \<and> client_socket t = client_socket s1 \<and>
      client_last t = client_last s1 \<and> phase t = phase s1")
    case True
    then show ?thesis by (auto intro!: exI [of _ "[]"] intro: down)
  next
    case False
    with r have "if mIsExecutingCommand s1 then s' = s1 else client_poll h i s1 = Inr s'" by blast
    then consider "s' = s1" | "client_poll h i s1 = Inr s'" by (auto split: if_splits)
    then show ?thesis
    proof cases
      case 1
      then show ?thesis by (auto intro!: exI [of _ "[]"] front_same)
    next
      case 2
      from client_poll_front [OF this] 1 show ?thesis by (auto simp: offered_def)
    qed
  qed
  then obtain got where "subseq got (offered i)" "keeps_front h got s1 s'" by blast
  with front_then [OF conjunct1 [OF 1] this(2)] False show ?thesis by (auto simp: replaces_client_def)
qed

lemma iterate_front:
  assumes "iterate h i cs s = Inr s'"
  shows "\<exists>evs. front_run h (front_of s) evs (front_of s') \<and> sent_of evs = new_answers s s' \<and>
    subseq (got_of evs) (offered i) \<and> client_id s' = client_id s + replacements evs"
proof (cases "phase s = Running")
  case False
  with assms have "s' = s" by (simp add: iterate_def)
  then show ?thesis by (intro exI [of _ "[]"]) (simp add: front_run.same new_answers_def)
next
  case True
  from iterate_parts [OF assms True] obtain got where got: "subseq got (offered i)"
    "keeps_front h got (if replaces_client i s then open_client s else s) s'" by blast
  show ?thesis
  proof (cases "replaces_client i s")
    case False
    with got obtain evs where "front_run h (front_of s) evs (front_of s')" "got_of evs = got" "replacements evs = 0"
      "answers (client_socket s') = answers (client_socket s) @ sent_of evs" "client_id s' = client_id s"
      by (auto simp: keeps_front_def)
    then show ?thesis using got(1) by (intro exI [of _ evs]) (simp add: new_answers_def)
  next
    case reset: True
    with got obtain evs where e: "front_run h Free evs (front_of s')" "got_of evs = got" "replacements evs = 0"
      "answers (client_socket s') = sent_of evs" "client_id s' = Suc (client_id s)"
      using True by (auto simp: keeps_front_def open_client_def fresh_rep_def front_of_def)
    have "front_step h (front_of s) Replaced Free" using True by (intro front_step.replace) (simp add: front_of_def)
    then show ?thesis using e got(1)
      by (intro exI [of _ "Replaced # evs"]) (auto simp: new_answers_def intro: front_run.more)
  qed
qed

lemma run_front:
  assumes "run_iterations h its s = Inr s'"
  shows "\<exists>evs. front_run h (front_of s) evs (front_of s') \<and> sent_of evs = run_answers h its s \<and>
    subseq (got_of evs) (concat (map (\<lambda>it. offered (fst it)) its)) \<and> client_id s' = client_id s + replacements evs"
  using assms
proof (induction its arbitrary: s)
  case Nil
  then show ?case by (intro exI [of _ "[]"]) (simp add: front_run.same)
next
  case (Cons it its)
  obtain i cs where it: "it = (i, cs)" by (cases it)
  with Cons.prems obtain s1 where s1: "iterate h i cs s = Inr s1" "run_iterations h its s1 = Inr s'"
    by (auto simp: and_then_eq_Inr)
  from iterate_front [OF s1(1)] obtain evs where e: "front_run h (front_of s) evs (front_of s1)"
    "sent_of evs = new_answers s s1" "subseq (got_of evs) (offered i)" "client_id s1 = client_id s + replacements evs" by blast
  from Cons.IH [OF s1(2)] obtain evs' where e': "front_run h (front_of s1) evs' (front_of s')"
    "sent_of evs' = run_answers h its s1" "subseq (got_of evs') (concat (map (\<lambda>it. offered (fst it)) its))"
    "client_id s' = client_id s1 + replacements evs'" by blast
  show ?case using front_run_append [OF e(1) e'(1)] e e' s1(1) it
    by (intro exI [of _ "evs @ evs'"]) (auto intro: list_emb_append_mono)
qed

section \<open>Properties\<close>

text \<open>C2. Every run of the server from its start refines the front: its answers, in order, are
  those of a run of the abstract machine that takes some of the messages offered, in order, and
  whose state is that of the server; so an answer always belongs to a message taken before, carries
  that message's code or an error code, and no message is answered twice.  The only messages
  left unanswered are the last one taken and those of client managers that have been replaced.\<close>

theorem server_refines_front:
  assumes "run_iterations h its (initial_server i st ce he) = Inr s"
  shows "\<exists>evs. front_run h Free evs (front_of s) \<and>
    sent_of evs = run_answers h its (initial_server i st ce he) \<and>
    subseq (got_of evs) (concat (map (\<lambda>it. offered (fst it)) its)) \<and>
    client_id s = replacements evs \<and> length (sent_of evs) \<le> length (got_of evs)"
proof -
  have "front_of (initial_server i st ce he) \<in> {Free, Over}" "client_id (initial_server i st ce he) = 0"
    by (auto simp: initial_server_defs run_catch_def front_of_def split: option.split)
  with run_front [OF assms] obtain f evs where f: "f \<in> {Free, Over}" "front_run h f evs (front_of s)"
    and evs: "sent_of evs = run_answers h its (initial_server i st ce he)"
    "subseq (got_of evs) (concat (map (\<lambda>it. offered (fst it)) its))" "client_id s = replacements evs" by auto
  have run: "front_run h Free evs (front_of s)"
    using f front_over [of h evs "front_of s"] by (auto intro: front_run.ended)
  with front_counts [OF run] evs show ?thesis by auto
qed

text \<open>A short run to try it on: the Timepix is not connected, and the client's command is refused.\<close>

definition refused_run :: "(inputs \<times> completion list) list" where
  "refused_run = [(first_inputs, []), (first_inputs\<lparr>client_message := Some (message Little NOP [])\<rparr>, [])]"

lemma refused_run_answers:
  "\<exists>s. run_iterations test_host refused_run first_server = Inr s \<and>
    run_answers test_host refused_run first_server = [message Little ERROR_OCCURED []] \<and> client_id s = 0"
proof -
  have c: "connecting first_server" "answers (client_socket first_server) = []" "client_id first_server = 0"
    using initial_connecting [of first_inputs]
    by (simp_all add: first_server_def first_inputs_def) (simp add: initial_server_defs)
  let ?i = "first_inputs\<lparr>client_message := Some (message Little NOP [])\<rparr>"
  have 1: "iterate test_host first_inputs [] first_server = Inr first_server"
    using c(1) by (simp add: iterate_running connecting_def tpx_poll_quiet no_message first_inputs_def)
  have "iterate test_host ?i [] first_server =
      client_sendError test_host ERROR_OCCURED (first_server\<lparr>client_socket := client_socket first_server\<lparr>owing := True\<rparr>\<rparr>)"
    using c(1) by (simp add: iterate_running connecting_def tpx_poll_quiet client_poll_def rep_recv_def client_handleCommand_def)
  then have "\<exists>s. iterate test_host ?i [] first_server = Inr s \<and> client_id s = 0 \<and>
      answers (client_socket s) = [message Little ERROR_OCCURED []]"
    using c by (simp add: sendError_client test_host_def)
  then show ?thesis using 1 c by (auto simp: refused_run_def new_answers_def)
qed

theorem server_refines_front_witness:
  "\<exists>evs s. run_iterations test_host refused_run first_server = Inr s \<and> front_run test_host Free evs (front_of s) \<and>
    sent_of evs = [message Little ERROR_OCCURED []] \<and> 1 \<le> length (got_of evs)"
proof -
  obtain s where s: "run_iterations test_host refused_run first_server = Inr s"
    "run_answers test_host refused_run first_server = [message Little ERROR_OCCURED []]"
    using refused_run_answers by blast
  from server_refines_front [OF s(1) [unfolded first_server_def]] s show ?thesis
    by (fastforce simp flip: first_server_def)
qed

end
