(* ===== verification/Turns.thy ===== *)
theory Turns
  imports ServerProps "HOL-Library.Sublist"
begin

text \<open>
  The turns of the client's REP socket.  Answers are only sent when one is owed.  A receive out
  of turn is attempted only after a reply of the Timepix was dropped without an answer; the
  socket refuses it, and the client manager is marked for replacement.
\<close>

section \<open>Replies without a handler\<close>

definition unrecognised_text :: string where
  "unrecognised_text = ''Did not recognise response from Timepix: ''"

text \<open>How many replies have been dropped because their code has no handler.\<close>

definition unrecognised :: "server \<Rightarrow> nat" where
  "unrecognised s =
     length (filter (\<lambda>e. case e of Warn w \<Rightarrow> prefix unrecognised_text w | _ \<Rightarrow> False) (comms_log s))"

lemma unrecognised_say: "comms_log s' = comms_log s @ es \<Longrightarrow> unrecognised s \<le> unrecognised s'"
  by (simp add: unrecognised_def)

text \<open>A client that waits while nothing is in progress has lost its reply since \<open>n\<close> were dropped.\<close>

definition accounted :: "nat \<Rightarrow> server \<Rightarrow> bool" where
  "accounted n s \<longleftrightarrow> n \<le> unrecognised s \<and>
     (\<not> mIsExecutingCommand s \<and> owing (client_socket s) \<longrightarrow> n < unrecognised s)"

lemma accounted_frame:
  assumes "accounted n s" and "client_socket s' = client_socket s" and "mIsExecutingCommand s' = mIsExecutingCommand s"
    and "unrecognised s \<le> unrecognised s'"
  shows "accounted n s'"
  using assms by (auto simp: accounted_def)

lemma accounted_answered: "n \<le> unrecognised s \<Longrightarrow> \<not> owing (client_socket s) \<Longrightarrow> accounted n s"
  by (simp add: accounted_def)

lemma sends_log:
  "client_sendResponse h data s = Inr s' \<Longrightarrow> comms_log s' = comms_log s \<and> \<not> owing (client_socket s')"
  "client_sendError h err s = Inr s' \<Longrightarrow> comms_log s' = comms_log s \<and> \<not> owing (client_socket s')"
  by (auto simp: client_sendError_def client_sendResponse_def rep_send_def and_then_eq_Inr split: if_splits)

lemma generic_log:
  assumes "genericHandler h sz source data s = Inr s'"
  shows "comms_log s' = comms_log s \<and> \<not> owing (client_socket s')"
  using assms sends_log(1) [of h data s s'] sends_log(2) [of h INVALID_COMMAND_DATA s s']
  by (simp add: genericHandler_def on_client_def split: if_splits)

lemma processRecv_accounted:
  assumes "processRecv h cmd data s = Inr (s', x)" and "accounted n s"
  shows "accounted n s'"
proof (cases "mLastCommandSource s")
  case None
  then show ?thesis using assms by (simp add: processRecv_def)
next
  case (Some source)
  show ?thesis
  proof (cases "map_of handler_sizes cmd")
    case None
    then have "comms_log s' = comms_log s @ [Warn (unrecognised_text @ to_string (uint (tpx_code cmd)))]"
      using assms(1) Some by (auto simp: processRecv_def unrecognised_text_def split: if_splits)
    then show ?thesis using assms(2) by (auto simp: accounted_def unrecognised_def)
  next
    case (Some sz)
    with assms(1) \<open>mLastCommandSource s = Some source\<close> have
      "and_then (genericHandler h sz source data s) (\<lambda>s1. if mQueuedCommands s1 = [] then Inl Out_Of_Bounds
         else Inr (s1\<lparr>mQueuedCommands := tl (mQueuedCommands s1), mIsExecutingCommand := False,
           mLastCommandSource := None\<rparr>, None)) = Inr (s', x)"
      by (simp add: processRecv_def)
    then obtain s1 where "genericHandler h sz source data s = Inr s1"
      "client_socket s' = client_socket s1" "comms_log s' = comms_log s1"
      by (cases "genericHandler h sz source data s") (auto split: if_splits)
    with generic_log [OF this(1)] have "comms_log s' = comms_log s" "\<not> owing (client_socket s')" by simp_all
    from this(1) have "unrecognised s' = unrecognised s" by (simp only: unrecognised_def)
    with \<open>\<not> owing (client_socket s')\<close> assms(2) show ?thesis by (simp add: accounted_def)
  qed
qed

lemma accounted_later:
  assumes "accounted n s" and "client_socket s' = client_socket s" and "mIsExecutingCommand s' = mIsExecutingCommand s"
    and "\<exists>es. comms_log s' = comms_log s @ es"
  shows "accounted n s'"
  using assms by (auto intro: accounted_frame unrecognised_say)

lemma complete_accounted:
  assumes "complete h i c s = Inr (s', x)" and "accounted n s" and "tpx_pending s = Some Connecting \<Longrightarrow> \<not> mIsExecutingCommand s"
  shows "accounted n s'"
proof -
  consider (conn) err where "c = Connect_Done err" "tpx_pending s = Some Connecting"
    | (sent) "c = Send_Done" "tpx_pending s = Some Sending"
    | (recv) err bs where "c = Recv_Done err bs" "tpx_pending s = Some Reading"
    | (other) "complete h i c s = Inr (s, None)"
    by (cases c; cases "tpx_pending s"; cases "the (tpx_pending s)") (auto simp: complete_def)
  then show ?thesis
  proof cases
    case conn
    then show ?thesis using assms
      by (intro accounted_later [OF assms(2)])
        (auto simp: complete_def initializeConnection_def Let_def split: option.splits)
  next
    case sent
    then show ?thesis using assms by (intro accounted_later [OF assms(2)]) (auto simp: complete_def)
  next
    case recv
    define s1 where "s1 = s\<lparr>tpx_pending := None, mResponseBuffer := into_buffer bs (mResponseBuffer s)\<rparr>"
    have 1: "accounted n (say es s1)" for es
      by (rule accounted_later [OF assms(2)]) (simp_all add: s1_def)
    have r: "commandRecv h err (length (take buffer_size bs)) s1 = Inr (s', x)"
      using assms(1) recv by (simp add: complete_def s1_def)
    show ?thesis
    proof (cases err)
      case (Some e)
      then show ?thesis using r 1 [of "[]"] by (cases e) (simp add: commandRecv_def)
    next
      case None
      with r obtain es reply where
        "decode_reply (byte_order h) (mResponseBuffer s1) (length (take buffer_size bs)) = Inr (es, reply)"
        "(case reply of None \<Rightarrow> Inr (say es s1, None) | Some (cmd, data) \<Rightarrow> processRecv h cmd data (say es s1)) = Inr (s', x)"
        by (auto simp: commandRecv_def and_then_eq_Inr)
      then show ?thesis using 1 by (cases reply) (auto intro: processRecv_accounted)
    qed
  next
    case other
    with assms show ?thesis by simp
  qed
qed

lemma run_io_accounted:
  "run_io h i cs s = Inr (s', x) \<Longrightarrow> polling s \<Longrightarrow> accounted n s \<Longrightarrow> accounted n s'"
proof (induction cs arbitrary: s)
  case (Cons c cs)
  then obtain s1 y where c: "complete h i c s = Inr (s1, y)"
    and r: "(if y = None then run_io h i cs s1 else Inr (s1, y)) = Inr (s', x)" by (auto simp: and_then_eq_Inr)
  have "tpx_pending s = Some Connecting \<Longrightarrow> \<not> mIsExecutingCommand s"
    using Cons.prems(2) by (auto simp: polling_def busy_def)
  then have "accounted n s1" by (rule complete_accounted [OF c Cons.prems(3)])
  moreover have "polling s1" using complete_polling [OF Cons.prems(2), of h i c] c by simp
  ultimately show ?case using Cons.IH [of s1] r by (auto split: if_splits)
qed simp

text \<open>A server that is ready: a client that waits has its command queued or in progress.\<close>

definition settled :: "server \<Rightarrow> bool" where
  "settled s \<longleftrightarrow> (phase s = Running \<and> \<not> should_cancel s \<and> \<not> mIsExecutingCommand s \<and> mQueuedCommands s = [] \<and>
     \<not> mShouldResetClient s \<longrightarrow> \<not> owing (client_socket s))"

lemma attempt_log: "\<exists>es. comms_log (attemptConnection i w (say es' s)) = comms_log s @ es"
  "client_socket (attemptConnection i w s) = client_socket s"
  by (auto simp: attemptConnection_def connection_failed_def initializeConnection_def Let_def split: option.split exn.split)

lemma unrecognised_attempt: "unrecognised s \<le> unrecognised (attemptConnection i w (say es s))"
  using attempt_log(1) [of i w s es] by (auto simp: unrecognised_def)

lemma terminate_log: "\<exists>es. comms_log (terminateConnection i (say es' s)) = comms_log s @ es"
  by (auto simp: terminateConnection_def split: option.split)

lemma tpx_poll_body_accounted:
  assumes "tpx_poll_body h i cs s = Inr (s', x)" and "ready s" and "\<not> should_cancel s" and "settled s"
  shows "accounted (unrecognised s) s'"
proof (cases "mIsConnected s \<and> \<not> mIsExecutingCommand s \<and> mQueuedCommands s \<noteq> []")
  case False
  with assms(2) have p: "polling s" by (rule ready_polling)
  then have "accounted (unrecognised s) s"
    using assms(3,4) by (auto simp: accounted_def settled_def polling_def quiet_def)
  then show ?thesis using run_io_accounted [OF _ p] assms(1) False by (simp add: tpx_poll_body_def)
next
  case True
  let ?c = "hd (mQueuedCommands s)"
  from assms(1) True obtain bs s2 where
    s2: "s2 = s\<lparr>mIsExecutingCommand := True, tpx_pending := Some Sending, tpx_sent := tpx_sent s @ [bs],
      mLastCommandSource := Some (sender ?c)\<rparr>" and
    r: "(if command ?c = CMD_RESET_MODULE
       then and_then (on_client (sender ?c) (client_sendResponse h []) (terminateConnection i s2))
         (\<lambda>s3. Inr (attemptConnection i True (say [Log ''Resetting Timepix connection'']
           (s3\<lparr>mQueuedCommands := tl (mQueuedCommands s3), mLastCommandSource := None\<rparr>)), None))
       else run_io h i cs s2) = Inr (s', x)"
    by (auto simp: tpx_poll_body_def sendCommand_def and_then_eq_Inr Let_def)
  have acc: "accounted (unrecognised s) s2" by (simp add: accounted_def s2 unrecognised_def)
  have p: "polling s2" using assms(2) True
    by (auto simp: s2 ready_def polling_def busy_def queued_def quiet_def one_queued_def threads_ok_def)
  show ?thesis
  proof (cases "command ?c = CMD_RESET_MODULE")
    case False
    with r run_io_accounted [OF _ p acc] show ?thesis by simp
  next
    case reset: True
    then obtain s3 where s3: "client_sendResponse h [] (terminateConnection i s2) = Inr s3"
      "s' = attemptConnection i True (say [Log ''Resetting Timepix connection'']
           (s3\<lparr>mQueuedCommands := tl (mQueuedCommands s3), mLastCommandSource := None\<rparr>))"
      using r by (auto simp: and_then_eq_Inr on_client_def split: if_splits)
    have "unrecognised s \<le> unrecognised (terminateConnection i s2)"
      using terminate_log [of i s2 "[]"] by (auto simp: s2 unrecognised_def)
    also have "\<dots> = unrecognised s3" using conjunct1 [OF sends_log(1) [OF s3(1)]] by (simp only: unrecognised_def)
    also have "\<dots> \<le> unrecognised s'"
      using unrecognised_attempt [of "s3\<lparr>mQueuedCommands := tl (mQueuedCommands s3), mLastCommandSource := None\<rparr>"
        i True "[Log ''Resetting Timepix connection'']"]
      unfolding s3(2) by (simp add: unrecognised_def)
    finally show ?thesis using sends_log(1) [OF s3(1)] attempt_log(2)
      by (intro accounted_answered) (simp_all add: s3(2))
  qed
qed

lemma tpx_poll_accounted:
  assumes "tpx_poll h i cs s = Inr (s', x)" and "ready s" and "\<not> should_cancel s" and "settled s"
  shows "accounted (unrecognised s) s'"
proof -
  from assms(1) obtain s1 y where b: "tpx_poll_body h i cs s = Inr (s1, y)" and
    r: "(case y of Some (System_Error code what) \<Rightarrow>
           and_then (clearAnyClientRequest h (request_cancel (terminateConnection i
               (say [Err (''A network error occurred while communicating with the Timepix (errcode='' @
                       to_string code @ '')''), Err what] s1)))) (\<lambda>s2. Inr (s2, None))
       | _ \<Rightarrow> Inr (s1, y)) = Inr (s', x)"
    by (auto simp: tpx_poll_def and_then_eq_Inr)
  note acc = tpx_poll_body_accounted [OF b assms(2-4)]
  show ?thesis
  proof (cases "\<exists>code what. y = Some (System_Error code what)")
    case False
    then show ?thesis using r acc by (auto split: option.splits exn.splits)
  next
    case True
    then obtain code what where y: "y = Some (System_Error code what)" by blast
    define s2 where "s2 = request_cancel (terminateConnection i
      (say [Err (''A network error occurred while communicating with the Timepix (errcode='' @
        to_string code @ '')''), Err what] s1))"
    have "accounted (unrecognised s) s2"
      by (rule accounted_later [OF acc]) (use terminate_log in \<open>simp_all add: s2_def\<close>)
    moreover have "clearAnyClientRequest h s2 = Inr s'" using r y by (simp add: s2_def and_then_eq_Inr)
    ultimately show ?thesis
      using sends_log(2) [of h ERROR_OCCURED s2]
      by (auto simp: clearAnyClientRequest_def and_then_eq_Inr on_client_def accounted_def unrecognised_def
          split: option.splits if_splits)
  qed
qed

section \<open>Reachable states are settled\<close>

text \<open>A command of the client is answered, queued, or blocks the main thread.\<close>

definition dealt_with :: "server \<Rightarrow> bool" where
  "dealt_with s \<longleftrightarrow> phase s \<noteq> Running \<or> mQueuedCommands s \<noteq> [] \<or> \<not> owing (client_socket s)"

lemma forward_answer_dealt: "forward_answer r s = Inr s' \<Longrightarrow> dealt_with s'"
  by (auto simp: forward_answer_def rep_send_def dealt_with_def and_then_eq_Inr split: option.splits if_splits)

lemma sends_dealt:
  "client_sendResponse h data s = Inr s' \<Longrightarrow> dealt_with s'" "client_sendError h err s = Inr s' \<Longrightarrow> dealt_with s'"
  by (auto simp: dealt_with_def dest: sends_log)

lemma handleCommand_dealt:
  assumes "client_handleCommand h i msg s = Inr s'"
  shows "dealt_with s'"
proof -
  have act: "run_action h i a data t = Inr s' \<Longrightarrow> dealt_with s'" for a data t
    by (auto simp: run_action_def genericForward_def sendPixelConfigData_def client_bindUdpPort_def queueCommand_def
        dealt_with_def split: client_action.splits if_splits dest: sends_log)
  have "forward_udp h i msg s = Inr s' \<Longrightarrow> dealt_with s'" "forward_cluster h i msg s = Inr s' \<Longrightarrow> dealt_with s'"
    "forward_histogram h i msg s = Inr s' \<Longrightarrow> dealt_with s'"
    by (auto simp: forward_udp_def forward_cluster_def forward_histogram_def and_then_eq_Inr
        split: option.splits prod.splits dest: sends_dealt forward_answer_dealt)
  with assms act show ?thesis
    by (auto simp: client_handleCommand_def Let_def and_then_eq_Inr dest: sends_dealt split: if_splits option.splits)
qed

lemma client_poll_settled:
  assumes "client_poll h i s = Inr s'" shows "settled s'"
proof (cases "owing (client_socket s)")
  case True
  then show ?thesis using assms by (auto simp: client_poll_def rep_recv_def resetClientConnection_def settled_def)
next
  case False
  then show ?thesis using assms handleCommand_dealt [of h i "the (client_message i)" _ s']
    by (cases "client_message i") (auto simp: client_poll_def rep_recv_def settled_def dealt_with_def)
qed

lemma shutdown_ends: "shutdown h i s = Inr s' \<Longrightarrow> phase s' \<noteq> Running"
  by (auto simp: shutdown_def and_then_eq_Inr Let_def)

lemma iterate_settled:
  assumes "iterate h i cs s = Inr s'" and "settled s" shows "settled s'"
proof (cases "phase s \<noteq> Running \<or> should_cancel s \<or> mShouldResetClient s \<and> open_error i")
  case True
  then show ?thesis using assms
    by (auto simp: iterate_def run_catch_def settled_def split: if_splits dest: shutdown_ends)
next
  case False
  let ?s = "if mShouldResetClient s then open_client s else s"
  obtain s1 x where p: "tpx_poll h i cs ?s = Inr (s1, x)"
    using assms(1) False by (cases "tpx_poll h i cs ?s") (auto simp: iterate_def)
  consider (down) t where "shutdown h i t = Inr s'" | (on) "x = None"
  proof (cases x)
    case (Some e)
    with assms(1) False p show thesis by (cases e) (auto simp: iterate_def intro: that(1) split del: if_split)
  qed (rule that(2))
  then show ?thesis
  proof cases
    case down
    then show ?thesis by (auto simp: settled_def dest: shutdown_ends)
  next
    case on
    with assms(1) False p have "if mIsExecutingCommand s1 then s' = s1 else client_poll h i s1 = Inr s'"
      by (auto simp: iterate_def split: if_splits)
    then show ?thesis by (auto simp: settled_def split: if_splits dest: client_poll_settled [unfolded settled_def])
  qed
qed

lemma settled_frame [simp]:
  "settled (s\<lparr>udp_behind := u\<rparr>) = settled s" "settled (s\<lparr>cluster_behind := c\<rparr>) = settled s"
  "settled (s\<lparr>histogram_behind := g\<rparr>) = settled s"
  by (simp_all add: settled_def)

lemma reachable_settled: "reachable h s \<Longrightarrow> settled s"
proof (induction rule: reachable.induct)
  case (start i st ce he)
  show ?case by (simp add: settled_def initial_server_defs run_catch_def split: option.split)
next
  case (step s s')
  from step.hyps(2) step.IH show ?case
    by (cases rule: step.cases) (auto intro: iterate_settled, simp_all add: settled_def)
qed

section \<open>Properties\<close>

text \<open>An iteration in which the main thread asks the client's socket for a message while it still owes an answer.\<close>

definition receives_out_of_turn :: "host \<Rightarrow> inputs \<Rightarrow> completion list \<Rightarrow> server \<Rightarrow> bool" where
  "receives_out_of_turn h i cs s \<longleftrightarrow>
     phase s = Running \<and> \<not> should_cancel s \<and> \<not> (mShouldResetClient s \<and> open_error i) \<and>
     (case tpx_poll h i cs (if mShouldResetClient s then open_client s else s) of
        Inr (s1, None) \<Rightarrow> \<not> mIsExecutingCommand s1 \<and> owing (client_socket s1)
      | _ \<Rightarrow> False)"

text \<open>C1. In every state the server can reach, an iteration of the main loop neither sends to the
  client out of turn nor follows a pointer to a client manager that is gone.  It receives out
  of turn only when, in that iteration, a reply of the Timepix has been dropped because its
  code has no handler; the socket refuses the receive, the client gets no answer, and the
  client manager is marked for replacement.\<close>

theorem client_socket_turns:
  assumes "reachable h s"
  shows "iterate h i cs s \<noteq> Inl Wrong_State \<and> iterate h i cs s \<noteq> Inl Dangling \<and>
    (receives_out_of_turn h i cs s \<longrightarrow>
       (\<exists>s'. iterate h i cs s = Inr s' \<and> unrecognised s < unrecognised s' \<and> mShouldResetClient s' \<and>
          owing (client_socket s')))"
proof -
  note inv = reachable_inv [OF assms]
  let ?s = "if mShouldResetClient s then open_client s else s"
  have "\<exists>s'. iterate h i cs s = Inr s' \<and> unrecognised s < unrecognised s' \<and> mShouldResetClient s' \<and>
      owing (client_socket s')"
    if out: "receives_out_of_turn h i cs s"
  proof -
    from out obtain s1 where go: "phase s = Running" "\<not> should_cancel s" "\<not> (mShouldResetClient s \<and> open_error i)"
      and s1: "tpx_poll h i cs ?s = Inr (s1, None)" "\<not> mIsExecutingCommand s1" "owing (client_socket s1)"
      by (auto simp: receives_out_of_turn_def split: sum.splits prod.splits option.splits)
    have ready: "ready ?s" by (rule open_client_ready [OF inv go(1,2)])
    have "settled ?s" "\<not> should_cancel ?s" "unrecognised ?s = unrecognised s"
      using reachable_settled [OF assms] go by (auto simp: settled_def open_client_def fresh_rep_def unrecognised_def)
    then have "unrecognised s < unrecognised s1"
      using tpx_poll_accounted [OF s1(1) ready] s1(2,3) by (simp add: accounted_def)
    moreover obtain es where "iterate h i cs s = Inr (resetClientConnection (say es s1))"
      using go s1 by (auto simp: iterate_def client_poll_def rep_recv_def)
    ultimately show ?thesis using s1(3)
      by (auto simp: resetClientConnection_def unrecognised_def)
  qed
  then show ?thesis using iterate_safe [OF inv, of h i cs] by auto
qed

theorem client_socket_turns_witness:
  "iterate test_host first_inputs [Connect_Done None] first_server \<noteq> Inl Wrong_State \<and>
   iterate test_host first_inputs [Connect_Done None] first_server \<noteq> Inl Dangling"
  using client_socket_turns [OF first_reachable] by blast

end
