(* ===== verification/RawFile.thy ===== *)
theory RawFile
  imports UdpManager
begin

text \<open>
  The raw data file: every datagram's clicks are saved as one \<open>TPX3\<close> chunk with an 8-byte
  header, and a reader that walks the chunks gets back exactly the clicks of the datagrams
  received since the file was opened, in order.  The packets of a datagram are words in
  the byte order of a little-endian host, as the byte test of \<open>parseBytes\<close> presumes.
\<close>

section \<open>Clicks in a datagram\<close>

lemma is_click_nibble: "is_click p \<longleftrightarrow> drop_bit 60 p = 0xB"
proof -
  have "p AND 0xF000000000000000 = push_bit 60 (drop_bit 60 p)"
    by (rule bit_word_eqI) (auto simp: bit_simps)
  moreover have "(0xB000000000000000 :: u64) = push_bit 60 0xB" by simp
  ultimately have "is_click p \<longleftrightarrow> push_bit 60 (drop_bit 60 p) = (push_bit 60 0xB :: u64)"
    by (simp only: is_click_def)
  moreover have "drop_bit 60 (push_bit 60 (drop_bit 60 p)) = drop_bit 60 p"
    by (rule bit_word_eqI) (auto simp: bit_simps dest: bit_imp_le_length)
  moreover have "drop_bit 60 (push_bit 60 0xB) = (0xB :: u64)" by simp
  ultimately show ?thesis by metis
qed

lemma click_at_nibble: "click_at buf ix \<longleftrightarrow> drop_bit 4 (buf ! (8 * ix + 7)) = 0xB"
proof -
  have m: "bit (0xF0 :: u8) n \<longleftrightarrow> 4 \<le> n \<and> n < 8" for n
    by (rule trans [OF bit_field [where k = 4 and m = 4]]) (auto simp: mask_eq_exp_minus_1)
  have "drop_bit 4 (b AND 0xF0) = drop_bit 4 b" for b :: u8
    by (rule bit_word_eqI, unfold bit_drop_bit_eq bit_and_iff comp_apply m)
       (auto dest: bit_imp_le_length)
  then show ?thesis by (simp add: click_at_def)
qed

lemma click_at_is_click:
  assumes "8 * ix + 8 \<le> length buf"
  shows "is_click (load_at Little 8 buf ix) \<longleftrightarrow> click_at buf ix"
proof -
  define bs where "bs = take 8 (drop (8 * ix) buf)"
  from assms have bs: "length bs = 8" "bs ! 7 = buf ! (8 * ix + 7)" by (simp_all add: bs_def)
  have "drop_bit 60 (from_le bs :: u64) = ucast (drop_bit 4 (bs ! 7))"
  proof (rule bit_word_eqI)
    fix n assume "n < LENGTH(64)"
    have "(60 + n) div 8 = 7 \<and> (60 + n) mod 8 = 4 + n" if "n < 4" using that by presburger
    then show "bit (drop_bit 60 (from_le bs :: u64)) n \<longleftrightarrow> bit (ucast (drop_bit 4 (bs ! 7)) :: u64) n"
      using bs by (cases "n < 4") (auto simp: bit_simps bit_from_le dest: bit_imp_le_length)
  qed
  moreover have "ucast (d :: u8) = (0xB :: u64) \<longleftrightarrow> d = 0xB" for d
  proof
    assume "ucast d = (0xB :: u64)"
    then have "ucast (ucast d :: u64) = (0xB :: u8)" by simp
    moreover have "ucast (ucast d :: u64) = d" by (rule bit_word_eqI) (simp add: bit_simps)
    ultimately show "d = 0xB" by simp
  qed simp
  ultimately show ?thesis
    by (simp add: is_click_nibble click_at_nibble load_at_def load_def bs flip: bs_def)
qed


section \<open>The saved chunk\<close>

text \<open>The reader of a chunk: the packets in it, when its header is right and nothing is cut off.\<close>

definition read_chunk :: "bytes \<Rightarrow> (u64 list \<times> bytes) option" where
  "read_chunk bs =
     (if length bs < 8 \<or> take 4 bs \<noteq> ascii ''TPX3'' then None
      else let n = unat (bs ! 6) + 256 * unat (bs ! 7)
           in if n mod 8 \<noteq> 0 \<or> length bs < 8 + n then None
              else Some (load_words Little 8 (n div 8) (drop 8 bs), drop (8 + n) bs))"

lemma length_chunk: "length (chunk_bytes buf sz) = 8 + 8 * length (click_indices buf sz)"
  by (simp add: chunk_bytes_def Let_def ascii_def concat_length_const [where n = 8])

lemma chunk_size_header:
  assumes "8 * k < 65536"
  shows "unat (ucast ((of_nat k * 8 :: u32) AND 0xFF) :: u8) +
    256 * unat (ucast (drop_bit 8 (of_nat k * 8 :: u32) AND 0xFF) :: u8) = 8 * k"
proof -
  have n: "unat (of_nat k * 8 :: u32) = 8 * k"
    using assms by (simp add: unat_word_ariths unat_of_nat)
  have low: "unat (ucast (w AND 0xFF) :: u8) = unat w mod 256" for w :: u32
  proof -
    have "ucast (w AND 0xFF) = (ucast w :: u8)"
      by (rule bit_word_eqI) (auto simp: bit_simps bit_field [where c = "0xFF" and k = 0 and m = 8] mask_eq_exp_minus_1)
    then show ?thesis by (simp only: unsigned_ucast_eq) (simp add: take_bit_eq_mod)
  qed
  have "unat (drop_bit 8 (of_nat k * 8 :: u32)) = 8 * k div 256"
    using assms by (simp only: unsigned_drop_bit_eq n) (simp add: drop_bit_eq_div take_bit_eq_mod)
  moreover have "8 * k div 256 < 256" using assms by simp
  ultimately show ?thesis by (simp only: low n mod_less mod_mult_div_eq)
qed

lemma slice_eq:
  assumes "8 * ix + 8 \<le> length buf"
  shows "map (\<lambda>jx. buf ! (8 * ix + jx)) [0..<8] = store Little 8 (load_at Little 8 buf ix :: u64)"
proof -
  have "store Little 8 (load_at Little 8 buf ix :: u64) = take 8 (drop (8 * ix) buf)"
    unfolding load_at_def using assms by (intro store_load) simp_all
  with assms show ?thesis by (auto intro!: nth_equalityI)
qed

lemma click_index_bound: "ix \<in> set (click_indices buf sz) \<Longrightarrow> sz \<le> length buf \<Longrightarrow> 8 * ix + 8 \<le> length buf"
  by (auto simp: click_indices_def)

lemma clicks_of_indices:
  assumes "sz \<le> length buf"
  shows "map (load_at Little 8 buf) (click_indices buf sz) =
    filter is_click (load_words Little 8 (sz div 8) buf)"
proof -
  have "8 * ix + 8 \<le> length buf" if "ix < sz div 8" for ix using that assms by simp
  then have "filter (click_at buf) [0..<sz div 8] =
      filter (\<lambda>ix. is_click (load_at Little 8 buf ix)) [0..<sz div 8]"
    by (intro filter_cong) (simp_all add: click_at_is_click)
  then show ?thesis by (simp add: click_indices_def load_words_def filter_map comp_def)
qed

lemma chunk_payload:
  assumes "sz \<le> length buf"
  shows "concat (map (\<lambda>ix. map (\<lambda>jx. buf ! (8 * ix + jx)) [0..<8]) (click_indices buf sz)) =
    store_words Little 8 (filter is_click (load_words Little 8 (sz div 8) buf) :: u64 list)"
proof -
  have "map (\<lambda>ix. map (\<lambda>jx. buf ! (8 * ix + jx)) [0..<8]) (click_indices buf sz) =
      map (\<lambda>ix. store Little 8 (load_at Little 8 buf ix :: u64)) (click_indices buf sz)"
    using click_index_bound assms by (intro map_cong refl slice_eq) blast
  then show ?thesis
    by (simp only: store_words_def clicks_of_indices [OF assms, symmetric] map_map comp_def)
qed

lemma read_chunk_bytes:
  assumes "sz \<le> length buf" and "sz < 65536"
  shows "read_chunk (chunk_bytes buf sz @ rest) =
    Some (filter is_click (load_words Little 8 (sz div 8) buf), rest)"
proof -
  let ?ws = "filter is_click (load_words Little 8 (sz div 8) buf) :: u64 list"
  have len: "length (click_indices buf sz) = length ?ws"
    by (simp flip: clicks_of_indices [OF assms(1)])
  have "length (click_indices buf sz) \<le> sz div 8"
    unfolding click_indices_def by (rule order_trans [OF length_filter_le]) simp
  then have k: "8 * length ?ws < 65536" using assms(2) len by simp
  define lo where "lo = (ucast (chunk_size buf sz AND 0xFF) :: u8)"
  define hi where "hi = (ucast (drop_bit 8 (chunk_size buf sz) AND 0xFF) :: u8)"
  have size: "unat lo + 256 * unat hi = 8 * length ?ws"
    unfolding lo_def hi_def chunk_size_def len by (rule chunk_size_header [OF k])
  define h where "h = ascii ''TPX3'' @ [0, 0, lo, hi]"
  have bs: "chunk_bytes buf sz @ rest = h @ store_words Little 8 ?ws @ rest"
    by (simp add: chunk_bytes_def Let_def chunk_payload [OF assms(1)] lo_def hi_def h_def)
  have a: "length (ascii ''TPX3'') = 4" by (simp add: ascii_def)
  have h: "length h = 8" "take 4 h = ascii ''TPX3''" "h ! 6 = lo" "h ! 7 = hi"
    by (simp_all add: h_def a nth_append)
  show ?thesis
    unfolding bs read_chunk_def Let_def using h by (simp add: nth_append size load_words_store_words)
qed

lemma length_parse_packets: "length (snd (parse_packets s ps)) = length (filter is_click ps)"
  by (induction s ps rule: parse_packets.induct) (simp_all add: Let_def case_prod_beta)


section \<open>Reading back the raw data file\<close>

function read_file :: "bytes \<Rightarrow> u64 list option" where
  "read_file bs =
     (if bs = [] then Some []
      else case read_chunk bs of
             None \<Rightarrow> None
           | Some (ws, rest) \<Rightarrow> map_option ((@) ws) (read_file rest))"
  by pat_completeness auto

termination
  by (relation "measure length") (auto simp: read_chunk_def Let_def split: if_splits)

declare read_file.simps [simp del]

text \<open>The clicks of a datagram; one whose size is not a multiple of 8 is dropped whole.\<close>

definition datagram_clicks :: "bytes \<Rightarrow> nat \<Rightarrow> u64 list" where
  "datagram_clicks buf sz =
     (if sz mod 8 = 0 then filter is_click (load_words Little 8 (sz div 8) buf) else [])"

lemma publish_file [simp]: "udp_file (publishRawData e now m buf sz) = udp_file m"
  by (simp add: publishRawData_def Let_def case_prod_beta)

lemma parseBytes_file:
  assumes "is_open (udp_file m)" "stream_good (udp_file m)" "sz \<le> length buf"
  shows "udp_file (parseBytes Little now m buf sz) =
    (if datagram_clicks buf sz = [] then udp_file m
     else (udp_file m)\<lparr>contents := contents (udp_file m) @ chunk_bytes buf sz\<rparr>)"
proof -
  have "click_indices buf sz = [] \<longleftrightarrow> filter is_click (load_words Little 8 (sz div 8) buf :: u64 list) = []"
    by (simp flip: clicks_of_indices [OF assms(3)])
  with assms(1,2) show ?thesis
    by (auto simp: parseBytes_def datagram_clicks_def Let_def open_contents load_words_def)
qed

definition datagram_ok :: "datagram \<Rightarrow> bool" where
  "datagram_ok d \<longleftrightarrow> snd (snd d) \<le> length (fst (snd d)) \<and> snd (snd d) < 65536"

lemma receive_file:
  assumes "is_open (udp_file m)" "stream_good (udp_file m)" "list_all datagram_ok ds"
  shows "\<exists>bs. contents (udp_file (udp_poll Little m ds)) = contents (udp_file m) @ bs \<and>
    read_file bs = Some (concat (map (\<lambda>(now, buf, sz). datagram_clicks buf sz) ds))"
  using assms
proof (induction ds arbitrary: m)
  case Nil
  then show ?case by (simp add: read_file.simps)
next
  case (Cons d ds)
  obtain now buf sz where d: "d = (now, buf, sz)" by (cases d)
  let ?m = "handleMessage Little now m buf sz"
  from Cons.prems d have sz: "sz \<le> length buf" "sz < 65536" by (simp_all add: datagram_ok_def)
  have f: "udp_file ?m = udp_file (parseBytes Little now m buf sz)" by (simp add: handleMessage_def)
  note upd = parseBytes_file [OF Cons.prems(1,2) sz(1), of now]
  have "is_open (udp_file ?m)" "stream_good (udp_file ?m)"
    using Cons.prems by (simp_all add: f upd stream_good_def)
  with Cons obtain bs where bs: "contents (udp_file (udp_poll Little ?m ds)) = contents (udp_file ?m) @ bs"
    "read_file bs = Some (concat (map (\<lambda>(now, buf, sz). datagram_clicks buf sz) ds))" by auto
  show ?case
  proof (cases "datagram_clicks buf sz = []")
    case True
    with bs d show ?thesis by (simp add: f upd)
  next
    case False
    then have sz8: "datagram_clicks buf sz = filter is_click (load_words Little 8 (sz div 8) buf)"
      by (auto simp: datagram_clicks_def split: if_splits)
    have "chunk_bytes buf sz \<noteq> []" using length_chunk [of buf sz] by auto
    then have "read_file (chunk_bytes buf sz @ bs) =
        Some (datagram_clicks buf sz @ concat (map (\<lambda>(now, buf, sz). datagram_clicks buf sz) ds))"
      by (subst read_file.simps) (simp add: read_chunk_bytes [OF sz] sz8 bs(2))
    with False bs(1) d show ?thesis by (intro exI [of _ "chunk_bytes buf sz @ bs"]) (simp add: f upd)
  qed
qed


lemma raw_file_contents:
  assumes "path \<noteq> []" and "opens path" and "list_all datagram_ok ds"
  shows "read_file (contents (udp_file (udp_poll Little (fst (udp_setSaveFile opens path m)) ds))) =
    Some (concat (map (\<lambda>(now, buf, sz). datagram_clicks buf sz) ds))"
proof -
  let ?m = "fst (udp_setSaveFile opens path m)"
  have "udp_file ?m = fst (udp_set_file opens path (udp_file m))"
    by (simp add: udp_setSaveFile_def Let_def case_prod_beta)
  then have "udp_file ?m = \<lparr>is_open = True, failed = False, contents = []\<rparr>"
    using udp_save.opened [where opens = opens and path = path, OF assms(1,2)] by simp
  then show ?thesis using receive_file [OF _ _ assms(3), of ?m] by (auto simp: stream_good_def)
qed

section \<open>Properties\<close>

text \<open>C5. A reader of the raw data file gets back exactly the clicks of all datagrams received
  since the file was opened, in order; a datagram whose size is not a multiple of 8
  contributes nothing, and the 16-bit size in a chunk header never overflows.\<close>

theorem raw_file_roundtrip:
  assumes "path \<noteq> []" and "opens path" and "list_all datagram_ok ds"
  shows "read_file (contents (udp_file (udp_poll Little (fst (udp_setSaveFile opens path m)) ds))) =
    Some (concat (map (\<lambda>(now, buf, sz). datagram_clicks buf sz) ds))"
  using assms by (rule raw_file_contents)

theorem raw_file_roundtrip_witness:
  "read_file (contents (udp_file (udp_poll Little
      (fst (udp_setSaveFile (\<lambda>p. True) ''run.tpx3'' init_udp_manager))
      [((1, 1), [1, 2, 3, 4, 5, 6, 7, 0xB8, 0, 0, 0, 0, 0, 0, 0, 0x40], 16), ((2, 2), [0, 0, 0], 3)]))) =
    Some [0xB807060504030201]"
proof -
  let ?buf = "[1, 2, 3, 4, 5, 6, 7, 0xB8, 0, 0, 0, 0, 0, 0, 0, 0x40] :: bytes"
  let ?ds = "[((1, 1), ?buf, 16), ((2, 2), [0, 0, 0], 3)] :: datagram list"
  have ok: "list_all datagram_ok ?ds" by (simp add: datagram_ok_def)
  have "datagram_clicks ?buf 16 = [0xB807060504030201]"
    by (simp add: datagram_clicks_def load_words_def load_at_def load_def is_click_def upt_conv_Cons)
  moreover have "datagram_clicks [0, 0, 0] 3 = []" by (simp add: datagram_clicks_def)
  ultimately have "concat (map (\<lambda>(now, buf, sz). datagram_clicks buf sz) ?ds) = [0xB807060504030201]"
    by simp
  moreover have "''run.tpx3'' \<noteq> []" by simp
  ultimately show ?thesis
    using raw_file_roundtrip [where opens = "\<lambda>p. True" and m = init_udp_manager, OF _ TrueI ok]
    by (simp only:)
qed

text \<open>Every well-formed datagram is republished as one message, with one word for each of
  its clicks; an empty datagram and one of a size that is not a multiple of 8 are not.\<close>

theorem one_message_per_datagram:
  "map length (udp_published (udp_poll Little m ds)) = map length (udp_published m) @
     map (\<lambda>(now, buf, sz). length (datagram_clicks buf sz))
       (filter (\<lambda>(now, buf, sz). 0 < sz \<and> sz mod 8 = 0) ds)"
proof (induction ds arbitrary: m)
  case Nil
  then show ?case by simp
next
  case (Cons d ds)
  obtain now buf sz where d: "d = (now, buf, sz)" by (cases d)
  have "udp_published (handleMessage Little now m buf sz) =
      (if 0 < sz \<and> sz mod 8 = 0
       then udp_published m @ [snd (parse_packets (toa m) (load_words Little 8 (sz div 8) buf))]
       else udp_published m)"
    by (simp add: handleMessage_def parseBytes_def publishRawData_def Let_def case_prod_beta)
  with Cons [of "handleMessage Little now m buf sz"] d show ?case
    by (simp add: length_parse_packets datagram_clicks_def)
qed

end
