(* ===== verification/ToaRollover.thy ===== *)
theory ToaRollover
  imports UdpManager Clustering
begin

text \<open>
  The times of arrival that \<open>publishRawData\<close> sends out.  The chip reports a time modulo
  \<open>2 ^ 34\<close> ticks and the server counts the rollovers it sees in 4 bits, so a published time
  has 38 bits.  The theory relates the counter to the true times of the clicks, whatever
  their (bounded) disorder, and the fields of a published packet to those that the
  clustering and histogram threads read.
\<close>

section \<open>Counting rollovers\<close>

text \<open>
  The true time of a click, in ToA ticks, is a natural number; the chip reports it modulo
  \<open>2 ^ 34\<close>.  Packets may arrive slightly out of order: \<open>tame step back m ts\<close> says that,
  with \<open>m\<close> the latest time seen so far, every next time is at most \<open>step\<close> later and less
  than \<open>back\<close> earlier than that.
\<close>

definition toa_period :: nat where
  "toa_period = 2 ^ 34"

fun tame :: "nat \<Rightarrow> nat \<Rightarrow> nat \<Rightarrow> nat list \<Rightarrow> bool" where
  "tame step back m [] = True"
| "tame step back m (t # ts) = (t \<le> m + step \<and> m < t + back \<and> tame step back (max m t) ts)"

fun toa_run :: "toa_state \<Rightarrow> nat list \<Rightarrow> toa_state" where
  "toa_run s [] = s"
| "toa_run s (t # ts) = toa_run (rollover_step s (of_nat (t mod toa_period))) ts"

lemma toa_run_append [simp]: "toa_run s (ts @ us) = toa_run (toa_run s ts) us"
  by (induction ts arbitrary: s) simp_all

text \<open>
  The invariant: \<open>m\<close> is the latest time seen, \<open>t\<close> the last one, \<open>r\<close> the rollovers since
  the start.  The flag is set exactly when the current period is more than a quarter old.
\<close>

definition toa_inv :: "nat \<Rightarrow> nat \<Rightarrow> nat \<Rightarrow> nat \<Rightarrow> toa_state \<Rightarrow> bool" where
  "toa_inv back e m t s \<longleftrightarrow>
     t \<le> m \<and> m < t + back \<and> e \<le> m div toa_period \<and>
     unat (mLastToA s) = t mod toa_period \<and>
     unat (mRolloverCounter s) = (m div toa_period - e) mod 16 \<and>
     (mHalfwayToRollover s \<longleftrightarrow> 2 ^ 32 < m mod toa_period)"

lemma unat_times: "unat quarter_time = 2 ^ 32" "unat three_quarter_time = 3 * 2 ^ 32"
  by (simp_all add: quarter_time_def three_quarter_time_def)

lemma unat_toa: "unat (of_nat (t mod toa_period) :: u64) = t mod toa_period"
proof -
  have "t mod toa_period < 2 ^ 34" unfolding toa_period_def by (rule mod_less_divisor) simp
  then have "t mod toa_period < 2 ^ 64" by simp
  then show ?thesis by (simp add: unat_of_nat)
qed

text \<open>\<open>rollover_step\<close> on numbers.\<close>

definition rolls :: "toa_state \<Rightarrow> nat \<Rightarrow> bool" where
  "rolls s f \<longleftrightarrow> (mHalfwayToRollover s \<or> 2 ^ 32 < f \<and> f < 3 * 2 ^ 32) \<and>
     3 * 2 ^ 32 < unat (mLastToA s) \<and> f < 2 ^ 32"

lemma unat_next_counter: "unat (((c :: u8) + 1) AND 0x0F) = (unat c + 1) mod 16"
proof -
  have m: "(0x0F :: u8) = mask 4" by (simp add: mask_eq_exp_minus_1)
  have "unat ((c + 1) AND 0x0F) = take_bit 4 (unat (c + 1))"
    unfolding m by (simp only: take_bit_eq_mask [symmetric] unsigned_take_bit_eq)
  also have "\<dots> = unat (c + 1) mod 16" by (simp add: take_bit_eq_mod)
  also have "unat (c + 1) = (unat c + 1) mod 256" by (simp add: unat_word_ariths)
  finally show ?thesis by (simp add: mod_mod_cancel)
qed

lemma rollover_step_nat:
  fixes t s defines "f \<equiv> t mod toa_period"
  defines "s' \<equiv> rollover_step s (of_nat (t mod toa_period))"
  shows "unat (mLastToA s') = f"
    and "unat (mRolloverCounter s') =
      (if rolls s f then (unat (mRolloverCounter s) + 1) mod 16 else unat (mRolloverCounter s))"
    and "mHalfwayToRollover s' \<longleftrightarrow>
      (mHalfwayToRollover s \<or> 2 ^ 32 < f \<and> f < 3 * 2 ^ 32) \<and> \<not> rolls s f"
  unfolding s'_def f_def rollover_step_def Let_def rolls_def
  by (simp_all add: unat_toa unat_times word_less_nat_alt unat_next_counter)

lemma period_window:
  "e * p \<le> u \<Longrightarrow> u < e * p + p \<Longrightarrow> u div p = e \<and> u mod p = u - e * (p :: nat)"
  by (metis add_diff_inverse_nat div_nat_eqI less_add_same_cancel1 minus_mod_eq_div_mult
      add.commute mult.commute mult_Suc_right not_less minus_div_mult_eq_mod)

lemma toa_inv_step:
  assumes inv: "toa_inv back e m t s" and sb: "step + back \<le> 2 ^ 32"
    and t': "t' \<le> m + step" "m < t' + back"
  shows "toa_inv back e (max m t') t' (rollover_step s (of_nat (t' mod toa_period)))"
proof -
  define P where "P = toa_period"
  define E where "E = m div P"
  define R where "R = m mod P"
  have P: "P = 17179869184" by (simp add: P_def toa_period_def)
  have m: "m = E * P + R" "R < P" by (simp_all add: E_def R_def P)
  define f where "f = t' mod P"
  define l where "l = t mod P"
  define E' where "E' = max m t' div P"
  define R' where "R' = max m t' mod P"
  have I: "t \<le> m" "m < t + back" "e \<le> E" "unat (mLastToA s) = l"
    "unat (mRolloverCounter s) = (E - e) mod 16" "mHalfwayToRollover s \<longleftrightarrow> 2 ^ 32 < R"
    using inv by (simp_all add: toa_inv_def E_def R_def l_def P_def)
  have rolls: "rolls s f \<longleftrightarrow> (2 ^ 32 < R \<or> 2 ^ 32 < f \<and> f < 3 * 2 ^ 32) \<and> 3 * 2 ^ 32 < l \<and> f < 2 ^ 32"
    by (simp add: rolls_def I)
  define q :: nat where "q = 2 ^ 32"
  have Pq: "P = 4 * q" and q: "0 < q" by (simp_all add: P q_def)
  have lt: "l = (if E * P \<le> t then t - E * P else t + P - E * P) \<and> (E * P \<le> t \<or> P \<le> E * P)"
  proof (cases "E * P \<le> t")
    case True
    with I m show ?thesis using period_window [of E P t] by (simp add: l_def)
  next
    case False
    then obtain k where k: "E = Suc k" by (cases E) auto
    have "k * P \<le> t" "t < k * P + P" using False I m sb Pq q by (simp_all add: k q_def)
    with False k show ?thesis using period_window [of k P t] by (simp add: l_def)
  qed
  have main: "(rolls s f \<longleftrightarrow> E' = Suc E) \<and> (E' = E \<or> E' = Suc E) \<and>
    ((q < R \<or> q < f \<and> f < 3 * q) \<and> \<not> rolls s f \<longleftrightarrow> q < R')"
  proof -
    consider (late) "Suc E * P \<le> t'" | (same) "E * P \<le> t'" "t' < Suc E * P" | (early) "t' < E * P"
      by linarith
    then show ?thesis
    proof cases
      case late
      have b: "Suc E * P \<le> t'" "t' < Suc E * P + P" using late t' m sb Pq q by (simp_all add: q_def)
      with m have "max m t' = t'" by simp
      with b have "E' = Suc E" "R' = t' - Suc E * P" "f = t' - Suc E * P"
        using period_window [of "Suc E" P t'] by (simp_all add: E'_def R'_def f_def)
      moreover have "E * P \<le> t" "3 * q < t - E * P" using late t' I m sb Pq q by (simp_all add: q_def)
      moreover have "t' - Suc E * P < q" using late t' m sb q by (simp add: q_def)
      moreover have "q < R" using late t' m sb Pq q by (simp add: q_def)
      ultimately show ?thesis unfolding rolls q_def [symmetric] using lt by simp
    next
      case same
      then have f: "f = t' - E * P" using period_window [of E P t'] by (simp add: f_def)
      have M: "E * P \<le> max m t'" "max m t' < E * P + P" using same m by simp_all
      then have "E' = E" "R' = max m t' - E * P"
        using period_window [of E P "max m t'"] by (simp_all add: E'_def R'_def)
      moreover from this f m have "R' = max R f" using same by simp
      moreover have nr: "\<not> rolls s f"
      proof
        assume "rolls s f"
        then have r: "3 * q < l" "f < q" "q < R" unfolding rolls q_def [symmetric] by auto
        show False
        proof (cases "E * P \<le> t")
          case True
          with lt have "l = t - E * P" by simp
          with r f same True I m t' sb q show False unfolding q_def [symmetric] by linarith
        next
          case False
          with lt have "l = t + P - E * P" by simp
          with r f same False I m t' sb q Pq show False unfolding q_def [symmetric] by linarith
        qed
      qed
      moreover have "q < R \<or> f < 3 * q" using f same t' sb m q
        unfolding q_def [symmetric] by linarith
      ultimately show ?thesis unfolding \<open>R' = max R f\<close> by auto
    next
      case early
      then obtain k where k: "E = Suc k" by (cases E) auto
      have b: "k * P \<le> t'" "t' < k * P + P" using early t' m sb Pq q by (simp_all add: k q_def)
      then have f: "f = t' - k * P" using period_window [of k P t'] by (simp add: f_def)
      from early m have "max m t' = m" by simp
      then have "E' = E" "R' = R" by (simp_all add: E'_def R'_def E_def R_def)
      moreover have "3 * q < f" using f b t' m sb Pq q by (simp add: k q_def)
      ultimately show ?thesis unfolding rolls q_def [symmetric] using q by auto
    qed
  qed
  have "e \<le> E'" and t: "t' \<le> max m t'" "max m t' < t' + back" using main I t' sb by auto
  have "unat (mRolloverCounter (rollover_step s (of_nat (t' mod toa_period)))) = (E' - e) mod 16"
    using main I by (auto simp: rollover_step_nat f_def P_def mod_simps Suc_diff_le)
  moreover have "mHalfwayToRollover (rollover_step s (of_nat (t' mod toa_period))) \<longleftrightarrow> 2 ^ 32 < R'"
    using main I(6) unfolding rollover_step_nat(3) f_def P_def q_def by blast
  ultimately show ?thesis using \<open>e \<le> E'\<close> t
    unfolding toa_inv_def by (simp add: rollover_step_nat(1) E'_def R'_def P_def)
qed

lemma toa_inv_run:
  assumes "toa_inv back e m t s" "step + back \<le> 2 ^ 32" "tame step back m ts"
  shows "toa_inv back e (fold max ts m) (last (t # ts)) (toa_run s ts)"
  using assms(1,3)
proof (induction ts arbitrary: m t s)
  case Nil
  then show ?case by simp
next
  case (Cons u us)
  then have "toa_inv back e (max m u) u (rollover_step s (of_nat (u mod toa_period)))"
    using assms(2) by (intro toa_inv_step) auto
  from Cons.IH [OF this] Cons.prems(2) show ?case by (simp add: max.commute)
qed

text \<open>A run starts with the counter at zero, the flag clear and no last time.\<close>

lemma toa_inv_first:
  assumes "t mod toa_period < 3 * 2 ^ 32" and "0 < back"
  shows "toa_inv back (t div toa_period) t t
    (rollover_step \<lparr>mRolloverCounter = 0, mHalfwayToRollover = False, mLastToA = 0\<rparr>
       (of_nat (t mod toa_period)))"
  using assms by (auto simp: toa_inv_def rollover_step_nat rolls_def)

text \<open>The time a click is published with: the low 38 bits of the packed word.\<close>

definition stamp :: "toa_state \<Rightarrow> nat \<Rightarrow> nat" where
  "stamp s t = unat (mRolloverCounter s) * toa_period + t mod toa_period"

lemma stamp_value:
  assumes "e \<le> t div toa_period"
  shows "((t div toa_period - e) mod 16) * toa_period + t mod toa_period = (t - e * toa_period) mod 2 ^ 38"
proof -
  let ?P = "toa_period"
  have "e * ?P \<le> t div ?P * ?P" using assms by (intro mult_le_mono1)
  then have "t - e * ?P = (t div ?P - e) * ?P + t mod ?P"
    by (simp add: diff_mult_distrib)
  moreover have "(k * ?P + r) mod 2 ^ 38 = (k mod 16) * ?P + r" if "r < ?P" for k r
  proof -
    have "(k * ?P + r) mod (16 * ?P) = ?P * ((k * ?P + r) div ?P mod 16) + (k * ?P + r) mod ?P"
      by (simp add: mod_mult2_eq mult.commute [of 16])
    moreover have "(k * ?P + r) div ?P = k" "(k * ?P + r) mod ?P = r"
      using that by (simp_all add: toa_period_def)
    ultimately show ?thesis by (simp add: toa_period_def mult.commute)
  qed
  ultimately show ?thesis by (simp add: toa_period_def)
qed

lemma stamp_current:
  assumes inv: "toa_inv back e m t s" and "t div toa_period = m div toa_period"
  shows "stamp s t = (t - e * toa_period) mod 2 ^ 38"
  using assms stamp_value [of e t] by (simp add: toa_inv_def stamp_def)

section \<open>The fields of a published packet\<close>

definition fields_fit :: "u64 \<Rightarrow> u64 \<Rightarrow> u64 \<Rightarrow> u8 \<Rightarrow> u64 \<Rightarrow> bool" where
  "fields_fit x y tot c full \<longleftrightarrow>
     unat x < 2 ^ 8 \<and> unat y < 2 ^ 8 \<and> unat tot < 2 ^ 10 \<and> unat c < 2 ^ 4 \<and> unat full < 2 ^ 34"

lemma bit_pack_packet:
  assumes "fields_fit x y tot c full" and "n < 64"
  shows "bit (pack_packet x y tot c full) n \<longleftrightarrow>
    (if n < 34 then bit full n else if n < 38 then bit c (n - 34) else if n < 48 then bit tot (n - 38)
     else if n < 56 then bit y (n - 48) else bit x (n - 56))"
proof -
  have hi: "\<not> bit x i" "\<not> bit y i" if "8 \<le> i" for i
    using assms(1) that not_bit_high [of x 8] not_bit_high [of y 8] by (auto simp: fields_fit_def)
  have ht: "\<not> bit tot i" if "10 \<le> i" for i
    using assms(1) that not_bit_high [of tot 10] by (auto simp: fields_fit_def)
  have hc: "\<not> bit c i" if "4 \<le> i" for i
    using assms(1) that not_bit_high [of c 4] by (auto simp: fields_fit_def)
  have hf: "\<not> bit full i" if "34 \<le> i" for i
    using assms(1) that not_bit_high [of full 34] by (auto simp: fields_fit_def)
  consider "n < 34" | "34 \<le> n \<and> n < 38" | "38 \<le> n \<and> n < 48" | "48 \<le> n \<and> n < 56" | "56 \<le> n"
    by linarith
  then show ?thesis
    using assms(2) by cases (auto simp: pack_packet_def Let_def bit_simps hi ht hc hf)
qed

lemma packet_fields:
  assumes "fields_fit x y tot c full"
  shows "packet_x \<lparr>raw_value = pack_packet x y tot c full\<rparr> = uint x"
    and "packet_y \<lparr>raw_value = pack_packet x y tot c full\<rparr> = uint y"
    and "packet_tot \<lparr>raw_value = pack_packet x y tot c full\<rparr> = uint tot"
proof -
  have hi: "bit x i \<Longrightarrow> i < 8" "bit y i \<Longrightarrow> i < 8" for i
    using assms not_bit_high [of x 8] not_bit_high [of y 8] by (auto simp: fields_fit_def not_less [symmetric])
  have ht: "bit tot i \<Longrightarrow> i < 10" for i
    using assms not_bit_high [of tot 10] by (auto simp: fields_fit_def not_less [symmetric])
  note b = bit_pack_packet [OF assms]
  have "drop_bit 56 (pack_packet x y tot c full) AND 0xFF = x"
  proof (rule bit_word_eqI)
    fix n assume "n < LENGTH(64)"
    show "bit (drop_bit 56 (pack_packet x y tot c full) AND 0xFF) n \<longleftrightarrow> bit x n"
      using hi(1) [of n] by (cases "n < 8") (auto simp: bit_simps b)
  qed
  moreover have "drop_bit 48 (pack_packet x y tot c full) AND 0xFF = y"
  proof (rule bit_word_eqI)
    fix n assume "n < LENGTH(64)"
    show "bit (drop_bit 48 (pack_packet x y tot c full) AND 0xFF) n \<longleftrightarrow> bit y n"
      using hi(2) [of n] by (cases "n < 8") (auto simp: bit_simps b)
  qed
  moreover have "drop_bit 38 (pack_packet x y tot c full) AND 0x3FF = tot"
  proof (rule bit_word_eqI)
    fix n assume "n < LENGTH(64)"
    show "bit (drop_bit 38 (pack_packet x y tot c full) AND 0x3FF) n \<longleftrightarrow> bit tot n"
      using ht [of n] by (cases "n < 10") (auto simp: bit_simps b)
  qed
  ultimately show "packet_x \<lparr>raw_value = pack_packet x y tot c full\<rparr> = uint x"
    "packet_y \<lparr>raw_value = pack_packet x y tot c full\<rparr> = uint y"
    "packet_tot \<lparr>raw_value = pack_packet x y tot c full\<rparr> = uint tot"
    by (simp_all add: packet_x_def packet_y_def packet_tot_def)
qed

lemma packet_time:
  assumes "fields_fit x y tot c full"
  shows "packet_t \<lparr>raw_value = pack_packet x y tot c full\<rparr> = int (unat c * toa_period + unat full)"
proof -
  have hc: "bit c i \<Longrightarrow> i < 4" for i
    using assms not_bit_high [of c 4] by (auto simp: fields_fit_def not_less [symmetric])
  have hf: "bit full i \<Longrightarrow> i < 34" for i
    using assms not_bit_high [of full 34] by (auto simp: fields_fit_def not_less [symmetric])
  note b = bit_pack_packet [OF assms]
  have "pack_packet x y tot c full AND 0x3FFFFFFFFF = push_bit 34 (ucast c) OR full"
  proof (rule bit_word_eqI)
    fix n assume "n < LENGTH(64)"
    then have "n < 64" by simp
    moreover have "bit (0x3FFFFFFFFF :: u64) n \<longleftrightarrow> n < 38" by simp
    moreover have "bit (push_bit 34 (ucast c) :: u64) n \<longleftrightarrow> 34 \<le> n \<and> bit c (n - 34)"
      using \<open>n < 64\<close> hc [of "n - 34"] by (auto simp: bit_simps)
    ultimately show "bit (pack_packet x y tot c full AND 0x3FFFFFFFFF) n \<longleftrightarrow>
        bit (push_bit 34 (ucast c) OR full) n"
      using hc [of "n - 34"] hf [of n] by (auto simp: bit_and_iff bit_or_iff b)
  qed
  moreover have "push_bit 34 (ucast c) OR full = push_bit 34 (ucast c) + full"
    by (rule disjunctive_add [symmetric]) (auto simp: bit_simps dest: hf)
  moreover have "unat (push_bit 34 (ucast c) + full :: u64) = unat c * 2 ^ 34 + unat full"
  proof -
    have c: "unat c < 16" and f: "unat full < 2 ^ 34" using assms by (simp_all add: fields_fit_def)
    have "unat (push_bit 34 (ucast c) :: u64) = unat c * 2 ^ 34"
      using c unfolding unsigned_push_bit_eq unsigned_ucast_eq
      by (simp add: push_bit_eq_mult take_bit_eq_mod)
    moreover have "unat c * 2 ^ 34 + unat full < 2 ^ 64" using c f by simp
    ultimately show ?thesis by (simp add: unat_word_ariths)
  qed
  ultimately have "unat (pack_packet x y tot c full AND 0x3FFFFFFFFF) = unat c * 2 ^ 34 + unat full"
    by (simp only:)
  then show ?thesis
    by (simp only: packet_t_def toa_period_def packet.select_convs uint_nat)
qed

section \<open>The published times of a stream of clicks\<close>

text \<open>
  What is published for clicks with true times \<open>ts\<close>, when \<open>m\<close> is the latest time before and
  the run began in period \<open>e\<close>: the ticks since the start of that period, modulo \<open>2 ^ 38\<close> -
  except that a click that arrives after a later period has begun is counted one period too
  late.
\<close>

fun published_times :: "nat \<Rightarrow> nat \<Rightarrow> nat list \<Rightarrow> nat list" where
  "published_times e m [] = []"
| "published_times e m (t # ts) =
     (let m' = max m t;
          t' = (if t div toa_period = m' div toa_period then t else t + toa_period)
      in (t' - e * toa_period) mod 2 ^ 38 # published_times e m' ts)"

definition time_of :: "u64 \<Rightarrow> nat" where
  "time_of q = nat (packet_t \<lparr>raw_value = q\<rparr>)"

definition reports :: "u64 list \<Rightarrow> nat list \<Rightarrow> bool" where
  "reports ps ts \<longleftrightarrow> map full_toa (filter is_click ps) = map (\<lambda>t. of_nat (t mod toa_period)) ts"

lemma toa_inv_counter: "toa_inv back e m t s \<Longrightarrow> unat (mRolloverCounter s) < 16"
  by (simp add: toa_inv_def)

lemma packet_stamp:
  assumes "unat (mRolloverCounter s) < 16" and "full_toa p = of_nat (t mod toa_period)"
  shows "time_of (pack_packet (pixel_x a) (pixel_y a) (raw_tot p) (mRolloverCounter s) (full_toa p)) = stamp s t"
proof -
  have fit: "fields_fit (pixel_x a) (pixel_y a) (raw_tot p) (mRolloverCounter s) (full_toa p)"
    using assms(1) unat_pixel unat_raw_tot unat_full_toa by (simp add: fields_fit_def)
  have "unat (full_toa p) = t mod toa_period" by (simp only: assms(2) unat_toa)
  then show ?thesis by (simp only: time_of_def packet_time [OF fit] stamp_def nat_int)
qed

lemma published_packet_time:
  assumes "toa_inv back e m t s" and "full_toa p = of_nat (t mod toa_period)"
  shows "time_of (pack_packet (pixel_x a) (pixel_y a) (raw_tot p) (mRolloverCounter s) (full_toa p)) =
    stamp s t"
  using toa_inv_counter [OF assms(1)] assms(2) by (rule packet_stamp)

lemma stamp_late:
  assumes inv: "toa_inv back e m t s" and "back \<le> 2 ^ 32" and "t div toa_period \<noteq> m div toa_period"
  shows "stamp s t = (t + toa_period - e * toa_period) mod 2 ^ 38"
proof -
  let ?P = toa_period
  have "t \<le> m" "m < t + ?P" using inv assms(2) by (simp_all add: toa_inv_def toa_period_def)
  then have "t div ?P \<le> m div ?P" "m div ?P \<le> (t + ?P) div ?P" by (intro div_le_mono; simp)+
  moreover have "(t + ?P) div ?P = Suc (t div ?P)" by (simp add: toa_period_def)
  ultimately have d: "(t + ?P) div ?P = m div ?P" using assms(3) by linarith
  have "stamp s t = stamp s (t + ?P)" by (simp add: stamp_def)
  also have "\<dots> = ((m div ?P - e) mod 16) * ?P + (t + ?P) mod ?P"
    using inv by (simp add: stamp_def toa_inv_def)
  also have "\<dots> = (t + ?P - e * ?P) mod 2 ^ 38"
    using stamp_value [of e "t + ?P"] inv d by (simp add: toa_inv_def)
  finally show ?thesis .
qed

lemma parse_packets_times:
  assumes "toa_inv back e m t s" "step + back \<le> 2 ^ 32" "tame step back m ts" "reports ps ts"
  shows "map time_of (snd (parse_packets s ps)) = published_times e m ts"
  using assms(1,3,4)
proof (induction ps arbitrary: m t s ts)
  case Nil
  then show ?case by (simp add: reports_def)
next
  case (Cons p ps)
  show ?case
  proof (cases "is_click p")
    case False
    with Cons show ?thesis by (simp add: reports_def)
  next
    case True
    with Cons.prems(3) obtain u us where ts: "ts = u # us" "full_toa p = of_nat (u mod toa_period)"
      "reports ps us" by (auto simp: reports_def)
    let ?s = "rollover_step s (full_toa p)"
    have inv: "toa_inv back e (max m u) u ?s"
      using toa_inv_step [OF Cons.prems(1) assms(2)] Cons.prems(2) ts by simp
    have small: "back \<le> 2 ^ 32" using assms(2) by simp
    have "stamp ?s u = ((if u div toa_period = max m u div toa_period then u else u + toa_period)
        - e * toa_period) mod 2 ^ 38"
      using stamp_current [OF inv] stamp_late [OF inv small] by (cases "u div toa_period = max m u div toa_period") simp_all
    moreover have "map time_of (snd (parse_packets ?s ps)) = published_times e (max m u) us"
      using Cons.IH [OF inv] Cons.prems(2) ts by simp
    ultimately show ?thesis using True ts published_packet_time [OF inv ts(2)]
      by (simp add: Let_def case_prod_beta)
  qed
qed


text \<open>Without a click in the middle half of a period the flag is never set, and no rollover is seen.\<close>

lemma parse_packets_unnoticed:
  assumes "\<not> mHalfwayToRollover s" and "unat (mRolloverCounter s) < 16" and "reports ps ts"
    and "list_all (\<lambda>t. t mod toa_period \<le> 2 ^ 32 \<or> 3 * 2 ^ 32 \<le> t mod toa_period) ts"
  shows "map time_of (snd (parse_packets s ps)) = map (stamp s) ts"
  using assms
proof (induction ps arbitrary: s ts)
  case Nil
  then show ?case by (simp add: reports_def)
next
  case (Cons p ps)
  show ?case
  proof (cases "is_click p")
    case False
    with Cons show ?thesis by (simp add: reports_def)
  next
    case True
    with Cons.prems(3) obtain u us where ts: "ts = u # us" "full_toa p = of_nat (u mod toa_period)"
      "reports ps us" by (auto simp: reports_def)
    let ?s = "rollover_step s (full_toa p)"
    have "\<not> rolls s (u mod toa_period)" using Cons.prems(1,4) ts(1) by (auto simp: rolls_def)
    then have s: "\<not> mHalfwayToRollover ?s" "mRolloverCounter ?s = mRolloverCounter s"
      using rollover_step_nat(2,3) [of s u] Cons.prems(1,4) unfolding ts(1,2) by (auto simp: unsigned_word_eqI)
    then have "map time_of (snd (parse_packets ?s ps)) = map (stamp s) us"
      using Cons.IH [of ?s us] Cons.prems ts by (simp add: stamp_def)
    then show ?thesis using True ts packet_stamp [of ?s p u] s Cons.prems(2)
      by (simp add: Let_def case_prod_beta stamp_def)
  qed
qed

section \<open>Properties\<close>

lemma published_fields_step:
  assumes "unat (mRolloverCounter s) < 16"
  shows "unat (mRolloverCounter (rollover_step s f)) < 16"
  using assms by (simp add: rollover_step_def Let_def unat_next_counter)

lemma packed_click:
  assumes "fields_fit (pixel_x a) (pixel_y a) (raw_tot p) c (full_toa p)"
  shows "packet_x \<lparr>raw_value = pack_packet (pixel_x a) (pixel_y a) (raw_tot p) c (full_toa p)\<rparr> = uint (pixel_x a)"
    and "packet_y \<lparr>raw_value = pack_packet (pixel_x a) (pixel_y a) (raw_tot p) c (full_toa p)\<rparr> = uint (pixel_y a)"
    and "packet_tot \<lparr>raw_value = pack_packet (pixel_x a) (pixel_y a) (raw_tot p) c (full_toa p)\<rparr> = uint (raw_tot p)"
    and "packet_t \<lparr>raw_value = pack_packet (pixel_x a) (pixel_y a) (raw_tot p) c (full_toa p)\<rparr> mod 2 ^ 34 =
      uint (full_toa p)"
proof -
  have "(unat c * toa_period + unat f) mod 2 ^ 34 = unat f" if "unat f < 2 ^ 34" for f :: u64
    using that by (simp add: toa_period_def)
  then have "int (unat c * toa_period + unat (full_toa p)) mod 2 ^ 34 = uint (full_toa p)"
    using unat_full_toa [of p] by (metis of_nat_mod of_nat_numeral of_nat_power uint_nat)
  then show "packet_t \<lparr>raw_value = pack_packet (pixel_x a) (pixel_y a) (raw_tot p) c (full_toa p)\<rparr> mod 2 ^ 34 =
      uint (full_toa p)"
    by (simp add: packet_time [OF assms])
qed (simp_all add: packet_fields [OF assms])

text \<open>C13. The published word of a click has the click's pixel in the bytes the clustering and
  histogram threads read as x and y, its time over threshold in the field \<open>tot\<close>, and its raw
  time of arrival in the low 34 bits of the field \<open>t\<close>.\<close>

theorem published_fields:
  assumes "unat (mRolloverCounter s) < 16"
  shows "list_all2 (\<lambda>p q. packet_x \<lparr>raw_value = q\<rparr> = uint (pixel_x (pixel_addr p)) \<and>
      packet_y \<lparr>raw_value = q\<rparr> = uint (pixel_y (pixel_addr p)) \<and>
      packet_tot \<lparr>raw_value = q\<rparr> = uint (raw_tot p) \<and>
      packet_t \<lparr>raw_value = q\<rparr> mod 2 ^ 34 = uint (full_toa p))
    (filter is_click ps) (snd (parse_packets s ps))"
  using assms
proof (induction ps arbitrary: s)
  case Nil
  then show ?case by simp
next
  case (Cons p ps)
  let ?s = "rollover_step s (full_toa p)"
  have c: "unat (mRolloverCounter ?s) < 16" using Cons.prems by (rule published_fields_step)
  then have fit: "fields_fit (pixel_x (pixel_addr p)) (pixel_y (pixel_addr p)) (raw_tot p)
      (mRolloverCounter ?s) (full_toa p)"
    using unat_pixel unat_raw_tot unat_full_toa by (simp add: fields_fit_def)
  show ?case using Cons.IH [OF c] Cons.IH [OF Cons.prems] packed_click [OF fit]
    by (simp add: Let_def case_prod_beta)
qed

text \<open>C21. The decoding of a pixel address is a bijection between 16-bit addresses and the 256
  by 256 pixels of the sensor: no two addresses share a pixel and every pixel has one.\<close>

theorem pixel_decoding_bijective:
  "bij_betw (\<lambda>a. (pixel_x a, pixel_y a)) {a. unat a < 2 ^ 16} ({x. unat x < 2 ^ 8} \<times> {y. unat y < 2 ^ 8})"
proof (rule bij_betw_byWitness [where f' = "\<lambda>(x, y). address_of x y"])
  have "unat (address_of x y) < 2 ^ 16" for x y
  proof -
    have "take_bit 16 (address_of x y) = address_of x y"
      by (rule bit_word_eqI) (auto simp: bit_take_bit_iff bit_address_of)
    then show ?thesis by (metis take_bit_nat_less_exp unsigned_take_bit_eq)
  qed
  then show "(\<lambda>(x, y). address_of x y) ` ({x. unat x < 2 ^ 8} \<times> {y. unat y < 2 ^ 8}) \<subseteq> {a. unat a < 2 ^ 16}"
    by auto
qed (use address_of_pixel pixel_of_address unat_pixel in auto)

lemma parse_packets_run:
  assumes "0 < late" and "step + late \<le> 2 ^ 32" and "t mod toa_period < 3 * 2 ^ 32"
    and "tame step late t ts" and "reports ps (t # ts)"
  shows "map time_of (snd (parse_packets (toa init_udp_manager) ps)) =
    published_times (t div toa_period) t (t # ts)"
  using assms(3)
proof -
  let ?s = "toa init_udp_manager"
  let ?f = "of_nat (t mod toa_period) :: u64"
  have inv: "toa_inv late (t div toa_period) t t (rollover_step ?s ?f)"
    using toa_inv_first [OF assms(3,1)] by (simp add: init_udp_manager_def)
  show ?thesis using assms(5)
  proof (induction ps)
    case Nil
    then show ?case by (simp add: reports_def)
  next
    case (Cons p ps)
    show ?case
    proof (cases "is_click p")
      case False
      with Cons show ?thesis by (simp add: reports_def)
    next
      case True
      with Cons.prems have p: "full_toa p = ?f" "reports ps ts" by (auto simp: reports_def)
      have "map time_of (snd (parse_packets (rollover_step ?s ?f) ps)) =
          published_times (t div toa_period) t ts"
        by (rule parse_packets_times [OF inv assms(2,4) p(2)])
      moreover have "stamp (rollover_step ?s ?f) t = (t - t div toa_period * toa_period) mod 2 ^ 38"
        by (rule stamp_current [OF inv]) simp
      ultimately show ?thesis using True p(1) published_packet_time [OF inv p(1)]
        by (simp add: Let_def case_prod_beta)
    qed
  qed
qed


text \<open>C4. Let the first click lie in the first three quarters of its period, every later click at
  most \<open>step\<close> after the latest click before it and less than \<open>late\<close> before it, and
  \<open>step + late\<close> be at most a quarter period.  Then the published times are the ticks since the
  start of the first click's period, modulo \<open>2 ^ 38\<close>, except that a click that arrives after the
  first click of the next period is published one period late.  Without these conditions a
  rollover can be missed, even if the clicks arrive in order.\<close>

theorem published_times_correct:
  assumes "0 < late" and "step + late \<le> 2 ^ 32" and "t mod toa_period < 3 * 2 ^ 32"
    and "tame step late t ts" and "reports ps (t # ts)"
  shows "map time_of (snd (parse_packets (toa init_udp_manager) ps)) =
    published_times (t div toa_period) t (t # ts)"
  using assms by (rule parse_packets_run)

theorem published_times_correct_witness:
  "map time_of (snd (parse_packets (toa init_udp_manager)
     [0xB0000000000F8000, 0x4000000000000000, 0xB0000FFFC00FBFFF, 0xB0000FFF800FFFFF, 0xB0000000000A0000, 0xB0000FFFC002FFFF])) =
   [8589934592, 12884901872, 17179869152, 17179869189, 34359738365]"
proof -
  let ?ps = "[0xB0000000000F8000, 0x4000000000000000, 0xB0000FFFC00FBFFF, 0xB0000FFF800FFFFF, 0xB0000000000A0000, 0xB0000FFFC002FFFF] :: u64 list"
  let ?ts = "[12884901872, 17179869152, 17179869189, 17179869181]"
  have p4: "tame 4294967280 16 8589934592 ?ts" by simp
  have p5: "reports ?ps (8589934592 # ?ts)"
    by (simp add: reports_def is_click_def full_toa_def Let_def toa_period_def)
  have p3: "(8589934592 :: nat) mod toa_period < 3 * 2 ^ 32" by (simp add: toa_period_def)
  have "published_times (8589934592 div toa_period) 8589934592 (8589934592 # ?ts) = [8589934592, 12884901872, 17179869152, 17179869189, 34359738365]"
    by (simp add: toa_period_def Let_def)
  moreover have p1: "0 < (16 :: nat)" and p2: "4294967280 + 16 \<le> (2 :: nat) ^ 32" by simp_all
  ultimately show ?thesis
    using published_times_correct [OF p1 p2 p3 p4 p5] by (simp only:)
qed

lemma published_fields_example:
  "unat (mRolloverCounter (toa init_udp_manager)) < 16"
  by (simp add: init_udp_manager_def)

theorem published_fields_witness:
  "list_all2 (\<lambda>p q. packet_x \<lparr>raw_value = q\<rparr> = uint (pixel_x (pixel_addr p)) \<and>
      packet_y \<lparr>raw_value = q\<rparr> = uint (pixel_y (pixel_addr p)) \<and>
      packet_tot \<lparr>raw_value = q\<rparr> = uint (raw_tot p) \<and>
      packet_t \<lparr>raw_value = q\<rparr> mod 2 ^ 34 = uint (full_toa p))
    [0xB1234040300F0001] (snd (parse_packets (toa init_udp_manager) [0xB1234040300F0001]))"
  using published_fields [OF published_fields_example, of "[0xB1234040300F0001]"]
  by (simp add: is_click_def)

text \<open>When the clicks arrive in order of time, every published time is the number of ticks
  since the start of the first click's period, modulo \<open>2 ^ 38\<close>.\<close>

theorem published_times_in_order:
  assumes "t mod toa_period < 3 * 2 ^ 32" and "tame (2 ^ 32 - 1) 1 t ts" and "reports ps (t # ts)"
  shows "map time_of (snd (parse_packets (toa init_udp_manager) ps)) =
    map (\<lambda>u. (u - t div toa_period * toa_period) mod 2 ^ 38) (t # ts)"
proof -
  have eq: "published_times e m us = map (\<lambda>u. (u - e * toa_period) mod 2 ^ 38) us"
    if "tame (2 ^ 32 - 1) 1 m us" for e m us
    using that
  proof (induction us arbitrary: m)
    case Nil
    then show ?case by simp
  next
    case (Cons u us)
    then have "max m u = u" by simp
    with Cons show ?case by (simp add: Let_def)
  qed
  have "tame (2 ^ 32 - 1) 1 t (t # ts)" using assms(2) by simp
  from eq [OF this] show ?thesis
    using parse_packets_run [OF _ _ assms(1,2,3)] by simp
qed


theorem published_times_in_order_witness:
  "map time_of (snd (parse_packets (toa init_udp_manager) [0xB0000000000F8000, 0xB0000FFFC00FBFFF])) =
    [8589934592, 12884901872]"
proof -
  have p1: "(8589934592 :: nat) mod toa_period < 3 * 2 ^ 32" by (simp add: toa_period_def)
  have p2: "tame (2 ^ 32 - 1) 1 8589934592 [12884901872]" by simp
  have p3: "reports [0xB0000000000F8000, 0xB0000FFFC00FBFFF] (8589934592 # [12884901872])"
    by (simp add: reports_def is_click_def full_toa_def Let_def toa_period_def)
  show ?thesis
    using published_times_in_order [OF p1 p2 p3] by (simp add: toa_period_def del: parse_packets.simps)
qed

text \<open>Resetting the counter keeps the last time and the halfway flag: if the server was in the last
  quarter of a period, the first click after the Timepix clock has started again from zero is
  taken for a rollover and stamped one period late.\<close>

lemma reset_then_spurious_rollover:
  assumes "mHalfwayToRollover (toa m)" "three_quarter_time < mLastToA (toa m)" "full < quarter_time"
  shows "mRolloverCounter (rollover_step (toa (udp_resetToaRolloverCounter m)) full) = 1"
  using assms by (simp add: rollover_step_def udp_resetToaRolloverCounter_def Let_def)

text \<open>C33. A rollover goes unnoticed when no click falls into the middle half of a period: however
  many periods the clicks span, in order or not, each is published with the ticks since the
  start of its own period.  This is so for a first click in the last quarter of its period
  followed by one at the start of the next.\<close>

theorem rollovers_missed:
  assumes "reports ps ts"
    and "list_all (\<lambda>t. t mod toa_period \<le> 2 ^ 32 \<or> 3 * 2 ^ 32 \<le> t mod toa_period) ts"
  shows "map time_of (snd (parse_packets (toa init_udp_manager) ps)) = map (\<lambda>t. t mod toa_period) ts"
  using parse_packets_unnoticed [OF _ _ assms, of "toa init_udp_manager"]
  by (simp add: init_udp_manager_def stamp_def)

theorem rollovers_missed_witness:
  "map time_of (snd (parse_packets (toa init_udp_manager) [0xB0000000000FF000, 0xB0000000000F0001])) =
    [16106127360, 262144]"
proof -
  have "reports [0xB0000000000FF000, 0xB0000000000F0001] [16106127360, 17179869184 + 262144]"
    by (simp add: reports_def is_click_def full_toa_def Let_def toa_period_def)
  from rollovers_missed [OF this] show ?thesis by (simp add: toa_period_def del: parse_packets.simps)
qed
end
