(* ===== verification/Pipeline.thy ===== *)
theory Pipeline
  imports RawFile ToaRollover Histogram ClusterManager
begin

text \<open>
  The path of the pixel data through the threads.  The UDP manager's publishing socket sends
  the memory of its \<open>std::vector<uint64_t>\<close> (\<open>publishRawData\<close>), and the clustering and the
  histogram thread read a received message as such an array again.  ZeroMQ hands a message
  over whole; which messages a subscriber has received is an assumption of each theorem.
\<close>

section \<open>From datagrams to messages\<close>

text \<open>A published message as a subscriber receives it.\<close>

definition published_message :: "endian \<Rightarrow> u64 list \<Rightarrow> bytes" where
  "published_message e ws = store_words e 8 ws"

lemma message_words_read:
  "load_words e 8 (length (published_message e ws) div 8) (published_message e ws) = ws"
  using load_words_store_words [of 8 "length ws" ws e "[]"] by (simp add: published_message_def)

text \<open>The clicks of the datagrams that are published, one list per message.\<close>

definition published_clicks :: "datagram list \<Rightarrow> u64 list list" where
  "published_clicks ds =
     map (\<lambda>(now, buf, sz). datagram_clicks buf sz) (filter (\<lambda>(now, buf, sz). 0 < sz \<and> sz mod 8 = 0) ds)"

lemma concat_published_clicks:
  "concat (published_clicks ds) = concat (map (\<lambda>(now, buf, sz). datagram_clicks buf sz) ds)"
proof (induction ds)
  case (Cons d ds)
  obtain now buf sz where d: "d = (now, buf, sz)" by (cases d)
  have "\<not> (0 < sz \<and> sz mod 8 = 0) \<Longrightarrow> datagram_clicks buf sz = []"
    by (auto simp: datagram_clicks_def load_words_def)
  with Cons d show ?case by (auto simp: published_clicks_def)
qed (simp add: published_clicks_def)

text \<open>What the other threads read from a word, against the packet of the board it was made from.\<close>

definition same_click :: "u64 \<Rightarrow> u64 \<Rightarrow> bool" where
  "same_click p q \<longleftrightarrow>
     packet_x \<lparr>raw_value = q\<rparr> = uint (pixel_x (pixel_addr p)) \<and>
     packet_y \<lparr>raw_value = q\<rparr> = uint (pixel_y (pixel_addr p)) \<and>
     packet_tot \<lparr>raw_value = q\<rparr> = uint (raw_tot p) \<and>
     packet_t \<lparr>raw_value = q\<rparr> mod 2 ^ 34 = uint (full_toa p)"

lemma parse_packets_same:
  assumes "unat (mRolloverCounter s) < 16"
  shows "list_all2 same_click (filter is_click ps) (snd (parse_packets s ps)) \<and>
    unat (mRolloverCounter (fst (parse_packets s ps))) < 16"
  using assms
proof (induction ps arbitrary: s)
  case Nil
  then show ?case by simp
next
  case (Cons p ps)
  let ?s = "rollover_step s (full_toa p)"
  have c: "unat (mRolloverCounter ?s) < 16" using Cons.prems by (rule published_fields_step)
  then have fit: "fields_fit (pixel_x (pixel_addr p)) (pixel_y (pixel_addr p)) (raw_tot p)
      (mRolloverCounter ?s) (full_toa p)"
    using unat_pixel unat_raw_tot unat_full_toa by (simp add: fields_fit_def)
  show ?case using Cons.IH [OF c] Cons.IH [OF Cons.prems] packed_click [OF fit]
    by (simp add: Let_def case_prod_beta same_click_def)
qed

lemma publish_counter:
  "toa (publishRawData e now m buf sz) = fst (parse_packets (toa m) (load_words e 8 (sz div 8) buf))"
  by (simp add: publishRawData_def Let_def case_prod_beta)

lemma receive_published:
  assumes "unat (mRolloverCounter (toa m)) < 16"
  shows "\<exists>qss. udp_published (udp_poll Little m ds) = udp_published m @ qss \<and>
    list_all2 (list_all2 same_click) (published_clicks ds) qss"
  using assms
proof (induction ds arbitrary: m)
  case Nil
  then show ?case by (simp add: published_clicks_def)
next
  case (Cons d ds)
  obtain now buf sz where d: "d = (now, buf, sz)" by (cases d)
  let ?m = "handleMessage Little now m buf sz"
  let ?ps = "load_words Little 8 (sz div 8) buf"
  note one = parse_packets_same [OF Cons.prems, of ?ps]
  have pub: "udp_published ?m = (if 0 < sz \<and> sz mod 8 = 0
      then udp_published m @ [snd (parse_packets (toa m) ?ps)] else udp_published m)"
    and "unat (mRolloverCounter (toa ?m)) < 16"
    using one Cons.prems
    by (auto simp: handleMessage_def parseBytes_def publishRawData_def Let_def case_prod_beta)
  from Cons.IH [OF this(2)] obtain qss where
    "udp_published (udp_poll Little ?m ds) = udp_published ?m @ qss"
    "list_all2 (list_all2 same_click) (published_clicks ds) qss" by blast
  then show ?case using pub one d
    by (cases "0 < sz \<and> sz mod 8 = 0") (auto simp: published_clicks_def datagram_clicks_def)
qed

section \<open>At the subscribers\<close>

definition messages_of :: "incoming list \<Rightarrow> bytes list" where
  "messages_of evs = concat (map (\<lambda>ev. case ev of Received msg \<Rightarrow> [msg] | _ \<Rightarrow> []) evs)"

lemma messages_of_simps [simp]:
  "messages_of [] = []"
  "messages_of (ev # evs) = (case ev of Received msg \<Rightarrow> msg # messages_of evs | _ \<Rightarrow> messages_of evs)"
  by (simp_all add: messages_of_def split: incoming.split)

definition words_of :: "endian \<Rightarrow> incoming \<Rightarrow> u64 list" where
  "words_of e ev = (case ev of Received msg \<Rightarrow> load_words e 8 (length msg div 8) msg | _ \<Rightarrow> [])"

lemma words_received:
  "messages_of evs = map (published_message e) qss \<Longrightarrow> concat (map (words_of e) evs) = concat qss"
proof (induction evs arbitrary: qss)
  case (Cons ev evs)
  show ?case
  proof (cases ev)
    case (Received msg)
    with Cons.prems obtain qs qss' where "qss = qs # qss'" "msg = published_message e qs"
      "messages_of evs = map (published_message e) qss'" by auto
    then show ?thesis using Cons.IH Received by (simp add: words_of_def message_words_read)
  qed (use Cons in \<open>simp_all add: words_of_def\<close>)
qed simp

lemma packets_in_words: "packets_in e es = concat (map (\<lambda>(now, ev). words_of e ev) es)"
  by (induction es) (auto simp: words_of_def split: incoming.split)

lemma same_clicks_filter:
  assumes "list_all2 same_click ps qs" and "\<And>p q. same_click p q \<Longrightarrow> P p \<longleftrightarrow> Q q"
  shows "length (filter P ps) = length (filter Q qs)"
  using assms by (induction rule: list_all2_induct) auto

lemma list_all2_concat:
  "list_all2 (list_all2 R) xss yss \<Longrightarrow> list_all2 R (concat xss) (concat yss)"
  by (induction rule: list_all2_induct) (auto intro: list_all2_appendI)

text \<open>The datagrams of a run, as the subscribers get them from a manager that saves them to a file.\<close>

definition saving_manager :: "(string \<Rightarrow> bool) \<Rightarrow> string \<Rightarrow> udp_manager" where
  "saving_manager can_open path = fst (udp_setSaveFile can_open path init_udp_manager)"

lemma received_clicks:
  assumes "path \<noteq> []" and "can_open path" and "list_all datagram_ok ds"
    and "messages_of evs =
      map (published_message Little) (udp_published (udp_poll Little (saving_manager can_open path) ds))"
  shows "\<exists>clicks. read_file (contents (udp_file (udp_poll Little (saving_manager can_open path) ds))) = Some clicks \<and>
    list_all2 same_click clicks (concat (map (words_of Little) evs))"
proof -
  let ?m = "saving_manager can_open path"
  have m: "unat (mRolloverCounter (toa ?m)) < 16" "udp_published ?m = []"
    by (simp_all add: saving_manager_def udp_setSaveFile_def init_udp_manager_def Let_def case_prod_beta)
  obtain qss where q: "udp_published (udp_poll Little ?m ds) = udp_published ?m @ qss"
    "list_all2 (list_all2 same_click) (published_clicks ds) qss"
    using receive_published [OF m(1)] by blast
  have "list_all2 same_click (concat (published_clicks ds)) (concat (map (words_of Little) evs))"
    using list_all2_concat [OF q(2)] words_received [of evs Little qss] assms(4) q(1) m(2) by simp
  moreover have "read_file (contents (udp_file (udp_poll Little ?m ds))) = Some (concat (published_clicks ds))"
    using raw_file_contents [where opens = can_open, OF assms(1-3), of init_udp_manager]
    by (simp add: saving_manager_def concat_published_clicks)
  ultimately show ?thesis by blast
qed

section \<open>Clustering what was received\<close>

lemma handlePackets_input: "cl_handlePackets e start now data m = Inr m' \<Longrightarrow> cl_input m' = cl_input m"
  by (auto simp: cl_handlePackets_def and_then_eq_Inr Let_def split: if_splits)

interpretation polls: batch_steps "\<lambda>(start, now, ev). cl_poll e start now ev"
    "\<lambda>(start, now, ev). words_of e ev" "\<lambda>b. True" "\<lambda>b vss. True" "\<lambda>b. True" "\<lambda>m. cl_input m \<noteq> None" for e
proof
  fix b :: "int \<times> int \<times> incoming" and m :: cluster_manager and s
  obtain start now ev where b: "b = (start, now, ev)" by (cases b)
  let ?ws = "words_of e ev"
  assume wf: "settings_ok (settings m)" "weighty (case b of (start, now, ev) \<Rightarrow> words_of e ev)"
    "wf_clusters s (open_clusters m)"
    "room s (length (open_clusters m)) (length (case b of (start, now, ev) \<Rightarrow> words_of e ev))"
    "is_open (cl_file m)" "stream_good (cl_file m)" and input: "cl_input m \<noteq> None"
  note wf = wf [unfolded b prod.case]
  have "\<exists>m' vss. cl_poll e start now ev m = Inr m' \<and> cl_input m' \<noteq> None \<and> True \<and> handled s m ?ws True vss m'"
  proof (cases "\<exists>msg. ev = Received msg \<and> msg \<noteq> []")
    case True
    then obtain msg where ev: "ev = Received msg" "msg \<noteq> []" by blast
    let ?m = "m\<lparr>cl_chunks := i32 (cl_chunks m + 1)\<rparr>"
    from cl_handlePackets_handled [of ?m ?ws s e start now] wf obtain m' vs where
      r: "cl_handlePackets e start now ?ws ?m = Inr m'" "handled s m ?ws True [vs] m'"
      by (auto simp: handled_def)
    moreover have "cl_poll e start now ev m = Inr m'" using ev input r(1) by (simp add: cl_poll_def words_of_def Let_def del: not_None_eq)
    ultimately show ?thesis using input handlePackets_input [OF r(1)]
      by (intro exI [of _ m'] exI [of _ "[vs]"]) simp
  next
    case False
    then have none: "?ws = []" by (cases ev) (simp_all add: words_of_def load_words_def)
    have "\<exists>m'. cl_poll e start now ev m = Inr m' \<and> settings m' = settings m \<and> cl_input m' = cl_input m \<and>
      open_clusters m' = open_clusters m \<and> cl_published m' = cl_published m \<and> cl_file m' = cl_file m"
      using False input by (cases ev) (simp_all add: cl_poll_def Let_def del: not_None_eq)
    then obtain m' where same: "cl_poll e start now ev m = Inr m'" "settings m' = settings m" "cl_input m' = cl_input m"
      "open_clusters m' = open_clusters m" "cl_published m' = cl_published m" "cl_file m' = cl_file m" by blast
    show ?thesis using wf input none same by (intro exI [of _ m'] exI [of _ "[]"]) (simp add: handled_def)
  qed
  then show "\<exists>m' vss. (case b of (start, now, ev) \<Rightarrow> cl_poll e start now ev) m = Inr m' \<and>
      cl_input m' \<noteq> None \<and> True \<and> handled s m (case b of (start, now, ev) \<Rightarrow> words_of e ev) True vss m'"
    unfolding b prod.case .
qed

definition listening_clusters :: "(string \<Rightarrow> bool) \<Rightarrow> string \<Rightarrow> string \<Rightarrow> string \<Rightarrow> cluster_manager" where
  "listening_clusters can path input publish =
     fst (cl_setSaveFile can path (cl_setRawPacketServerAddress can input (init_cluster_manager publish)))"

section \<open>Properties\<close>

text \<open>C6. The raw data file and the histograms agree: when the histogram thread has received the
  messages published for some datagrams, the counts of a pixel, in the histograms published
  and the current one together, are the number of clicks on that pixel that a reader finds in
  the file, modulo \<open>2 ^ 16\<close>.\<close>

theorem histogram_matches_raw_file:
  assumes "path \<noteq> []" and "can_open path" and "list_all datagram_ok ds" and "input \<noteq> []"
    and "messages_of (map snd es) =
      map (published_message Little) (udp_published (udp_poll Little (saving_manager can_open path) ds))"
    and "x < 256" and "y < 256"
  shows "\<exists>clicks m'.
    read_file (contents (udp_file (udp_poll Little (saving_manager can_open path) ds))) = Some clicks \<and>
    hist_run Little es (listening_histogram can_connect input t0 ep) = Inr m' \<and>
    sum_list (map (\<lambda>h. h ! (x + y * 256)) (hist_published m')) + mHistogram m' ! (x + y * 256) =
      of_nat (length (filter (\<lambda>p. unat (pixel_x (pixel_addr p)) = x \<and> unat (pixel_y (pixel_addr p)) = y) clicks))"
proof -
  obtain clicks where c: "read_file (contents (udp_file (udp_poll Little (saving_manager can_open path) ds))) = Some clicks"
    "list_all2 same_click clicks (packets_in Little es)"
    using received_clicks [OF assms(1-3,5)] packets_in_words [of Little es] by (auto simp: case_prod_beta' comp_def)
  have "length (filter (\<lambda>p. unat (pixel_x (pixel_addr p)) = x \<and> unat (pixel_y (pixel_addr p)) = y) clicks) =
    length (filter (\<lambda>p. packet_x \<lparr>raw_value = p\<rparr> = int x \<and> packet_y \<lparr>raw_value = p\<rparr> = int y) (packets_in Little es))"
    by (rule same_clicks_filter [OF c(2)]) (simp only: same_click_def uint_nat of_nat_eq_iff)
  then have count: "of_nat (length (filter (\<lambda>p. unat (pixel_x (pixel_addr p)) = x \<and> unat (pixel_y (pixel_addr p)) = y) clicks)) =
    (of_nat (length (filter (\<lambda>p. packet_x \<lparr>raw_value = p\<rparr> = int x \<and> packet_y \<lparr>raw_value = p\<rparr> = int y)
      (packets_in Little es))) :: u16)" by (rule arg_cong)
  from histogram_counts [OF assms(6,7,4), of Little es can_connect t0 ep] obtain m' where
    m': "hist_run Little es (listening_histogram can_connect input t0 ep) = Inr m'"
    "sum_list (map (\<lambda>h. h ! (x + y * 256)) (hist_published m')) + mHistogram m' ! (x + y * 256) =
      of_nat (length (filter (\<lambda>p. packet_x \<lparr>raw_value = p\<rparr> = int x \<and> packet_y \<lparr>raw_value = p\<rparr> = int y)
        (packets_in Little es)))" by blast
  show ?thesis
    by (intro exI conjI, rule c(1), rule m'(1), rule m'(2) [folded count])
qed

text \<open>A subscriber that has received everything, and one datagram to try the properties on.\<close>

definition all_received :: "u64 list list \<Rightarrow> (int \<times> int \<times> incoming) list" where
  "all_received qss = map (\<lambda>qs. (0, 5, Received (published_message Little qs))) qss"

lemma messages_all_received: "messages_of (map (snd \<circ> snd) (all_received qss)) = map (published_message Little) qss"
  by (induction qss) (simp_all add: all_received_def)

definition one_datagram :: "datagram list" where
  "one_datagram = [((1, 1), [1, 2, 3, 4, 5, 6, 7, 0xB8, 0, 0, 0, 0, 0, 0, 0, 0x40], 16)]"

definition one_run :: udp_manager where
  "one_run = udp_poll Little (saving_manager (\<lambda>p. True) ''run.tpx3'') one_datagram"

lemma one_datagram_clicks:
  "list_all datagram_ok one_datagram" "read_file (contents (udp_file one_run)) = Some [0xB807060504030201]"
proof -
  show ok: "list_all datagram_ok one_datagram" by (simp add: one_datagram_def datagram_ok_def)
  have "concat (map (\<lambda>(now, buf, sz). datagram_clicks buf sz) one_datagram) = [0xB807060504030201]"
    by (simp add: one_datagram_def datagram_clicks_def load_words_def load_at_def load_def is_click_def upt_conv_Cons)
  then show "read_file (contents (udp_file one_run)) = Some [0xB807060504030201]"
    using raw_file_contents [of "''run.tpx3''" "\<lambda>p. True" one_datagram init_udp_manager] ok
    by (simp add: one_run_def saving_manager_def)
qed

theorem histogram_matches_raw_file_witness:
  "\<exists>m'. hist_run Little (map snd (all_received (udp_published one_run)))
      (listening_histogram (\<lambda>p. True) ''tcp://127.0.0.1:9102'' 0 ''tcp://0.0.0.0:1'') = Inr m' \<and>
    sum_list (map (\<lambda>h. h ! (56 + 128 * 256)) (hist_published m')) + mHistogram m' ! (56 + 128 * 256) = 1"
proof -
  have m: "messages_of (map snd (map snd (all_received (udp_published one_run)))) =
      map (published_message Little) (udp_published one_run)"
    using messages_all_received [of "udp_published one_run"] by simp
  have "length (filter (\<lambda>p. unat (pixel_x (pixel_addr p)) = 56 \<and> unat (pixel_y (pixel_addr p)) = 128)
      [0xB807060504030201]) = 1"
    by (simp add: pixel_x_def pixel_y_def pixel_addr_def)
  then show ?thesis
    using histogram_matches_raw_file [of "''run.tpx3''" "\<lambda>p. True" one_datagram "''tcp://127.0.0.1:9102''"
        "map snd (all_received (udp_published one_run))" 56 128] one_datagram_clicks m
    by (auto simp flip: one_run_def)
qed

text \<open>C7. Clustering what the UDP thread publishes: with any settings in range, and at most 185000
  clicks of the run in the raw data file, all of positive time over threshold (the number for
  which the sums of the weights certainly stay exact), every poll of the clustering thread
  succeeds, the clusters file holds exactly the clusters published by these polls, and there
  are never more clusters, published or open, than clicks in the raw data file.\<close>

theorem clusters_from_raw_data:
  assumes "path \<noteq> []" and "can_open path" and "list_all datagram_ok ds" and "input \<noteq> []"
    and "messages_of (map (snd \<circ> snd) es) =
      map (published_message Little) (udp_published (udp_poll Little (saving_manager can_open path) ds))"
    and "cpath \<noteq> []" and "can cpath"
    and "read_file (contents (udp_file (udp_poll Little (saving_manager can_open path) ds))) = Some clicks"
    and "list_all (\<lambda>p. raw_tot p \<noteq> 0) clicks" and "length clicks \<le> 185000" and "settings_ok st"
  shows "\<exists>m'. run_steps (\<lambda>(start, now, ev). cl_poll Little start now ev) es
      ((listening_clusters can cpath input ep)\<lparr>settings := st\<rparr>) = Inr m' \<and>
    read_cluster_file (contents (cl_file m')) = Some (concat (cl_published m')) \<and>
    length (open_clusters m') + length (concat (cl_published m')) \<le> length clicks"
proof -
  let ?m = "(listening_clusters can cpath input ep)\<lparr>settings := st\<rparr>"
  let ?ws = "concat (map (\<lambda>(start, now, ev). words_of Little ev) es)"
  have same: "list_all2 same_click clicks ?ws"
    using received_clicks [OF assms(1-3,5)] assms(8) by (auto simp: case_prod_beta' comp_def)
  then have len: "length ?ws = length clicks" by (simp add: list_all2_lengthD)
  have "weighty ws" if "list_all2 same_click ps ws" "list_all (\<lambda>p. raw_tot p \<noteq> 0) ps" for ps ws
    using that
  proof (induction rule: list_all2_induct)
    case (Cons p ps q qs)
    then have "packet_tot \<lparr>raw_value = q\<rparr> = uint (raw_tot p)" "raw_tot p \<noteq> 0" by (simp_all add: same_click_def)
    moreover have "0 < uint (raw_tot p)" using calculation(2) by (simp add: less_le uint_0_iff)
    ultimately show ?case using Cons by (simp add: weighty_def)
  qed (simp add: weighty_def)
  from this [OF same assms(9)] have w: "weighty ?ws" .
  have f: "cl_file ?m = \<lparr>is_open = True, failed = False, contents = ascii ''CLUSTERS''\<rparr>"
    using cluster_save.opened [where opens = can and path = cpath, OF assms(6,7)]
    by (simp add: listening_clusters_def cl_setSaveFile_def Let_def case_prod_beta)
  have m: "settings_ok (settings ?m)" "open_clusters ?m = []" "cl_published ?m = []" "cl_input ?m \<noteq> None"
    using assms(4,11) by (simp_all add: listening_clusters_def cl_setSaveFile_def cl_setRawPacketServerAddress_def
        init_cluster_manager_def Let_def case_prod_beta)
  have all: "saved_by (\<lambda>b. True) es outs = concat (concat outs)" if "length es = length outs" for outs
    using that by (simp add: saved_by_def)
  have "room 0 (length (open_clusters ?m)) (length (concat (map (\<lambda>(start, now, ev). words_of Little ev) es)))"
    using room_clicks [OF assms(10)] len m(2) by simp
  moreover have "list_all (\<lambda>b. True) es" by (simp add: list_all_iff)
  moreover have "wf_clusters 0 (open_clusters ?m)" "is_open (cl_file ?m)" "stream_good (cl_file ?m)"
    using m f by (simp_all add: stream_good_def)
  ultimately obtain m' outs where
    r: "run_steps (\<lambda>(start, now, ev). cl_poll Little start now ev) es ?m = Inr m'" "length es = length outs"
    "cl_published m' = concat outs"
    "length (open_clusters m') + length (concat (concat outs)) \<le> length clicks"
    "cl_file m' = (cl_file ?m)\<lparr>contents := contents (cl_file ?m) @ concat (map (to_be 8) (saved_by (\<lambda>b. True) es outs))\<rparr>"
    using polls.run_steps_handled [where m = ?m and bs = es and s = 0 and e = Little] m w len
    by (auto dest: list_all2_lengthD)
  show ?thesis using r f all [OF r(2)] read_saved_clusters [of "concat (concat outs)"] by auto
qed

theorem clusters_from_raw_data_witness:
  "\<exists>m'. run_steps (\<lambda>(start, now, ev). cl_poll Little start now ev) (all_received (udp_published one_run))
      ((listening_clusters (\<lambda>p. True) ''c.bin'' ''tcp://127.0.0.1:9102'' ''tcp://0.0.0.0:1'')\<lparr>settings := default_settings\<rparr>) = Inr m' \<and>
    read_cluster_file (contents (cl_file m')) = Some (concat (cl_published m'))"
proof -
  have "length [0xB807060504030201 :: u64] \<le> 185000" "raw_tot 0xB807060504030201 \<noteq> 0" by (simp_all add: raw_tot_def)
  then show ?thesis
    using clusters_from_raw_data [of "''run.tpx3''" "\<lambda>p. True" one_datagram "''tcp://127.0.0.1:9102''"
        "all_received (udp_published one_run)" "''c.bin''" "\<lambda>p. True" "[0xB807060504030201]" default_settings "''tcp://0.0.0.0:1''"]
      one_datagram_clicks messages_all_received [of "udp_published one_run"] default_settings_ok
    by (auto simp flip: one_run_def)
qed

end
