(* ===== verification/Centroids.thy ===== *)
theory Centroids
  imports ClusterManager
begin

text \<open>
  Where the clusters come from: every cluster the program keeps or reports is built by the
  constructor, \<open>addClick\<close> and \<open>addCluster\<close> from clicks of the batches processed, and its
  reported position lies between those clicks.
\<close>

section \<open>Clusters built by the operations of the code\<close>

text \<open>\<open>built st ps c\<close>: the cluster \<open>c\<close> is made from the clicks \<open>ps\<close>, in the order they were added.\<close>

inductive built :: "cluster_settings \<Rightarrow> packet list \<Rightarrow> cluster \<Rightarrow> bool" for st where
  new: "built st [p] (new_cluster st p)"
| click: "built st ps c \<Longrightarrow> built st (ps @ [p]) (add_click st c p)"
| merge: "built st ps a \<Longrightarrow> built st qs b \<Longrightarrow> built st (ps @ qs) (add_cluster a b)"

abbreviation weights :: "packet list \<Rightarrow> int" where
  "weights ps \<equiv> sum_list (map packet_tot ps)"

lemma weights_nonneg [simp]: "0 \<le> weights ps"
  by (induction ps) simp_all

lemma weights_append_le: "weights (ps @ qs) \<le> l \<Longrightarrow> weights ps \<le> l \<and> weights qs \<le> l"
  using weights_nonneg [of ps] weights_nonneg [of qs] unfolding map_append sum_list_append by linarith

lemma built_sound:
  assumes "settings_ok st"
  shows "built st ps c \<Longrightarrow> list_all (\<lambda>p. 0 < packet_tot p) ps \<Longrightarrow> weights ps \<le> weight_limit \<Longrightarrow>
    sound c \<and> weight c = weights ps"
proof (induction rule: built.induct)
  case (new p)
  then show ?case using assms sound_new by simp
next
  case (click ps c p)
  then have l: "weights ps + packet_tot p \<le> weight_limit" "0 < packet_tot p" by simp_all
  then have "sound c" "weight c = weights ps" using click.IH click.prems weights_append_le by auto
  with l show ?case using sound_add_click [OF assms l(2)] by simp
next
  case (merge ps a qs b)
  have "weights ps \<le> weight_limit" "weights qs \<le> weight_limit"
    using weights_append_le merge.prems(2) by blast+
  with merge have "sound a" "sound b" "weight a = weights ps" "weight b = weights qs" by simp_all
  with merge.prems show ?case using sound_add_cluster by simp
qed

text \<open>Every coordinate of the centroid lies between bounds of the clicks' coordinates.\<close>

lemma between_of_int:
  assumes "0 \<le> a" "b \<le> 255" "a \<le> v" "v \<le> b"
  shows "between (of_int a) (of_int b) (dbl_of_int v)"
  using assms dbl_of_int_exact [of v] by (simp add: between_def)

lemma built_mean:
  assumes st: "settings_ok st" and ab: "0 \<le> a" "a \<le> 255" "0 \<le> b" "b \<le> 255"
    and new: "\<And>p. mean (new_cluster st p) = dbl_of_int (f p)"
    and add: "\<And>c p. mean (add_click st c p) =
      (mean c * tot_total c + dbl_of_int (f p * packet_tot p)) / (tot_total c + dbl_of_int (packet_tot p))"
    and merge: "\<And>c d. mean (add_cluster c d) =
      (mean c * tot_total c + mean d * tot_total d) / (tot_total c + tot_total d)"
  shows "built st ps c \<Longrightarrow> list_all (\<lambda>p. 0 < packet_tot p) ps \<Longrightarrow> weights ps \<le> weight_limit \<Longrightarrow>
    list_all (\<lambda>p. a \<le> f p \<and> f p \<le> b) ps \<Longrightarrow> between (of_int a) (of_int b) (mean c)"
proof (induction rule: built.induct)
  case (new p)
  then show ?case using ab by (simp add: assms(6) between_of_int)
next
  case (click ps c p)
  have l: "weights ps \<le> weight_limit" using weights_append_le click.prems(2) by blast
  note c = built_sound [OF st click.hyps]
  have s: "sound c" "weight c = weights ps" using c click.prems l by simp_all
  have t: "tot_total c = Fin (of_int (weights ps))" "0 < weights ps" using s by (simp_all add: sound_def)
  have v: "a \<le> f p" "f p \<le> b" using click.prems(3) by simp_all
  have "f p * packet_tot p < 2 ^ 53" using v ab by (intro coordinate_weight) simp
  then have "between (of_int a) (of_int b)
    ((mean c * Fin (of_int (weights ps)) + dbl_of_int (f p * packet_tot p)) /
       (Fin (of_int (weights ps)) + dbl_of_int (packet_tot p)))"
    using ab click t v l by (intro mean_click scalable_nat) simp_all
  then show ?case by (simp add: add t)
next
  case (merge ps c qs d)
  have l: "weights ps \<le> weight_limit" "weights qs \<le> weight_limit"
    using weights_append_le merge.prems(2) by blast+
  note c = built_sound [OF st merge.hyps(1)] built_sound [OF st merge.hyps(2)]
  have s: "sound c" "weight c = weights ps" "sound d" "weight d = weights qs" using c merge.prems l by simp_all
  have t: "tot_total c = Fin (of_int (weights ps))" "0 < weights ps"
    "tot_total d = Fin (of_int (weights qs))" "0 < weights qs" using s by (simp_all add: sound_def)
  have "between (of_int a) (of_int b)
    ((mean c * Fin (of_int (weights ps)) + mean d * Fin (of_int (weights qs))) /
       (Fin (of_int (weights ps)) + Fin (of_int (weights qs))))"
    using ab merge t l by (intro mean_merge scalable_nat) simp_all
  then show ?case by (simp add: assms(8) t)
qed

lemma built_nonempty: "built st ps c \<Longrightarrow> ps \<noteq> []"
  by (induction rule: built.induct) simp_all

lemma built_xmean:
  assumes "settings_ok st" "built st ps c" "list_all (\<lambda>p. 0 < packet_tot p) ps" "weights ps \<le> weight_limit"
  shows "between (of_int (Min (packet_x ` set ps))) (of_int (Max (packet_x ` set ps))) (xmean c)"
proof -
  have "finite (packet_x ` set ps)" "packet_x ` set ps \<noteq> {}" using built_nonempty [OF assms(2)] by simp_all
  then show ?thesis
    by (intro built_mean [OF assms(1), where f = packet_x, OF _ _ _ _ _ _ _ assms(2-4)])
      (auto simp: new_cluster_def add_click_def add_cluster_def Let_def list_all_iff Min_le_iff Min_ge_iff
        Max_le_iff Max_ge_iff ex_in_conv)
qed

lemma built_ymean:
  assumes "settings_ok st" "built st ps c" "list_all (\<lambda>p. 0 < packet_tot p) ps" "weights ps \<le> weight_limit"
  shows "between (of_int (Min (packet_y ` set ps))) (of_int (Max (packet_y ` set ps))) (ymean c)"
proof -
  have "finite (packet_y ` set ps)" "packet_y ` set ps \<noteq> {}" using built_nonempty [OF assms(2)] by simp_all
  then show ?thesis
    by (intro built_mean [OF assms(1), where f = packet_y, OF _ _ _ _ _ _ _ assms(2-4)])
      (auto simp: new_cluster_def add_click_def add_cluster_def Let_def list_all_iff Min_le_iff Min_ge_iff
        Max_le_iff Max_ge_iff ex_in_conv)
qed

lemma built_box:
  assumes "settings_ok st"
  shows "built st ps c \<Longrightarrow> p \<in> set ps \<Longrightarrow>
    xmin c \<le> packet_x p - xy_sep st \<and> packet_x p + xy_sep st \<le> xmax c \<and>
    ymin c \<le> packet_y p - xy_sep st \<and> packet_y p + xy_sep st \<le> ymax c"
  by (induction rule: built.induct)
    (auto simp: new_cluster_def add_click_def add_cluster_def Let_def box_exact [OF assms])

text \<open>The masks of \<open>toRawValue\<close> cut nothing off the position.\<close>

lemma coordinate_of_mean:
  assumes b: "between (of_int u) (of_int w) d" and z: "dbl_to_u64 d = Inr z" and "0 \<le> u" "w \<le> 255"
  shows "u \<le> uint (z AND 0xFF) \<and> uint (z AND 0xFF) \<le> w"
proof -
  obtain m where m: "d = Fin m" "of_int u \<le> m" "m \<le> of_int w" using b by (rule betweenE)
  have f: "u \<le> \<lfloor>m\<rfloor>" "\<lfloor>m\<rfloor> \<le> w" using m(2,3) by (simp add: le_floor_iff, metis floor_mono floor_of_int)
  then have "0 \<le> m" using m(2) assms(3) by (metis of_int_0_le_iff order_trans)
  then have "z = word_of_int \<lfloor>m\<rfloor>"
    using z f assms(3,4) by (simp add: dbl_to_u64_def m(1) trunc_rat_def Let_def split: if_splits)
  moreover have "uint (word_of_int \<lfloor>m\<rfloor> AND 0xFF :: u64) = \<lfloor>m\<rfloor>"
  proof -
    have "(0xFF :: u64) = mask 8" by (simp add: mask_eq_exp_minus_1)
    then have "uint (word_of_int \<lfloor>m\<rfloor> AND 0xFF :: u64) = take_bit 8 (uint (word_of_int \<lfloor>m\<rfloor> :: u64))"
      by (simp only: take_bit_eq_mask [symmetric] unsigned_take_bit_eq)
    moreover have "0 \<le> \<lfloor>m\<rfloor>" "\<lfloor>m\<rfloor> < 256" using f assms(3,4) by linarith+
    ultimately show ?thesis by (simp add: unsigned_of_int take_bit_int_eq_self)
  qed
  ultimately show ?thesis using f by simp
qed

lemma to_raw_value_coordinates:
  assumes "to_raw_value c = Inr v"
  obtains x y where "dbl_to_u64 (xmean c) = Inr x" "packet_x \<lparr>raw_value = v\<rparr> = uint (x AND 0xFF)"
    "dbl_to_u64 (ymean c) = Inr y" "packet_y \<lparr>raw_value = v\<rparr> = uint (y AND 0xFF)"
proof -
  obtain x y t where v: "dbl_to_u64 (xmean c) = Inr x" "dbl_to_u64 (ymean c) = Inr y"
    "v = push_bit 56 (x AND 0xFF) OR push_bit 48 (y AND 0xFF) OR (t AND 0x3FFFFFFFFF)"
    using assms by (auto simp: to_raw_value_def and_then_eq_Inr)
  have "drop_bit 56 v AND 0xFF = x AND 0xFF"
    unfolding v(3) by (rule bit_word_eqI) (auto simp: bit_simps)
  moreover have "drop_bit 48 v AND 0xFF = y AND 0xFF"
    unfolding v(3) by (rule bit_word_eqI) (auto simp: bit_simps)
  ultimately show thesis using v that by (simp add: packet_x_def packet_y_def)
qed

text \<open>The position reported for a cluster built from \<open>ps\<close> is amid \<open>ps\<close>, inside its box.\<close>

definition amid :: "packet list \<Rightarrow> packet \<Rightarrow> bool" where
  "amid ps q \<longleftrightarrow> list_ex (\<lambda>p. packet_x p \<le> packet_x q) ps \<and> list_ex (\<lambda>p. packet_x q \<le> packet_x p) ps \<and>
     list_ex (\<lambda>p. packet_y p \<le> packet_y q) ps \<and> list_ex (\<lambda>p. packet_y q \<le> packet_y p) ps"

definition in_box :: "cluster \<Rightarrow> packet \<Rightarrow> bool" where
  "in_box c q \<longleftrightarrow> xmin c \<le> packet_x q \<and> packet_x q \<le> xmax c \<and> ymin c \<le> packet_y q \<and> packet_y q \<le> ymax c"

lemma Min_Max_packets:
  fixes f :: "packet \<Rightarrow> int"
  assumes "ps \<noteq> []" "\<And>p. 0 \<le> f p \<and> f p \<le> 255"
  shows "0 \<le> Min (f ` set ps)" "Max (f ` set ps) \<le> 255"
    "Min (f ` set ps) \<le> k \<Longrightarrow> list_ex (\<lambda>p. f p \<le> k) ps" "k \<le> Max (f ` set ps) \<Longrightarrow> list_ex (\<lambda>p. k \<le> f p) ps"
  using assms by (auto simp: Min_ge_iff Min_le_iff Max_le_iff Max_ge_iff list_ex_iff)

lemma built_position:
  assumes st: "settings_ok st" and c: "built st ps c" and w: "list_all (\<lambda>p. 0 < packet_tot p) ps" "weights ps \<le> weight_limit"
    and v: "to_raw_value c = Inr v"
  shows "amid ps \<lparr>raw_value = v\<rparr> \<and> in_box c \<lparr>raw_value = v\<rparr>"
proof -
  obtain x y where xy: "dbl_to_u64 (xmean c) = Inr x" "packet_x \<lparr>raw_value = v\<rparr> = uint (x AND 0xFF)"
    "dbl_to_u64 (ymean c) = Inr y" "packet_y \<lparr>raw_value = v\<rparr> = uint (y AND 0xFF)"
    using v by (rule to_raw_value_coordinates)
  note ne = built_nonempty [OF c]
  note X = Min_Max_packets [of ps packet_x, OF ne] and Y = Min_Max_packets [of ps packet_y, OF ne]
  note coordinate_of_mean [OF built_xmean [OF st c w] xy(1)] coordinate_of_mean [OF built_ymean [OF st c w] xy(3)]
  then have "amid ps \<lparr>raw_value = v\<rparr>" using X Y xy by (simp add: amid_def)
  moreover have "in_box c \<lparr>raw_value = v\<rparr>"
    using calculation built_box [OF st c] st by (fastforce simp: amid_def in_box_def list_ex_iff settings_ok_def)
  ultimately show ?thesis ..
qed

section \<open>Batches\<close>

text \<open>\<open>origin st Q c\<close>: the cluster is built from clicks of \<open>Q\<close>, whose weights it carries exactly.\<close>

definition origin :: "cluster_settings \<Rightarrow> packet set \<Rightarrow> cluster \<Rightarrow> bool" where
  "origin st Q c \<longleftrightarrow> (\<exists>ps. built st ps c \<and> set ps \<subseteq> Q \<and> weights ps = weight c)"

lemma origin_mono: "origin st Q c \<Longrightarrow> Q \<subseteq> R \<Longrightarrow> origin st R c"
  by (auto simp: origin_def)

lemma origin_new: "settings_ok st \<Longrightarrow> 0 < packet_tot p \<Longrightarrow> p \<in> Q \<Longrightarrow> origin st Q (new_cluster st p)"
  unfolding origin_def by (intro exI [of _ "[p]"]) (simp add: built.new sound_new)

lemma origin_click:
  assumes "origin st Q c" "p \<in> Q" "weight (add_click st c p) = weight c + packet_tot p"
  shows "origin st Q (add_click st c p)"
proof -
  from assms(1) obtain ps where "built st ps c" "set ps \<subseteq> Q" "weights ps = weight c" by (auto simp: origin_def)
  with assms(2,3) show ?thesis
    unfolding origin_def by (intro exI [of _ "ps @ [p]"]) (simp add: built.click)
qed

lemma origin_merge:
  assumes "origin st Q a" "origin st Q b" "weight (add_cluster a b) = weight a + weight b"
  shows "origin st Q (add_cluster a b)"
proof -
  from assms(1) obtain ps where "built st ps a" "set ps \<subseteq> Q" "weights ps = weight a" by (auto simp: origin_def)
  moreover from assms(2) obtain qs where "built st qs b" "set qs \<subseteq> Q" "weights qs = weight b" by (auto simp: origin_def)
  ultimately show ?thesis using assms(3)
    unfolding origin_def by (intro exI [of _ "ps @ qs"]) (simp add: built.merge)
qed

lemma absorb_origin:
  assumes st: "settings_ok st" "0 < packet_tot p" and cs: "all_sound s cs" "list_all (origin st Q) cs" "p \<in> Q"
    and lim: "s + 1023 * int (length cs) \<le> weight_limit"
  shows "list_all (origin st Q) (fst (absorb st p 0 None cs))"
proof -
  let ?I = "\<lambda>n ds. s + 1023 * int n \<le> weight_limit \<longrightarrow>
    all_sound (s + 1023 * int n) ds \<and> list_all (origin st Q) ds"
  have "?I (0 + (length cs - 0)) (fst (absorb st p 0 None cs))"
  proof (rule absorb_invariant [where I = ?I])
    fix n ds assume "?I n ds"
    then show "?I (Suc n) ds" by (auto elim!: all_sound_mono)
  next
    fix n ds i assume I: "?I n ds" "i < length ds"
    show "?I (Suc n) (ds[i := add_click st (ds ! i) p])"
    proof
      assume l: "s + 1023 * int (Suc n) \<le> weight_limit"
      then have ds: "all_sound (s + 1023 * int n) ds" "list_all (origin st Q) ds" using I by simp_all
      have c: "sound (ds ! i)" "origin st Q (ds ! i)" using ds I(2) by (simp_all add: all_sound_def list_all_length)
      have l': "s + 1023 * int n + 1023 \<le> weight_limit" using l by (simp add: algebra_simps)
      have "weight (ds ! i) \<le> total_weight ds"
        using ds I(2) by (intro weight_le_total) (simp_all add: all_sound_def)
      then have "weight (ds ! i) + packet_tot p \<le> weight_limit"
        using conjunct2 [OF ds(1) [unfolded all_sound_def]] l' packet_bounds(8) [of p] by linarith
      note w = sound_add_click(2) [OF st c(1) this]
      show "all_sound (s + 1023 * int (Suc n)) (ds[i := add_click st (ds ! i) p]) \<and>
          list_all (origin st Q) (ds[i := add_click st (ds ! i) p])"
        using all_sound_click [OF st ds(1) I(2)] l ds(2) origin_click [OF c(2) cs(3) w]
        by (simp add: algebra_simps list_all_update)
    qed
  next
    fix n ds i j assume I: "?I n ds" "j < i" "i < length ds"
    show "?I n (remove_at i (ds[j := add_cluster (ds ! j) (ds ! i)]))"
    proof
      assume l: "s + 1023 * int n \<le> weight_limit"
      then have ds: "all_sound (s + 1023 * int n) ds" "list_all (origin st Q) ds" using I by simp_all
      have c: "sound (ds ! i)" "sound (ds ! j)" "origin st Q (ds ! i)" "origin st Q (ds ! j)"
        using ds I(2,3) by (simp_all add: all_sound_def list_all_length)
      have "weight (ds ! j) + weight (ds ! i) \<le> weight_limit"
        using weights_le_total [of ds j i] I(2,3) ds(1) l by (simp add: all_sound_def)
      note w = sound_add_cluster(2) [OF c(2,1) this]
      show "all_sound (s + 1023 * int n) (remove_at i (ds[j := add_cluster (ds ! j) (ds ! i)])) \<and>
          list_all (origin st Q) (remove_at i (ds[j := add_cluster (ds ! j) (ds ! i)]))"
        using all_sound_merge [OF ds(1) I(2,3) l] ds(2) origin_merge [OF c(4,3) w] I(3)
        by (simp add: list_all_remove_at list_all_update)
    qed
  qed (use cs in \<open>simp_all add: last_ok_def\<close>)
  with lim show ?thesis by simp
qed

lemma place_origin:
  assumes "settings_ok st" "0 < packet_tot p" "wf_clusters s cs" "list_all (origin st Q) cs" "p \<in> Q"
    and "s + 1023 * (int (length cs) + 1) \<le> weight_limit"
  shows "list_all (origin st Q) (place st p cs)"
  using place_cases [of st p cs] assms absorb_origin [of st p s cs Q] origin_new [of st p Q]
  by (auto simp: wf_clusters_def)

text \<open>A reported value is the position of a cluster made of clicks of \<open>Q\<close>, amid them and in its box.\<close>

definition placed :: "cluster_settings \<Rightarrow> packet set \<Rightarrow> u64 \<Rightarrow> bool" where
  "placed st Q v \<longleftrightarrow> (\<exists>c ps. built st ps c \<and> set ps \<subseteq> Q \<and> to_raw_value c = Inr v \<and>
     amid ps \<lparr>raw_value = v\<rparr> \<and> in_box c \<lparr>raw_value = v\<rparr>)"

lemma origin_placed:
  assumes "settings_ok st" "origin st Q c" "\<forall>p \<in> Q. 0 < packet_tot p" "weight c \<le> weight_limit" "to_raw_value c = Inr v"
  shows "placed st Q v"
proof -
  from assms(2) obtain ps where ps: "built st ps c" "set ps \<subseteq> Q" "weights ps = weight c" by (auto simp: origin_def)
  then have "list_all (\<lambda>p. 0 < packet_tot p) ps" using assms(3) by (auto simp: list_all_iff)
  then show ?thesis
    using built_position [OF assms(1) ps(1) _ _ assms(5)] ps assms(4,5) unfolding placed_def by auto
qed

lemma map_result_set: "map_result f xs = Inr ys \<Longrightarrow> y \<in> set ys \<Longrightarrow> \<exists>x \<in> set xs. f x = Inr y"
  by (induction xs arbitrary: ys) (auto simp: and_then_eq_Inr)

lemma process_click_origin:
  assumes st: "settings_ok st" "\<forall>p \<in> Q. 0 < packet_tot p" and wf: "wf_clusters s cs" "list_all (origin st Q) cs" "p \<in> Q"
    and lim: "s + 1023 * (int (length cs) + 1) \<le> weight_limit"
    and r: "process_click st (cs, out) p = Inr (cs', out @ vs)"
  shows "list_all (origin st Q) cs' \<and> list_all (placed st Q) vs"
proof -
  let ?ds = "place st p cs"
  have tot: "0 < packet_tot p" using st(2) wf(3) by blast
  note o = place_origin [OF st(1) tot wf lim] and ds = place_wf [OF st(1) tot wf(1) lim]
  obtain cs1 vs1 where 1: "process_click st (cs, out) p = Inr (cs1, out @ vs1)"
    "mset cs1 = mset (filter (\<lambda>c. \<not> expired st p c) ?ds)"
    "map_result to_raw_value (rev (filter (expired st p) ?ds)) = Inr vs1"
    using process_click_wf [OF st(1) tot wf(1) lim, of out] by blast
  with r have eq: "cs1 = cs'" "vs1 = vs" by simp_all
  have "set cs' \<subseteq> set ?ds" using arg_cong [OF 1(2), of set_mset] eq by auto
  then have "list_all (origin st Q) cs'" using o by (auto simp: list_all_iff)
  moreover have "placed st Q v" if v: "v \<in> set vs" for v
  proof -
    obtain c where c: "c \<in> set ?ds" "to_raw_value c = Inr v"
      using map_result_set [OF 1(3), of v] v eq by auto
    have "weight c \<le> total_weight ?ds"
      using ds c(1) by (intro weight_le_total) (simp_all add: wf_clusters_def all_sound_def)
    then have "weight c \<le> weight_limit" using ds lim by (simp add: wf_clusters_def all_sound_def)
    with c o show ?thesis by (intro origin_placed [OF st(1) _ st(2)]) (auto simp: list_all_iff)
  qed
  ultimately show ?thesis by (simp add: list_all_iff)
qed

lemma process_clicks_placed:
  assumes st: "settings_ok st" "\<forall>p \<in> Q. 0 < packet_tot p"
  shows "set ps \<subseteq> Q \<Longrightarrow> wf_clusters s cs \<Longrightarrow> list_all (origin st Q) cs \<Longrightarrow>
    room s (length cs) (length ps) \<Longrightarrow>
    \<exists>cs' vs. process_clicks st (cs, out) ps = Inr (cs', out @ vs) \<and> list_all (origin st Q) cs' \<and> list_all (placed st Q) vs"
proof (induction ps arbitrary: s cs out)
  case (Cons p ps)
  have room: "room s (length cs) (1 + length ps)" using Cons.prems(4) by simp
  have lim: "s + 1023 * (int (length cs) + 1) \<le> weight_limit"
    using room_split(1) [OF room le_refl] by (simp add: room_def)
  have tot: "0 < packet_tot p" "p \<in> Q" using st(2) Cons.prems(1) by auto
  obtain cs1 vs1 where 1: "process_click st (cs, out) p = Inr (cs1, out @ vs1)"
    "wf_clusters (s + 1023 * (int (length cs) + 1)) cs1" "length cs1 + length vs1 \<le> Suc (length cs)"
    using process_click_wf [OF st(1) tot(1) Cons.prems(2) lim, of out] by blast
  note o = process_click_origin [OF st Cons.prems(2,3) tot(2) lim 1(1)]
  have "room (s + 1023 * (int (length cs) + 1)) (length cs1) (length ps)"
    using room_split(2) [OF room, of "length cs1"] 1(3) by simp
  then obtain cs' vs where "process_clicks st (cs1, out @ vs1) ps = Inr (cs', (out @ vs1) @ vs)"
    "list_all (origin st Q) cs'" "list_all (placed st Q) vs"
    using Cons.IH [OF _ 1(2) _, of "out @ vs1"] Cons.prems(1) o by auto
  with 1 o show ?case by (intro exI [of _ cs'] exI [of _ "vs1 @ vs"]) simp
qed simp

text \<open>C22. Clustering at most 185000 clicks of positive time over threshold, with settings in
  range, ends; and every value it reports is the position of a cluster built by the
  constructor, \<open>addClick\<close> and \<open>addCluster\<close> from some of these clicks.  Each coordinate of the
  position lies between the smallest and the largest coordinate of those clicks, and the
  position lies in the cluster's bounding box.\<close>

theorem reported_position_amid_clicks:
  assumes "settings_ok st" and "list_all (\<lambda>p. 0 < packet_tot p) ps" and "length ps \<le> 185000"
  shows "\<exists>cs vs. process_clicks st ([], []) ps = Inr (cs, vs) \<and>
    (\<forall>v \<in> set vs. \<exists>c qs. built st qs c \<and> set qs \<subseteq> set ps \<and> to_raw_value c = Inr v \<and>
       amid qs \<lparr>raw_value = v\<rparr> \<and> in_box c \<lparr>raw_value = v\<rparr>)"
proof -
  have "room 0 0 (length ps)"
  proof -
    have "int (length ps) * int (length ps) \<le> 185000 * 185000" using assms(3) by (intro mult_mono) simp_all
    then show ?thesis by (simp add: room_def weight_limit_def)
  qed
  then show ?thesis
    using process_clicks_placed [OF assms(1), of "set ps" ps 0 "[]" "[]"] assms(2)
    by (auto simp: list_all_iff placed_def)
qed

theorem reported_position_amid_clicks_witness:
  "\<exists>cs vs. process_clicks default_settings ([], [])
      [\<lparr>raw_value = 0x1020004000000064\<rparr>, \<lparr>raw_value = 0x1122004000000065\<rparr>, \<lparr>raw_value = 0x1020004000F00000\<rparr>] =
        Inr (cs, vs) \<and>
    (\<forall>v \<in> set vs. placed default_settings {\<lparr>raw_value = 0x1020004000000064\<rparr>,
      \<lparr>raw_value = 0x1122004000000065\<rparr>, \<lparr>raw_value = 0x1020004000F00000\<rparr>} v)"
proof -
  let ?ps = "[\<lparr>raw_value = 0x1020004000000064\<rparr>, \<lparr>raw_value = 0x1122004000000065\<rparr>, \<lparr>raw_value = 0x1020004000F00000\<rparr>]"
  have "list_all (\<lambda>p. 0 < packet_tot p) ?ps" "length ?ps \<le> 185000" by (simp_all add: packet_tot_def)
  from reported_position_amid_clicks [OF default_settings_ok this] show ?thesis by (simp add: placed_def)
qed

end
