(* ===== verification/Settings.thy ===== *)
theory Settings
  imports Server
begin

text \<open>
  \<open>SettingsPanel\<close> (src/ui/SettingsPanel.cpp): the fields of the panel, the settings they hold,
  and the loaders of configuration files.  The panel is Windows code, where
  \<open>unsigned long\<close> has 32 bits.  What the system reports as its adaptors, the view that the
  TOML library gives of a file, and the extraction of one value from a line are parameters.
\<close>

section \<open>\<open>std::stoul\<close>\<close>

datatype std_exn = Invalid_Argument | Out_Of_Range | Std_Runtime_Error string

definition is_space :: "char \<Rightarrow> bool" where
  "is_space c \<longleftrightarrow> c \<in> set [CHR '' '', CHR 0x09, CHR 0x0A, CHR 0x0B, CHR 0x0C, CHR 0x0D]"

definition is_digit :: "char \<Rightarrow> bool" where
  "is_digit c \<longleftrightarrow> 48 \<le> (of_char c :: nat) \<and> (of_char c :: nat) \<le> 57"

definition decimal :: "string \<Rightarrow> nat" where
  "decimal ds = foldl (\<lambda>n c. 10 * n + (of_char c - 48)) 0 ds"

text \<open>White space, a sign, digits; what follows the digits is ignored, and a minus sign wraps.\<close>

definition stoul :: "string \<Rightarrow> std_exn + u32" where
  "stoul s =
     (let s1 = dropWhile is_space s;
          (negative, s2) = (case s1 of
             [] \<Rightarrow> (False, [])
           | c # cs \<Rightarrow> if c = CHR ''-'' then (True, cs) else if c = CHR ''+'' then (False, cs) else (False, s1));
          digits = takeWhile is_digit s2;
          n = decimal digits
      in if digits = [] then Inl Invalid_Argument
         else if 2 ^ 32 \<le> n then Inl Out_Of_Range
         else Inr (if negative then - of_nat n else of_nat n))"

lemma of_char_digit: "n < 10 \<Longrightarrow> of_char (digit_char n) = 48 + n"
  by (simp add: digit_char_def)

lemma digit_is_digit: "n < 10 \<Longrightarrow> is_digit (digit_char n)"
  by (simp add: is_digit_def of_char_digit)

lemma show_digits: "list_all is_digit (show_base 10 n)"
proof (induction "10 :: nat" n rule: show_base.induct)
  case (1 n)
  then show ?case by (cases "n < 10") (simp_all add: show_base.simps [of 10 n] digit_is_digit)
qed

lemma decimal_append: "decimal (ds @ [c]) = 10 * decimal ds + (of_char c - 48)"
  by (simp add: decimal_def)

lemma decimal_show: "decimal (show_base 10 n) = n"
proof (induction "10 :: nat" n rule: show_base.induct)
  case (1 n)
  show ?case
  proof (cases "n < 10")
    case True
    then show ?thesis by (simp add: show_base.simps [of 10 n] decimal_def of_char_digit)
  next
    case False
    with 1 have "decimal (show_base 10 (n div 10)) = n div 10" by simp
    with False show ?thesis
      by (simp add: show_base.simps [of 10 n] decimal_append of_char_digit)
  qed
qed

lemma port_texts: "stoul ''0'' = Inr 0" "stoul ''50000'' = Inr 50000" "stoul ''48288'' = Inr 48288"
  by (simp_all add: stoul_def is_space_def is_digit_def decimal_def Let_def)

lemma show_not_empty: "show_base b n \<noteq> []"
  by (simp add: show_base.simps [of b n])

section \<open>The panel\<close>

text \<open>
  The editable part: the address list and its selection, three line edits, the check box, and
  whether the six of them take input (they are only switched together).
\<close>

record settings_panel =
  panel_rows :: "string list"
  host_ip_items :: "string list"
  host_ip_text :: string
  host_port_text :: string
  timepix_ip_text :: string
  timepix_port_text :: string
  outgoing_port_text :: string
  auto_restart :: bool
  panel_enabled :: bool

text \<open>The addresses of all adaptors that are neither empty nor \<open>0.0.0.0\<close>.\<close>

definition enumerate_ips_win32 :: "string list list option \<Rightarrow> string list" where
  "enumerate_ips_win32 adaptors =
     (case adaptors of
        None \<Rightarrow> []
      | Some ips \<Rightarrow>
          let addresses = concat ips
          in filter (\<lambda>addr. addr \<noteq> [] \<and> addr \<noteq> ''0.0.0.0'') addresses)"

text \<open>A combo box shows its first item after it has been filled, and nothing when empty.\<close>

definition updateIpList :: "string list list option \<Rightarrow> settings_panel \<Rightarrow> settings_panel" where
  "updateIpList adaptors p =
     (let ip_list = enumerate_ips_win32 adaptors
      in p\<lparr>host_ip_items := ip_list, host_ip_text := (case ip_list of [] \<Rightarrow> [] | ip # _ \<Rightarrow> ip)\<rparr>)"

definition new_settings_panel :: "string list list option \<Rightarrow> settings_panel" where
  "new_settings_panel adaptors =
     updateIpList adaptors
       \<lparr>panel_rows = [''Host IP Address:'', ''Host Port ('' @ [CHR 0x27] @ ''0'' @ [CHR 0x27] @ ''=Auto):'',
          ''Timepix IP Address:'', ''Timepix Port:'', ''Outgoing (Client) Port:'',
          ''Automatically Restart on Crash:''],
        host_ip_items = [], host_ip_text = [], host_port_text = ''0'', timepix_ip_text = ''192.168.100.10'',
        timepix_port_text = ''50000'', outgoing_port_text = ''48288'', auto_restart = False,
        panel_enabled = True\<rparr>"

definition setEnabled :: "bool \<Rightarrow> settings_panel \<Rightarrow> settings_panel" where
  "setEnabled enabled p = p\<lparr>panel_enabled := enabled\<rparr>"

definition autoRestartChecked :: "settings_panel \<Rightarrow> bool" where
  "autoRestartChecked p = auto_restart p"

definition getSettings :: "settings_panel \<Rightarrow> std_exn + comms_settings" where
  "getSettings p =
     and_then (stoul (host_port_text p)) (\<lambda>port1.
     and_then (stoul (timepix_port_text p)) (\<lambda>port2.
     and_then (stoul (outgoing_port_text p)) (\<lambda>port3.
       Inr \<lparr>host_ip = host_ip_text p, host_port = port1, timepix_ip = timepix_ip_text p,
            timepix_port = port2, outgoing_port = port3\<rparr>)))"

section \<open>Loading configuration files\<close>

text \<open>A node of a configuration table: absent, a value, an array, or another table.\<close>

datatype 'v toml_view = No_Node | Scalar 'v | Array "'v list" | Table

definition quoted :: "string \<Rightarrow> string" where
  "quoted s = [CHR 0x27] @ s @ [CHR 0x27]"

definition set_or_warn ::
  "('v \<Rightarrow> 'a option) \<Rightarrow> 'a \<Rightarrow> 'v toml_view \<Rightarrow> string \<Rightarrow> 'a \<times> log_entry list" where
  "set_or_warn conv val view name =
     (case view of
        Scalar v \<Rightarrow>
          (case conv v of
             Some x \<Rightarrow> (x, [])
           | None \<Rightarrow> (val, [Warn (''Config file has wrong type for '' @ quoted name @ ''; using default values.'')]))
      | _ \<Rightarrow> (val, [Warn (''Config file has no '' @ quoted name @ ''; using default values.'')]))"

text \<open>An element of the wrong type throws: the elements before it have been set (the flag).\<close>

fun assign_each :: "('v \<Rightarrow> 'a option) \<Rightarrow> 'a list \<Rightarrow> 'v list \<Rightarrow> 'a list \<times> bool" where
  "assign_each conv (x # xs) (v # vs) =
     (case conv v of
        None \<Rightarrow> (x # xs, True)
      | Some y \<Rightarrow> (let (ys, thrown) = assign_each conv xs vs in (y # ys, thrown)))"
| "assign_each conv xs vs = (xs, False)"

definition set_list_or_warn ::
  "('v \<Rightarrow> 'a option) \<Rightarrow> 'a list \<Rightarrow> 'v toml_view \<Rightarrow> string \<Rightarrow> ('a list \<times> bool) \<times> log_entry list" where
  "set_list_or_warn conv xs view name =
     (case view of
        Array vs \<Rightarrow>
          if length xs = length vs then (assign_each conv xs vs, [])
          else ((xs, False), [Warn (''Config file has the wrong number of elements for '' @ quoted name @
                 '' (expected '' @ to_string (int (length xs)) @ ''); using default values.'')])
      | _ \<Rightarrow> ((xs, False), [Warn (''Config file has no '' @ quoted name @ ''; using default values.'')]))"

text \<open>Lines as \<open>std::getline\<close> gives them: nothing after a final newline is not a line.\<close>

function getlines :: "string \<Rightarrow> string list" where
  "getlines s =
     (if s = [] then []
      else takeWhile (\<lambda>c. c \<noteq> CHR 0x0A) s # getlines (drop 1 (dropWhile (\<lambda>c. c \<noteq> CHR 0x0A) s)))"
  by pat_completeness auto
termination
proof (relation "measure length")
  fix s :: string assume "s \<noteq> []"
  moreover have "length (dropWhile (\<lambda>c. c \<noteq> CHR 0x0A) s) \<le> length s" by (rule length_dropWhile_le)
  ultimately show "(drop 1 (dropWhile (\<lambda>c. c \<noteq> CHR 0x0A) s), s) \<in> measure length"
    by (cases s) auto
qed simp

declare getlines.simps [simp del]

text \<open>The first \<open>n\<close> values of a line; \<open>scan\<close> is the stream's \<open>>>\<close>.\<close>

fun read_values :: "(string \<Rightarrow> ('a \<times> string) option) \<Rightarrow> nat \<Rightarrow> string \<Rightarrow> 'a list option" where
  "read_values scan 0 line = Some []"
| "read_values scan (Suc n) line =
     (case scan line of
        None \<Rightarrow> None
      | Some (val, rest) \<Rightarrow> map_option ((#) val) (read_values scan n rest))"

fun load_rows ::
  "(string \<Rightarrow> ('a \<times> string) option) \<Rightarrow> nat \<Rightarrow> string list \<Rightarrow> 'a list \<Rightarrow> (nat \<times> 'a list) option" where
  "load_rows scan row [] data = Some (row, data)"
| "load_rows scan row (line # lines) data =
     (if row < 256
      then case read_values scan 256 line of
             None \<Rightarrow> None
           | Some vals \<Rightarrow> load_rows scan (row + 1) lines (data @ vals)
      else Some (row, data))"

definition wrong_size :: "string \<Rightarrow> log_entry" where
  "wrong_size fname = Warn (''Pixel data at '' @ quoted fname @
     '' has the wrong number of elements; expected a 256x256 array.'')"

definition load_array_or_warn ::
  "(string \<Rightarrow> ('a \<times> string) option) \<Rightarrow> 'a list \<Rightarrow> string option \<Rightarrow> string \<Rightarrow> 'a list \<times> log_entry list" where
  "load_array_or_warn scan mat file_text fname =
     (case file_text of
        None \<Rightarrow> (mat, [Warn (''Unable to open pixel data file at '' @ quoted fname)])
      | Some text \<Rightarrow>
          (case load_rows scan 0 (getlines text) [] of
             None \<Rightarrow> (mat, [wrong_size fname])
           | Some (row, data) \<Rightarrow> if row \<noteq> 256 then (mat, [wrong_size fname]) else (data, [])))"

section \<open>Lemmas\<close>

text \<open>\<open>scans scan line vs\<close>: the stream gives the values \<open>vs\<close> one after the other from \<open>line\<close>.\<close>

inductive scans :: "(string \<Rightarrow> ('a \<times> string) option) \<Rightarrow> string \<Rightarrow> 'a list \<Rightarrow> bool" for scan where
  none: "scans scan line []"
| more: "scan line = Some (v, rest) \<Longrightarrow> scans scan rest vs \<Longrightarrow> scans scan line (v # vs)"

inductive_simps scans_Cons [simp]: "scans scan line (v # vs)"
declare scans.none [simp]

lemma read_values_scans: "read_values scan n line = Some vs \<longleftrightarrow> length vs = n \<and> scans scan line vs"
proof (induction n arbitrary: line vs)
  case (Suc n)
  then show ?case by (cases vs) (auto split: option.splits)
qed auto

text \<open>The rows of an array: the first 256 values of each of the first 256 lines.\<close>

definition array_rows :: "(string \<Rightarrow> ('a \<times> string) option) \<Rightarrow> string list \<Rightarrow> 'a list list \<Rightarrow> bool" where
  "array_rows scan lines rows \<longleftrightarrow> length rows = 256 \<and> 256 \<le> length lines \<and>
     list_all2 (\<lambda>line row. length row = 256 \<and> scans scan line row) (take 256 lines) rows"

lemma load_rows_spec:
  assumes "row \<le> 256"
  shows "load_rows scan row lines data =
    (case map_result (\<lambda>line. case read_values scan 256 line of None \<Rightarrow> Inl () | Some vs \<Rightarrow> Inr vs)
       (take (256 - row) lines) of
       Inl _ \<Rightarrow> None
     | Inr rows \<Rightarrow> Some (row + length rows, data @ concat rows))"
  using assms
proof (induction lines arbitrary: row data)
  case (Cons line lines)
  show ?case
  proof (cases "row < 256")
    case True
    then have "256 - row = Suc (255 - row)" by simp
    with True Cons.IH [of "row + 1"] show ?thesis
      by (auto simp: and_then_def split: option.splits sum.splits)
  qed (use Cons.prems in simp)
qed simp

lemma rows_scanned:
  "map_result (\<lambda>line. case read_values scan n line of None \<Rightarrow> Inl () | Some vs \<Rightarrow> Inr vs) ls = Inr rows \<longleftrightarrow>
     list_all2 (\<lambda>line row. length row = n \<and> scans scan line row) ls rows"
proof (induction ls arbitrary: rows)
  case (Cons l ls)
  then show ?case
    by (cases rows) (auto simp: and_then_eq_Inr read_values_scans [symmetric] split: option.splits)
qed auto

lemma load_rows_array:
  "load_rows scan 0 lines [] = Some (256, data) \<longleftrightarrow> (\<exists>rows. array_rows scan lines rows \<and> data = concat rows)"
proof -
  let ?r = "map_result (\<lambda>line. case read_values scan 256 line of None \<Rightarrow> Inl () | Some vs \<Rightarrow> Inr vs) (take 256 lines)"
  have "load_rows scan 0 lines [] = Some (256, data) \<longleftrightarrow> (\<exists>rows. ?r = Inr rows \<and> length rows = 256 \<and> data = concat rows)"
    using load_rows_spec [of 0 scan lines "[]"] by (auto split: sum.splits)
  also have "\<dots> \<longleftrightarrow> (\<exists>rows. array_rows scan lines rows \<and> data = concat rows)"
  proof -
    have "256 \<le> length lines" if "list_all2 P (take 256 lines) rows" "length rows = 256" for P and rows :: "'a list list"
      using list_all2_lengthD [OF that(1)] that(2) by simp
    then show ?thesis unfolding rows_scanned array_rows_def by blast
  qed
  finally show ?thesis .
qed

lemma getlines_lines:
  "list_all (\<lambda>l. CHR 0x0A \<notin> set l) ls \<Longrightarrow> getlines (concat (map (\<lambda>l. l @ [CHR 0x0A]) ls)) = ls"
proof (induction ls)
  case (Cons l ls)
  then have no: "\<forall>c \<in> set l. c \<noteq> CHR 0x0A" by auto
  have "getlines (l @ CHR 0x0A # rest) = l # getlines rest" for rest
    using no by (subst getlines.simps) (simp add: takeWhile_append dropWhile_append)
  with Cons show ?case by simp
qed (simp add: getlines.simps)

section \<open>Properties\<close>

text \<open>C40. A pixel file sets the array to the first 256 values of each of its first 256 lines,
  row by row and without a warning, if there are as many lines and values that can be read;
  otherwise, also when it cannot be opened, the array stays as it was and exactly one warning is
  logged.  Lines and values beyond the 256th are ignored without a warning.\<close>

theorem pixel_file_loaded:
  "if \<exists>text rows. file_text = Some text \<and> array_rows scan (getlines text) rows
   then \<exists>text rows. file_text = Some text \<and> array_rows scan (getlines text) rows \<and>
     load_array_or_warn scan mat file_text fname = (concat rows, [])
   else \<exists>w. load_array_or_warn scan mat file_text fname = (mat, [Warn w])"
proof (cases file_text)
  case None
  then show ?thesis by (simp add: load_array_or_warn_def)
next
  case (Some content)
  show ?thesis
  proof (cases "\<exists>rows. array_rows scan (getlines content) rows")
    case True
    then obtain rows where rows: "array_rows scan (getlines content) rows" by blast
    then have "load_rows scan 0 (getlines content) [] = Some (256, concat rows)" using load_rows_array by blast
    with Some rows show ?thesis by (auto simp: load_array_or_warn_def)
  next
    case False
    then have "load_rows scan 0 (getlines content) [] \<noteq> Some (256, data)" for data using load_rows_array by blast
    with Some False show ?thesis
      by (auto simp: load_array_or_warn_def wrong_size_def split: option.splits)
  qed
qed

text \<open>A file of 257 lines of 300 letters, of which the array takes 256 by 256.\<close>

definition letter_file :: string where
  "letter_file = concat (map (\<lambda>l. l @ [CHR 0x0A]) (replicate 257 (replicate 300 CHR ''a'')))"

definition scan_letter :: "string \<Rightarrow> (char \<times> string) option" where
  "scan_letter s = (case s of [] \<Rightarrow> None | c # cs \<Rightarrow> Some (c, cs))"

lemma scans_letters: "length vs \<le> k \<Longrightarrow> scans scan_letter (replicate k c) vs \<longleftrightarrow> vs = replicate (length vs) c"
proof (induction vs arbitrary: k)
  case (Cons v vs)
  then show ?case by (cases k) (auto simp: scan_letter_def)
qed simp

lemma rows_of_letters:
  assumes "n \<le> k"
  shows "list_all2 (\<lambda>line row. length row = n \<and> scans scan_letter line row) (replicate m (replicate k c)) rows \<longleftrightarrow>
    rows = replicate m (replicate n c)"
proof (induction m arbitrary: rows)
  case (Suc m)
  then show ?case using assms scans_letters [of _ k c] by (cases rows) auto
qed simp

theorem pixel_file_loaded_witness:
  "load_array_or_warn scan_letter [] (Some letter_file) ''mask.txt'' =
     (concat (replicate 256 (replicate 256 CHR ''a'')), [])"
proof -
  have l: "getlines letter_file = replicate 257 (replicate 300 CHR ''a'')"
    unfolding letter_file_def by (rule getlines_lines) (simp only: list_all_iff set_replicate_conv_if, simp)
  have t: "take 256 (replicate 257 x) = replicate 256 x" "length (replicate n x) = n" for x :: string and n
    by (simp_all only: take_replicate length_replicate) simp
  have r: "array_rows scan_letter (getlines letter_file) rows \<longleftrightarrow> rows = replicate 256 (replicate 256 CHR ''a'')" for rows
    unfolding array_rows_def l t
    using rows_of_letters [of 256 300 256 "CHR ''a''" rows] by (auto simp only: length_replicate)
  then have "\<exists>text rows. Some letter_file = Some text \<and> array_rows scan_letter (getlines text) rows" by blast
  from pixel_file_loaded [of "Some letter_file" scan_letter "[]" "''mask.txt''", unfolded if_P [OF this]] r
  show ?thesis by auto
qed

text \<open>A port number written in decimal is read back as itself up to \<open>2 ^ 32 - 1\<close>; above that,
  and for a text without digits, reading the settings throws.\<close>

theorem port_text_roundtrip:
  "stoul (to_string (int n)) = (if n < 2 ^ 32 then Inr (of_nat n) else Inl Out_Of_Range)"
proof -
  let ?ds = "show_base 10 n"
  have d: "takeWhile is_digit ?ds = ?ds" using show_digits [of n] by (simp add: list_all_iff takeWhile_eq_all_conv)
  obtain c cs where c: "?ds = c # cs" using show_not_empty [of 10 n] by (cases ?ds) auto
  then have "is_digit c" using show_digits [of n] by simp
  then have "\<not> is_space c" "c \<noteq> CHR ''-''" "c \<noteq> CHR ''+''" by (auto simp: is_digit_def is_space_def)
  then show ?thesis using d c decimal_show [of n]
    by (simp add: stoul_def to_string_def Let_def show_not_empty)
qed

end
