(* ===== verification/Addresses.thy ===== *)
theory Addresses
  imports Settings ByteOrder
begin

text \<open>
  The part of the vendored asio library that turns the configured addresses and ports into
  socket endpoints (asio/ip/impl/address_v4.ipp, address_v6.ipp, address.ipp and
  asio/ip/detail/impl/endpoint.ipp), as the two connection managers use it.  Addresses are
  kept as memory holds them, so the host's byte order is an argument.  The operating
  system's \<open>inet_pton\<close> and \<open>inet_ntop\<close> are a parameter, with the library's own portable
  version in \<open>PortableAddress\<close>.
\<close>

section \<open>Byte order of the socket operations\<close>

text \<open>The portable branch, byte by byte.\<close>

definition network_to_host_long :: "endian \<Rightarrow> u32 \<Rightarrow> u32" where
  "network_to_host_long e value =
     (let value_p = store e 4 value
      in push_bit 24 (ucast (value_p ! 0)) OR push_bit 16 (ucast (value_p ! 1)) OR
         push_bit 8 (ucast (value_p ! 2)) OR ucast (value_p ! 3))"

definition host_to_network_long :: "endian \<Rightarrow> u32 \<Rightarrow> u32" where
  "host_to_network_long e value =
     load e [ucast (drop_bit 24 value AND 0xFF), ucast (drop_bit 16 value AND 0xFF),
             ucast (drop_bit 8 value AND 0xFF), ucast (value AND 0xFF)]"

definition network_to_host_short :: "endian \<Rightarrow> u16 \<Rightarrow> u16" where
  "network_to_host_short e value =
     (let value_p = store e 2 value in push_bit 8 (ucast (value_p ! 0)) OR ucast (value_p ! 1))"

definition host_to_network_short :: "endian \<Rightarrow> u16 \<Rightarrow> u16" where
  "host_to_network_short e value =
     load e [ucast (drop_bit 8 value AND 0xFF), ucast (value AND 0xFF)]"

section \<open>IPv4 addresses\<close>

record address_v4 =
  s_addr :: u32

definition v4_default :: address_v4 where
  "v4_default = \<lparr>s_addr = 0\<rparr>"

definition v4_of_bytes :: "endian \<Rightarrow> bytes \<Rightarrow> address_v4" where
  "v4_of_bytes e bs = \<lparr>s_addr = load e bs\<rparr>"

definition v4_of_uint :: "endian \<Rightarrow> u32 \<Rightarrow> address_v4" where
  "v4_of_uint e addr = \<lparr>s_addr = host_to_network_long e addr\<rparr>"

definition v4_to_bytes :: "endian \<Rightarrow> address_v4 \<Rightarrow> bytes" where
  "v4_to_bytes e a = store e 4 (s_addr a)"

definition v4_to_uint :: "endian \<Rightarrow> address_v4 \<Rightarrow> u32" where
  "v4_to_uint e a = network_to_host_long e (s_addr a)"

definition v4_is_loopback :: "endian \<Rightarrow> address_v4 \<Rightarrow> bool" where
  "v4_is_loopback e a \<longleftrightarrow> v4_to_uint e a AND 0xFF000000 = 0x7F000000"

definition v4_is_unspecified :: "endian \<Rightarrow> address_v4 \<Rightarrow> bool" where
  "v4_is_unspecified e a \<longleftrightarrow> v4_to_uint e a = 0"

definition is_class_a :: "endian \<Rightarrow> address_v4 \<Rightarrow> bool" where
  "is_class_a e a \<longleftrightarrow> v4_to_uint e a AND 0x80000000 = 0"

definition is_class_b :: "endian \<Rightarrow> address_v4 \<Rightarrow> bool" where
  "is_class_b e a \<longleftrightarrow> v4_to_uint e a AND 0xC0000000 = 0x80000000"

definition is_class_c :: "endian \<Rightarrow> address_v4 \<Rightarrow> bool" where
  "is_class_c e a \<longleftrightarrow> v4_to_uint e a AND 0xE0000000 = 0xC0000000"

definition v4_is_multicast :: "endian \<Rightarrow> address_v4 \<Rightarrow> bool" where
  "v4_is_multicast e a \<longleftrightarrow> v4_to_uint e a AND 0xF0000000 = 0xE0000000"

definition v4_broadcast :: "endian \<Rightarrow> address_v4 \<Rightarrow> address_v4 \<Rightarrow> address_v4" where
  "v4_broadcast e addr mask_addr = v4_of_uint e (v4_to_uint e addr OR (v4_to_uint e mask_addr XOR 0xFFFFFFFF))"

definition v4_netmask :: "endian \<Rightarrow> address_v4 \<Rightarrow> address_v4" where
  "v4_netmask e addr =
     (if is_class_a e addr then v4_of_uint e 0xFF000000
      else if is_class_b e addr then v4_of_uint e 0xFFFF0000
      else if is_class_c e addr then v4_of_uint e 0xFFFFFF00
      else v4_of_uint e 0xFFFFFFFF)"

section \<open>IPv6 addresses\<close>

record address_v6 =
  s6_addr :: bytes
  scope_id :: u32

definition v6_default :: address_v6 where
  "v6_default = \<lparr>s6_addr = replicate 16 0, scope_id = 0\<rparr>"

definition v6_of_bytes :: "bytes \<Rightarrow> u32 \<Rightarrow> address_v6" where
  "v6_of_bytes bs scope = \<lparr>s6_addr = take 16 bs, scope_id = scope\<rparr>"

definition v6_to_bytes :: "address_v6 \<Rightarrow> bytes" where
  "v6_to_bytes a = take 16 (s6_addr a)"

definition zero_upto :: "nat \<Rightarrow> address_v6 \<Rightarrow> bool" where
  "zero_upto n a \<longleftrightarrow> list_all (\<lambda>i. s6_addr a ! i = 0) [0..<n]"

definition v6_is_loopback :: "address_v6 \<Rightarrow> bool" where
  "v6_is_loopback a \<longleftrightarrow> zero_upto 15 a \<and> s6_addr a ! 15 = 1"

definition v6_is_unspecified :: "address_v6 \<Rightarrow> bool" where
  "v6_is_unspecified a \<longleftrightarrow> zero_upto 16 a"

definition is_link_local :: "address_v6 \<Rightarrow> bool" where
  "is_link_local a \<longleftrightarrow> s6_addr a ! 0 = 0xfe \<and> s6_addr a ! 1 AND 0xc0 = 0x80"

definition is_site_local :: "address_v6 \<Rightarrow> bool" where
  "is_site_local a \<longleftrightarrow> s6_addr a ! 0 = 0xfe \<and> s6_addr a ! 1 AND 0xc0 = 0xc0"

definition is_v4_mapped :: "address_v6 \<Rightarrow> bool" where
  "is_v4_mapped a \<longleftrightarrow> zero_upto 10 a \<and> s6_addr a ! 10 = 0xff \<and> s6_addr a ! 11 = 0xff"

definition is_v4_compatible :: "address_v6 \<Rightarrow> bool" where
  "is_v4_compatible a \<longleftrightarrow> zero_upto 12 a \<and>
     \<not> (s6_addr a ! 12 = 0 \<and> s6_addr a ! 13 = 0 \<and> s6_addr a ! 14 = 0 \<and>
        (s6_addr a ! 15 = 0 \<or> s6_addr a ! 15 = 1))"

definition v6_is_multicast :: "address_v6 \<Rightarrow> bool" where
  "v6_is_multicast a \<longleftrightarrow> s6_addr a ! 0 = 0xff"

text \<open>The five multicast scopes differ in the low half of the second byte.\<close>

definition multicast_scope :: "u8 \<Rightarrow> address_v6 \<Rightarrow> bool" where
  "multicast_scope s a \<longleftrightarrow> s6_addr a ! 0 = 0xff \<and> s6_addr a ! 1 AND 0x0f = s"

definition is_multicast_global :: "address_v6 \<Rightarrow> bool" where
  "is_multicast_global a \<longleftrightarrow> multicast_scope 0x0e a"

definition is_multicast_link_local :: "address_v6 \<Rightarrow> bool" where
  "is_multicast_link_local a \<longleftrightarrow> multicast_scope 0x02 a"

definition is_multicast_node_local :: "address_v6 \<Rightarrow> bool" where
  "is_multicast_node_local a \<longleftrightarrow> multicast_scope 0x01 a"

definition is_multicast_org_local :: "address_v6 \<Rightarrow> bool" where
  "is_multicast_org_local a \<longleftrightarrow> multicast_scope 0x08 a"

definition is_multicast_site_local :: "address_v6 \<Rightarrow> bool" where
  "is_multicast_site_local a \<longleftrightarrow> multicast_scope 0x05 a"

definition v6_loopback :: address_v6 where
  "v6_loopback = v6_default\<lparr>s6_addr := (s6_addr v6_default)[15 := 1]\<rparr>"

definition v4_mapped :: "endian \<Rightarrow> address_v4 \<Rightarrow> address_v6" where
  "v4_mapped e addr = v6_of_bytes (replicate 10 0 @ [0xFF, 0xFF] @ v4_to_bytes e addr) 0"

definition v4_compatible :: "endian \<Rightarrow> address_v4 \<Rightarrow> address_v6" where
  "v4_compatible e addr = v6_of_bytes (replicate 12 0 @ v4_to_bytes e addr) 0"

text \<open>\<open>None\<close> is the exception \<open>bad_address_cast\<close>.\<close>

definition v6_to_v4 :: "endian \<Rightarrow> address_v6 \<Rightarrow> address_v4 option" where
  "v6_to_v4 e a =
     (if \<not> is_v4_mapped a \<and> \<not> is_v4_compatible a then None
      else Some (v4_of_bytes e [s6_addr a ! 12, s6_addr a ! 13, s6_addr a ! 14, s6_addr a ! 15]))"

definition make_v4_of_mapped :: "endian \<Rightarrow> address_v6 \<Rightarrow> address_v4 option" where
  "make_v4_of_mapped e a =
     (if \<not> is_v4_mapped a then None
      else let v6_bytes = v6_to_bytes a
           in Some (v4_of_bytes e [v6_bytes ! 12, v6_bytes ! 13, v6_bytes ! 14, v6_bytes ! 15]))"

definition make_v6_of_v4 :: "endian \<Rightarrow> address_v4 \<Rightarrow> address_v6" where
  "make_v6_of_v4 e v4_addr =
     (let v4_bytes = v4_to_bytes e v4_addr
      in v6_of_bytes (replicate 10 0 @ [0xFF, 0xFF, v4_bytes ! 0, v4_bytes ! 1, v4_bytes ! 2, v4_bytes ! 3]) 0)"

text \<open>\<open>memcmp\<close>, by the first byte that differs.\<close>

fun memcmp :: "bytes \<Rightarrow> bytes \<Rightarrow> int" where
  "memcmp (x # xs) (y # ys) = (if x = y then memcmp xs ys else if x < y then -1 else 1)"
| "memcmp _ _ = 0"

definition v6_eq :: "address_v6 \<Rightarrow> address_v6 \<Rightarrow> bool" where
  "v6_eq a1 a2 \<longleftrightarrow> memcmp (s6_addr a1) (s6_addr a2) = 0 \<and> scope_id a1 = scope_id a2"

definition v6_less :: "address_v6 \<Rightarrow> address_v6 \<Rightarrow> bool" where
  "v6_less a1 a2 =
     (let memcmp_result = memcmp (s6_addr a1) (s6_addr a2)
      in if memcmp_result < 0 then True
         else if 0 < memcmp_result then False
         else scope_id a1 < scope_id a2)"

section \<open>Addresses of either family\<close>

datatype ip_family = IPv4 | IPv6

record address =
  addr_type :: ip_family
  ipv4_address :: address_v4
  ipv6_address :: address_v6

definition address_default :: address where
  "address_default = \<lparr>addr_type = IPv4, ipv4_address = v4_default, ipv6_address = v6_default\<rparr>"

definition address_of_v4 :: "address_v4 \<Rightarrow> address" where
  "address_of_v4 a = \<lparr>addr_type = IPv4, ipv4_address = a, ipv6_address = v6_default\<rparr>"

definition address_of_v6 :: "address_v6 \<Rightarrow> address" where
  "address_of_v6 a = \<lparr>addr_type = IPv6, ipv4_address = v4_default, ipv6_address = a\<rparr>"

definition to_v4 :: "address \<Rightarrow> address_v4 option" where
  "to_v4 a = (if addr_type a \<noteq> IPv4 then None else Some (ipv4_address a))"

definition to_v6 :: "address \<Rightarrow> address_v6 option" where
  "to_v6 a = (if addr_type a \<noteq> IPv6 then None else Some (ipv6_address a))"

definition is_loopback :: "endian \<Rightarrow> address \<Rightarrow> bool" where
  "is_loopback e a =
     (if addr_type a = IPv4 then v4_is_loopback e (ipv4_address a) else v6_is_loopback (ipv6_address a))"

definition is_unspecified :: "endian \<Rightarrow> address \<Rightarrow> bool" where
  "is_unspecified e a =
     (if addr_type a = IPv4 then v4_is_unspecified e (ipv4_address a) else v6_is_unspecified (ipv6_address a))"

definition is_multicast :: "endian \<Rightarrow> address \<Rightarrow> bool" where
  "is_multicast e a =
     (if addr_type a = IPv4 then v4_is_multicast e (ipv4_address a) else v6_is_multicast (ipv6_address a))"

definition address_eq :: "address \<Rightarrow> address \<Rightarrow> bool" where
  "address_eq a1 a2 =
     (if addr_type a1 \<noteq> addr_type a2 then False
      else if addr_type a1 = IPv6 then v6_eq (ipv6_address a1) (ipv6_address a2)
      else ipv4_address a1 = ipv4_address a2)"

definition address_less :: "endian \<Rightarrow> address \<Rightarrow> address \<Rightarrow> bool" where
  "address_less e a1 a2 =
     (if addr_type a1 = IPv4 \<and> addr_type a2 = IPv6 then True
      else if addr_type a1 = IPv6 \<and> addr_type a2 = IPv4 then False
      else if addr_type a1 = IPv6 then v6_less (ipv6_address a1) (ipv6_address a2)
      else v4_to_uint e (ipv4_address a1) < v4_to_uint e (ipv4_address a2))"

text \<open>
  What the operating system makes of a text, and of an address: \<open>None\<close> is an error.  The
  texts passed to it end at the first zero byte.
\<close>

record os_addresses =
  pton4 :: "string \<Rightarrow> bytes option"
  pton6 :: "string \<Rightarrow> (bytes \<times> u32) option"
  ntop4 :: "bytes \<Rightarrow> string option"
  ntop6 :: "bytes \<Rightarrow> u32 \<Rightarrow> string option"

definition c_str :: "string \<Rightarrow> string" where
  "c_str s = takeWhile (\<lambda>c. c \<noteq> CHR 0x00) s"

definition make_address_v4 :: "os_addresses \<Rightarrow> endian \<Rightarrow> string \<Rightarrow> address_v4 option" where
  "make_address_v4 os e s = map_option (v4_of_bytes e) (pton4 os (c_str s))"

definition make_address_v6 :: "os_addresses \<Rightarrow> string \<Rightarrow> address_v6 option" where
  "make_address_v6 os s = map_option (\<lambda>(bs, scope). v6_of_bytes bs scope) (pton6 os (c_str s))"

text \<open>An IPv6 address if the text is one, and else an IPv4 address; \<open>None\<close> throws.\<close>

definition make_address :: "os_addresses \<Rightarrow> endian \<Rightarrow> string \<Rightarrow> address option" where
  "make_address os e s =
     (case make_address_v6 os s of
        Some a6 \<Rightarrow> Some (address_of_v6 a6)
      | None \<Rightarrow>
          (case make_address_v4 os e s of
             Some a4 \<Rightarrow> Some (address_of_v4 a4)
           | None \<Rightarrow> None))"

definition v4_to_string :: "os_addresses \<Rightarrow> endian \<Rightarrow> address_v4 \<Rightarrow> string option" where
  "v4_to_string os e a = ntop4 os (v4_to_bytes e a)"

definition v6_to_string :: "os_addresses \<Rightarrow> address_v6 \<Rightarrow> string option" where
  "v6_to_string os a = ntop6 os (v6_to_bytes a) (scope_id a)"

definition address_to_string :: "os_addresses \<Rightarrow> endian \<Rightarrow> address \<Rightarrow> string option" where
  "address_to_string os e a =
     (if addr_type a = IPv6 then v6_to_string os (ipv6_address a) else v4_to_string os e (ipv4_address a))"

section \<open>Endpoints\<close>

text \<open>The union of the native socket addresses; ports and IPv4 addresses in network order.\<close>

datatype endpoint =
    Sockaddr_In (sin_port: u16) (sin_addr: u32)
  | Sockaddr_In6 (sin6_port: u16) (sin6_flowinfo: u32) (sin6_addr: bytes) (sin6_scope_id: u32)

definition endpoint_default :: endpoint where
  "endpoint_default = Sockaddr_In 0 0"

definition endpoint_any :: "endian \<Rightarrow> ip_family \<Rightarrow> u16 \<Rightarrow> endpoint" where
  "endpoint_any e family port_num =
     (if family = IPv4 then Sockaddr_In (host_to_network_short e port_num) 0
      else Sockaddr_In6 (host_to_network_short e port_num) 0 (replicate 16 0) 0)"

definition endpoint_of :: "endian \<Rightarrow> address \<Rightarrow> u16 \<Rightarrow> endpoint" where
  "endpoint_of e addr port_num =
     (if addr_type addr = IPv4
      then Sockaddr_In (host_to_network_short e port_num)
             (host_to_network_long e (v4_to_uint e (ipv4_address addr)))
      else let v6_addr = ipv6_address addr
           in Sockaddr_In6 (host_to_network_short e port_num) 0 (v6_to_bytes v6_addr) (scope_id v6_addr))"

definition endpoint_port :: "endian \<Rightarrow> endpoint \<Rightarrow> u16" where
  "endpoint_port e ep =
     (case ep of
        Sockaddr_In port addr \<Rightarrow> network_to_host_short e port
      | Sockaddr_In6 port flow addr scope \<Rightarrow> network_to_host_short e port)"

definition endpoint_set_port :: "endian \<Rightarrow> u16 \<Rightarrow> endpoint \<Rightarrow> endpoint" where
  "endpoint_set_port e port_num ep =
     (case ep of
        Sockaddr_In port addr \<Rightarrow> Sockaddr_In (host_to_network_short e port_num) addr
      | Sockaddr_In6 port flow addr scope \<Rightarrow> Sockaddr_In6 (host_to_network_short e port_num) flow addr scope)"

definition endpoint_address :: "endian \<Rightarrow> endpoint \<Rightarrow> address" where
  "endpoint_address e ep =
     (case ep of
        Sockaddr_In port addr \<Rightarrow> address_of_v4 (v4_of_uint e (network_to_host_long e addr))
      | Sockaddr_In6 port flow addr scope \<Rightarrow> address_of_v6 (v6_of_bytes addr scope))"

definition endpoint_set_address :: "endian \<Rightarrow> address \<Rightarrow> endpoint \<Rightarrow> endpoint" where
  "endpoint_set_address e addr ep = endpoint_of e addr (endpoint_port e ep)"

definition endpoint_eq :: "endian \<Rightarrow> endpoint \<Rightarrow> endpoint \<Rightarrow> bool" where
  "endpoint_eq e e1 e2 \<longleftrightarrow>
     address_eq (endpoint_address e e1) (endpoint_address e e2) \<and> endpoint_port e e1 = endpoint_port e e2"

definition endpoint_less :: "endian \<Rightarrow> endpoint \<Rightarrow> endpoint \<Rightarrow> bool" where
  "endpoint_less e e1 e2 =
     (if address_less e (endpoint_address e e1) (endpoint_address e e2) then True
      else if \<not> address_eq (endpoint_address e e1) (endpoint_address e e2) then False
      else endpoint_port e e1 < endpoint_port e e2)"

definition endpoint_to_string :: "os_addresses \<Rightarrow> endian \<Rightarrow> endpoint \<Rightarrow> string option" where
  "endpoint_to_string os e ep =
     map_option (\<lambda>a. (case ep of Sockaddr_In p b \<Rightarrow> a | Sockaddr_In6 p f b sc \<Rightarrow> ''['' @ a @ '']'') @
         '':'' @ to_string (uint (endpoint_port e ep)))
       (address_to_string os e (endpoint_address e ep))"

text \<open>
  The endpoint a manager binds or connects to.  The port passes through an \<open>int\<close> and is cut
  to the 16 bits of \<open>port_type\<close>; \<open>None\<close> is the exception of \<open>from_string\<close>.
\<close>

definition tpx_endpoint :: "os_addresses \<Rightarrow> endian \<Rightarrow> string \<Rightarrow> u32 \<Rightarrow> endpoint option" where
  "tpx_endpoint os e ip port = map_option (\<lambda>addr. endpoint_of e addr (ucast port)) (make_address os e ip)"

section \<open>Lemmas\<close>

text \<open>The two portable conversions are the ones the program's own code is stated with.\<close>

lemma low_byte: "(ucast (v AND 0xFF) :: u8) = ucast (v :: 'a::len word)"
proof (rule bit_word_eqI)
  fix n assume "n < LENGTH(8)"
  then have "bit (255 :: 'a word) n \<or> LENGTH('a) \<le> n"
    using mask_eq_exp_minus_1 [of 8, where ?'a = "'a word"] bit_mask_iff [of 8 n, where ?'a = "'a word"]
    by (auto simp: not_le)
  then show "bit (ucast (v AND 0xFF) :: u8) n = bit (ucast v :: u8) n"
    by (auto simp: bit_simps dest: bit_imp_le_length)
qed

lemma to_be_4:
  "to_be 4 (w :: u32) =
     [ucast (drop_bit 24 w AND 0xFF), ucast (drop_bit 16 w AND 0xFF), ucast (drop_bit 8 w AND 0xFF),
      ucast (w AND 0xFF)]"
proof -
  have "[0..<4 :: nat] = [0, 1, 2, 3]" by (simp add: upt_rec)
  then show ?thesis by (simp add: to_be_def to_le_def low_byte)
qed

lemma to_be_2: "to_be 2 (w :: u16) = [ucast (drop_bit 8 w AND 0xFF), ucast (w AND 0xFF)]"
proof -
  have "[0..<2 :: nat] = [0, 1]" by (simp add: upt_rec)
  then show ?thesis by (simp add: to_be_def to_le_def low_byte)
qed

lemma host_to_network_long_htonl: "host_to_network_long e w = htonl e w"
  by (simp add: host_to_network_long_def htonl_def to_be_4)

lemma network_to_host_long_ntohl: "network_to_host_long e w = ntohl e w"
proof -
  have "length (store e 4 w) = 4" by simp
  then obtain a b c d where s: "store e 4 w = [a, b, c, d]"
    by (auto simp only: numeral_eq_Suc pred_numeral_simps length_Suc_conv length_0_conv BitM.simps One_nat_def)
  show ?thesis
    by (simp add: network_to_host_long_def ntohl_def s from_be_def push_bit_or or.assoc ac_simps)
qed

lemma network_to_host_short_from_be: "network_to_host_short e w = from_be (store e 2 w)"
proof -
  have "length (store e 2 w) = 2" by simp
  then obtain a b where s: "store e 2 w = [a, b]"
    by (auto simp only: numeral_eq_Suc pred_numeral_simps length_Suc_conv length_0_conv BitM.simps One_nat_def)
  show ?thesis by (simp add: network_to_host_short_def s from_be_def ac_simps)
qed

lemma store_host_to_network_short [codec]: "store e 2 (host_to_network_short e w) = to_be 2 w"
  by (simp add: host_to_network_short_def store_load flip: to_be_2)

lemma short_roundtrip [codec]: "network_to_host_short e (host_to_network_short e w) = w"
  by (simp add: network_to_host_short_from_be codec from_be_to_be)

lemma long_roundtrip [codec]: "host_to_network_long e (network_to_host_long e w) = w"
  by (simp add: host_to_network_long_htonl network_to_host_long_ntohl htonl_def ntohl_def to_be_from_be
      load_store)

text \<open>The port of an endpoint survives whatever address it was made with.\<close>

lemma endpoint_port_of [codec]: "endpoint_port e (endpoint_of e a p) = p"
  by (simp add: endpoint_of_def endpoint_port_def codec Let_def)

lemma endpoint_address_of_v4 [codec]:
  "endpoint_address e (endpoint_of e (address_of_v4 a4) p) = address_of_v4 a4"
  by (simp add: endpoint_of_def endpoint_address_def address_of_v4_def v4_of_uint_def v4_to_uint_def codec)

lemma endpoint_address_of_v6 [codec]:
  "length (s6_addr a6) = 16 \<Longrightarrow> endpoint_address e (endpoint_of e (address_of_v6 a6) p) = address_of_v6 a6"
  by (simp add: endpoint_of_def endpoint_address_def address_of_v6_def v6_of_bytes_def v6_to_bytes_def)

text \<open>An IPv4 address survives being mapped into IPv6.\<close>

lemma mapped_roundtrip:
  "make_v4_of_mapped e (make_v6_of_v4 e a) = Some a" "v6_to_v4 e (make_v6_of_v4 e a) = Some a"
  "make_v6_of_v4 e a = v4_mapped e a"
proof -
  have "length (v4_to_bytes e a) = 4" by (simp add: v4_to_bytes_def)
  then obtain b0 b1 b2 b3 where b: "v4_to_bytes e a = [b0, b1, b2, b3]"
    by (auto simp only: numeral_eq_Suc pred_numeral_simps length_Suc_conv length_0_conv BitM.simps One_nat_def)
  then have a: "v4_of_bytes e [b0, b1, b2, b3] = a"
    using load_store [of 4 e "s_addr a"] by (simp add: v4_of_bytes_def v4_to_bytes_def)
  show "make_v6_of_v4 e a = v4_mapped e a"
    by (simp add: make_v6_of_v4_def v4_mapped_def b)
  have m: "is_v4_mapped (make_v6_of_v4 e a)"
    by (simp add: is_v4_mapped_def zero_upto_def make_v6_of_v4_def v6_of_bytes_def nth_append list_all_iff
        b Let_def)
  then show "make_v4_of_mapped e (make_v6_of_v4 e a) = Some a" "v6_to_v4 e (make_v6_of_v4 e a) = Some a"
    by (simp_all add: make_v4_of_mapped_def v6_to_v4_def make_v6_of_v4_def v6_of_bytes_def v6_to_bytes_def
        b a nth_append Let_def)
qed

lemma memcmp_eq: "length xs = length ys \<Longrightarrow> memcmp xs ys = 0 \<longleftrightarrow> xs = ys"
  by (induction xs ys rule: list_induct2) auto

lemma v6_eq_iff: "length (s6_addr a) = 16 \<Longrightarrow> length (s6_addr b) = 16 \<Longrightarrow> v6_eq a b \<longleftrightarrow> a = b"
  by (auto simp: v6_eq_def memcmp_eq)

lemma memcmp_swap: "memcmp ys xs = - memcmp xs ys"
  by (induction xs ys rule: memcmp.induct) auto

text \<open>Two IPv6 addresses are ordered one way, ordered the other way, or equal.\<close>

lemma v6_trichotomy: "(if v6_eq a b then 1 else 0) + (if v6_less a b then 1 else 0) + (if v6_less b a then 1 else 0) = (1 :: nat)"
  using memcmp_swap [of "s6_addr a" "s6_addr b"] by (auto simp: v6_eq_def v6_less_def Let_def)

section \<open>The contract of the operating system's address functions\<close>

definition dotted :: "u8 \<Rightarrow> u8 \<Rightarrow> u8 \<Rightarrow> u8 \<Rightarrow> string" where
  "dotted b0 b1 b2 b3 =
     to_string (uint b0) @ ''.'' @ to_string (uint b1) @ ''.'' @ to_string (uint b2) @ ''.'' @ to_string (uint b3)"

lemma is_digit_not: "is_digit c \<Longrightarrow> c \<noteq> CHR 0x00 \<and> c \<noteq> CHR ''.'' \<and> c \<noteq> CHR '':'' \<and> \<not> is_space c"
  by (auto simp: is_digit_def is_space_def)

lemma c_str_append: "list_all (\<lambda>c. c \<noteq> CHR 0x00) s \<Longrightarrow> c_str (s @ t) = s @ c_str t"
  by (auto simp: c_str_def list_all_iff)

lemma to_string_digits: "0 \<le> n \<Longrightarrow> list_all is_digit (to_string n)"
  by (simp add: to_string_def show_digits)

lemma to_string_no_nul: "0 \<le> n \<Longrightarrow> list_all (\<lambda>c. c \<noteq> CHR 0x00) (to_string n)"
  using to_string_digits [of n] is_digit_not by (auto simp: list_all_iff)

lemma c_str_dotted: "c_str (dotted a b c d) = dotted a b c d"
proof -
  have "c_str (to_string (uint x)) = to_string (uint x)" for x :: u8
    using c_str_append [OF to_string_no_nul, of "uint x" "[]"] by (simp add: c_str_def)
  then show ?thesis
    by (simp add: dotted_def c_str_append [OF to_string_no_nul] c_str_append [of "[CHR ''.'']", simplified])
qed

text \<open>
  What the program relies on for the addresses of its settings: the dotted text of an IPv4
  address is read and printed as such, and is not taken for an IPv6 address.
\<close>

locale dotted_addresses =
  fixes os :: os_addresses
  assumes dotted_parsed: "pton4 os (dotted a b c d) = Some [a, b, c, d]"
    and dotted_printed: "ntop4 os [a, b, c, d] = Some (dotted a b c d)"
    and dotted_not_v6: "pton6 os (dotted a b c d) = None"
begin

lemma make_dotted:
  "make_address os e (dotted a b c d) = Some (address_of_v4 (v4_of_bytes e [a, b, c, d]))"
  by (simp add: make_address_def make_address_v6_def make_address_v4_def c_str_dotted dotted_parsed
      dotted_not_v6)

lemma dotted_endpoint:
  "\<exists>port_field addr. tpx_endpoint os e (dotted a b c d) port = Some (Sockaddr_In port_field addr) \<and>
     store e 2 port_field = to_be 2 (ucast port :: u16) \<and> store e 4 addr = [a, b, c, d]"
  by (simp add: tpx_endpoint_def make_dotted endpoint_of_def address_of_v4_def v4_to_uint_def codec
      v4_of_bytes_def store_load)

lemma dotted_endpoint_printed:
  "map_option (endpoint_to_string os e) (tpx_endpoint os e (dotted a b c d) port) =
     Some (Some (dotted a b c d @ '':'' @ to_string (uint port mod 2 ^ 16)))"
  by (simp add: tpx_endpoint_def make_dotted endpoint_to_string_def codec address_to_string_def v4_to_string_def
      address_of_v4_def v4_to_bytes_def v4_of_bytes_def store_load dotted_printed
      endpoint_of_def endpoint_address_def endpoint_port_def v4_of_uint_def v4_to_uint_def
      unsigned_ucast_eq take_bit_eq_mod)

end

section \<open>Properties\<close>

text \<open>What an endpoint was made of is read back from it, in either byte order: the port, an
  IPv4 address, and an IPv6 address with its scope.\<close>

theorem endpoint_roundtrip:
  assumes "length (s6_addr a6) = 16"
  shows "endpoint_port e (endpoint_of e (address_of_v6 a6) p) = p"
    and "endpoint_port e (endpoint_of e (address_of_v4 a4) p) = p"
    and "endpoint_address e (endpoint_of e (address_of_v4 a4) p) = address_of_v4 a4"
    and "endpoint_address e (endpoint_of e (address_of_v6 a6) p) = address_of_v6 a6"
  using assms by (simp_all add: codec)

theorem endpoint_roundtrip_witness:
  "endpoint_address Little (endpoint_of Little (address_of_v6 v6_loopback) 50000) = address_of_v6 v6_loopback"
  by (rule endpoint_roundtrip(4)) (simp add: v6_loopback_def v6_default_def)

end
