(* ===== verification/PortableAddress.thy ===== *)
theory PortableAddress
  imports Addresses
begin

text \<open>
  asio's own \<open>inet_ntop\<close> and \<open>inet_pton\<close> (asio/detail/impl/socket_ops.ipp, the branches for
  the Windows Runtime, \<open>ASIO_WINDOWS_RUNTIME\<close>, which do not call the operating system and are not
  compiled into this program, whose builds call it).  They are concrete functions that provide
  the contract \<open>dotted_addresses\<close>, and the IPv6 text they print is read back.  \<open>unrep\<close> is what \<open>sscanf\<close> stores for a number that does
  not fit an \<open>unsigned int\<close>, which the standard leaves open.
\<close>

section \<open>Printing\<close>

definition lower_hex :: "char \<Rightarrow> char" where
  "lower_hex c = (if 65 \<le> (of_char c :: nat) \<and> (of_char c :: nat) \<le> 70 then char_of (of_char c + 32 :: nat) else c)"

text \<open>The conversion \<open>%x\<close>.\<close>

definition print_hex :: "nat \<Rightarrow> string" where
  "print_hex n = map lower_hex (show_base 16 n)"

definition byte_pair :: "u8 \<Rightarrow> u8 \<Rightarrow> nat" where
  "byte_pair hi lo = unat (push_bit 8 (ucast hi) OR ucast lo :: u32)"

fun skip_zero_pairs :: "bytes \<Rightarrow> bytes" where
  "skip_zero_pairs (hi # lo # bs) = (if hi = 0 \<and> lo = 0 then skip_zero_pairs bs else hi # lo # bs)"
| "skip_zero_pairs bs = bs"

lemma length_skip_zero_pairs: "length (skip_zero_pairs bs) \<le> length bs"
  by (induction bs rule: skip_zero_pairs.induct) auto

text \<open>
  The loop over the pairs of bytes: \<open>first\<close> is \<open>b = 0\<close>, \<open>z\<close> counts the runs of zeros left out.
  The loop's other bound, the room in the buffer, is never reached (\<open>ntop6_fits\<close>).
\<close>

function print_pairs :: "bool \<Rightarrow> nat \<Rightarrow> bytes \<Rightarrow> string" where
  "print_pairs first z [] = []"
| "print_pairs first z [b] = []"
| "print_pairs first z (hi # lo # bs) =
     (if hi = 0 \<and> lo = 0 \<and> z = 0
      then (let rest = skip_zero_pairs bs
            in '':'' @ (if rest \<noteq> [] then [] else '':'') @ print_pairs False (z + 1) rest)
      else (if first then [] else '':'') @ print_hex (byte_pair hi lo) @ print_pairs False z bs)"
  by pat_completeness auto
termination print_pairs
  by (relation "measure (length \<circ> snd \<circ> snd)") (auto simp: le_imp_less_Suc le_SucI length_skip_zero_pairs)

definition inet_ntop6 :: "bytes \<Rightarrow> u32 \<Rightarrow> string" where
  "inet_ntop6 bs scope =
     print_pairs True 0 bs @ (if scope \<noteq> 0 then ''%'' @ to_string (uint scope) else [])"

definition inet_ntop4 :: "bytes \<Rightarrow> string" where
  "inet_ntop4 bs = dotted (bs ! 0) (bs ! 1) (bs ! 2) (bs ! 3)"

section \<open>Reading IPv4 addresses\<close>

text \<open>The conversion \<open>%u\<close>: white space, a sign, digits; \<open>None\<close> is a matching failure.\<close>

definition scan_u :: "(nat \<Rightarrow> u32) \<Rightarrow> string \<Rightarrow> (u32 \<times> string) option" where
  "scan_u unrep s =
     (let s1 = dropWhile is_space s;
          (negative, s2) = (case s1 of
             [] \<Rightarrow> (False, [])
           | c # cs \<Rightarrow> if c = CHR ''-'' then (True, cs) else if c = CHR ''+'' then (False, cs) else (False, s1));
          digits = takeWhile is_digit s2;
          n = decimal digits;
          val = (if n < 2 ^ 32 then of_nat n else unrep n)
      in if digits = [] then None
         else Some (if negative then - val else val, dropWhile is_digit s2))"

text \<open>\<open>k\<close> conversions with dots between them; those made before a failure.\<close>

fun scan_dotted :: "(nat \<Rightarrow> u32) \<Rightarrow> nat \<Rightarrow> string \<Rightarrow> u32 list" where
  "scan_dotted unrep 0 s = []"
| "scan_dotted unrep (Suc k) s =
     (case scan_u unrep s of
        None \<Rightarrow> []
      | Some (v, rest) \<Rightarrow>
          v # (case rest of
                 [] \<Rightarrow> []
               | c # cs \<Rightarrow> if c = CHR ''.'' then scan_dotted unrep k cs else []))"

definition inet_pton4 :: "(nat \<Rightarrow> u32) \<Rightarrow> string \<Rightarrow> bytes option" where
  "inet_pton4 unrep src =
     (let vs = scan_dotted unrep 4 src
      in if length vs \<noteq> 4 then None
         else if list_ex (\<lambda>v. 255 < v) vs then None
         else Some (map ucast vs))"

section \<open>Reading IPv6 addresses\<close>

datatype pton_state = Fword | Fcolon | Bword | Scope | Done

text \<open>
  The variables of the loop; the two byte arrays hold what has been written to them.  The
  current word is checked each turn, so it stays below \<open>2 ^ 20\<close> and never wraps.
\<close>

record pton =
  pstate :: pton_state
  current_word :: nat
  front_bytes :: bytes
  back_bytes :: bytes
  scope_out :: u32
  unread :: string

definition hex_value :: "char \<Rightarrow> nat option" where
  "hex_value c =
     (let n = of_char c
      in if 48 \<le> n \<and> n \<le> 57 then Some (n - 48)
         else if 97 \<le> n \<and> n \<le> 102 then Some (n - 97 + 10)
         else if 65 \<le> n \<and> n \<le> 70 then Some (n - 65 + 10)
         else None)"

definition word_bytes :: "nat \<Rightarrow> bytes" where
  "word_bytes w = [of_nat (w div 256 mod 256), of_nat (w mod 256)]"

text \<open>After a word: a colon leads to \<open>colon\<close>, a percent sign to the scope.\<close>

definition end_word :: "pton_state \<Rightarrow> pton \<Rightarrow> pton option" where
  "end_word colon v =
     (case unread v of
        [] \<Rightarrow> Some (v\<lparr>pstate := Done\<rparr>)
      | c # p \<Rightarrow>
          if c = CHR '':'' then Some (v\<lparr>pstate := colon, unread := p\<rparr>)
          else if c = CHR ''%'' then Some (v\<lparr>pstate := Scope, unread := p\<rparr>)
          else None)"

definition fword_step :: "pton \<Rightarrow> pton option" where
  "fword_step v =
     (case (case unread v of [] \<Rightarrow> None | c # p \<Rightarrow> map_option (\<lambda>d. (d, p)) (hex_value c)) of
        Some (d, p) \<Rightarrow> Some (v\<lparr>current_word := current_word v * 16 + d, unread := p\<rparr>)
      | None \<Rightarrow>
          if length (front_bytes v) = 16 then None
          else end_word Fcolon (v\<lparr>front_bytes := front_bytes v @ word_bytes (current_word v), current_word := 0\<rparr>))"

definition fcolon_step :: "pton \<Rightarrow> pton option" where
  "fcolon_step v =
     (case unread v of
        [] \<Rightarrow> Some (v\<lparr>pstate := Fword\<rparr>)
      | c # p \<Rightarrow> if c = CHR '':'' then Some (v\<lparr>pstate := Bword, unread := p\<rparr>) else Some (v\<lparr>pstate := Fword\<rparr>))"

definition bword_step :: "pton \<Rightarrow> pton option" where
  "bword_step v =
     (case (case unread v of [] \<Rightarrow> None | c # p \<Rightarrow> map_option (\<lambda>d. (d, p)) (hex_value c)) of
        Some (d, p) \<Rightarrow> Some (v\<lparr>current_word := current_word v * 16 + d, unread := p\<rparr>)
      | None \<Rightarrow>
          if length (front_bytes v) + length (back_bytes v) = 16 then None
          else end_word Bword (v\<lparr>back_bytes := back_bytes v @ word_bytes (current_word v), current_word := 0\<rparr>))"

definition scope_step :: "pton \<Rightarrow> pton option" where
  "scope_step v =
     (case unread v of
        [] \<Rightarrow> Some (v\<lparr>scope_out := of_nat (current_word v), pstate := Done\<rparr>)
      | c # p \<Rightarrow>
          if is_digit c then Some (v\<lparr>current_word := current_word v * 10 + (of_char c - 48), unread := p\<rparr>)
          else None)"

text \<open>One turn of the loop; \<open>None\<close> is \<open>invalid_argument\<close>.\<close>

definition pton_step :: "pton \<Rightarrow> pton option" where
  "pton_step v =
     (if 0xFFFF < current_word v then None
      else case pstate v of
             Fword \<Rightarrow> fword_step v
           | Fcolon \<Rightarrow> fcolon_step v
           | Bword \<Rightarrow> bword_step v
           | Scope \<Rightarrow> scope_step v
           | Done \<Rightarrow> Some v)"

fun pton_rank :: "pton_state \<Rightarrow> nat" where
  "pton_rank Fcolon = 2"
| "pton_rank Done = 0"
| "pton_rank _ = 1"

text \<open>Every turn reads a character or lowers the state's rank, so the loop ends.\<close>

definition pton_measure :: "pton \<Rightarrow> nat" where
  "pton_measure v = 2 * length (unread v) + pton_rank (pstate v)"

lemmas pton_step_defs = pton_step_def fword_step_def fcolon_step_def bword_step_def scope_step_def
  end_word_def

lemma pton_step_decreases:
  "pton_step v = Some v' \<Longrightarrow> pstate v \<noteq> Done \<Longrightarrow> pton_measure v' < pton_measure v"
  by (auto simp: pton_step_defs pton_measure_def split: if_splits pton_state.splits list.splits option.splits)

function pton_loop :: "pton \<Rightarrow> pton option" where
  "pton_loop v =
     (if pstate v = Done then Some v
      else case pton_step v of
             None \<Rightarrow> None
           | Some v' \<Rightarrow> pton_loop v')"
  by pat_completeness auto
termination pton_loop
  by (relation "measure pton_measure") (auto simp: pton_step_decreases)

declare pton_loop.simps [simp del]

definition assemble :: "pton \<Rightarrow> bytes" where
  "assemble v =
     (let bs = front_bytes v @ replicate (16 - length (front_bytes v)) 0
      in take (16 - length (back_bytes v)) bs @ back_bytes v)"

definition pton_start :: "string \<Rightarrow> pton" where
  "pton_start src = \<lparr>pstate = Fword, current_word = 0, front_bytes = [], back_bytes = [], scope_out = 0,
     unread = src\<rparr>"

definition inet_pton6 :: "string \<Rightarrow> (bytes \<times> u32) option" where
  "inet_pton6 src = map_option (\<lambda>v. (assemble v, scope_out v)) (pton_loop (pton_start src))"

definition portable_os :: "(nat \<Rightarrow> u32) \<Rightarrow> os_addresses" where
  "portable_os unrep =
     \<lparr>pton4 = inet_pton4 unrep, pton6 = inet_pton6, ntop4 = (\<lambda>bs. Some (inet_ntop4 bs)),
      ntop6 = (\<lambda>bs scope. Some (inet_ntop6 bs scope))\<rparr>"

section \<open>IPv4 text\<close>

lemma scan_digits:
  assumes "\<not> list_ex is_digit (take 1 rest)"
  shows "scan_u unrep (show_base 10 n @ rest) = Some (if n < 2 ^ 32 then of_nat n else unrep n, rest)"
proof -
  let ?ds = "show_base 10 n"
  have r: "takeWhile is_digit rest = []" "dropWhile is_digit rest = rest"
    using assms by (cases rest; simp)+
  have d: "takeWhile is_digit (?ds @ rest) = ?ds" "dropWhile is_digit (?ds @ rest) = rest"
    using show_digits [of n] r by (simp_all add: list_all_iff takeWhile_append dropWhile_append)
  obtain c cs where c: "?ds = c # cs" using show_not_empty [of 10 n] by (cases ?ds) auto
  then have "is_digit c" using show_digits [of n] by simp
  then have "\<not> is_space c" "c \<noteq> CHR ''-''" "c \<noteq> CHR ''+''" by (auto simp: is_digit_def is_space_def)
  then show ?thesis using d c decimal_show [of n]
    by (simp add: scan_u_def Let_def show_not_empty)
qed

lemma scan_byte:
  "\<not> list_ex is_digit (take 1 rest) \<Longrightarrow> scan_u unrep (to_string (uint (b :: u8)) @ rest) = Some (ucast b, rest)"
proof -
  assume r: "\<not> list_ex is_digit (take 1 rest)"
  have "nat (uint b) < 2 ^ 32" using unsigned_less [of b, where ?'a = nat] by (simp only: nat_uint_eq) simp
  moreover have "(of_nat (nat (uint b)) :: u32) = ucast b"
    by (rule word_uint_eqI) (simp add: uint_word_of_int unsigned_ucast_eq take_bit_eq_mod)
  ultimately show ?thesis
    using scan_digits [OF r, of unrep "nat (uint b)"] by (simp add: to_string_def)
qed

lemma pton4_dotted: "inet_pton4 unrep (dotted a b c d) = Some [a, b, c, d]"
proof -
  have d: "\<not> is_digit CHR ''.''" by (simp add: is_digit_def)
  have "scan_dotted unrep 4 (dotted a b c d) = [ucast a, ucast b, ucast c, ucast d]"
    using scan_byte [of "[]" unrep d]
    by (simp add: dotted_def numeral_eq_Suc scan_byte d)
  moreover have "\<not> 255 < (ucast x :: u32)" for x :: u8
    using uint_lt2p [of x] by (simp add: word_less_def unsigned_ucast_eq take_bit_eq_mod)
  moreover have "(ucast (ucast x :: u32) :: u8) = x" for x :: u8 by (rule u8_via_u32)
  ultimately show ?thesis by (simp add: inet_pton4_def)
qed

section \<open>IPv6 text\<close>

text \<open>What a run of the loop leaves for the result.\<close>

definition pton_result :: "pton \<Rightarrow> (bytes \<times> u32) option" where
  "pton_result v = map_option (\<lambda>v. (assemble v, scope_out v)) (pton_loop v)"

lemma pton_result_step:
  "pstate v \<noteq> Done \<Longrightarrow> pton_result v = (case pton_step v of None \<Rightarrow> None | Some v' \<Rightarrow> pton_result v')"
  by (simp add: pton_result_def pton_loop.simps [of v] split: option.splits)

lemma pton_result_Done: "pstate v = Done \<Longrightarrow> pton_result v = Some (assemble v, scope_out v)"
  by (simp add: pton_result_def pton_loop.simps [of v])

definition hex_char :: "nat \<Rightarrow> char" where
  "hex_char d = lower_hex (digit_char d)"

lemma hex_value_hex_char: "d < 16 \<Longrightarrow> hex_value (hex_char d) = Some d"
  by (simp add: hex_char_def lower_hex_def digit_char_def hex_value_def)

lemma print_hex_rec:
  "print_hex n = (if n < 16 then [hex_char n] else print_hex (n div 16) @ [hex_char (n mod 16)])"
  by (simp add: print_hex_def show_base.simps [of 16 n] hex_char_def)

text \<open>Reading a printed word, in either half.\<close>

lemma read_hex_digit:
  assumes "pstate v = Fword \<or> pstate v = Bword" "w \<le> 0xFFFF" "d < 16"
  shows "pton_result (v\<lparr>current_word := w, unread := hex_char d # r\<rparr>) =
         pton_result (v\<lparr>current_word := w * 16 + d, unread := r\<rparr>)"
  using assms by (auto simp: pton_result_step pton_step_defs hex_value_hex_char)

lemma read_hex:
  assumes "pstate v = Fword \<or> pstate v = Bword" "n \<le> 0xFFFF"
  shows "pton_result (v\<lparr>current_word := 0, unread := print_hex n @ r\<rparr>) =
         pton_result (v\<lparr>current_word := n, unread := r\<rparr>)"
  using assms(2)
proof (induction n arbitrary: r rule: less_induct)
  case (less n)
  show ?case
  proof (cases "n < 16")
    case True
    then show ?thesis using read_hex_digit [OF assms(1), of 0 n r] by (simp add: print_hex_rec)
  next
    case False
    then have "print_hex n @ r = print_hex (n div 16) @ hex_char (n mod 16) # r"
      by (simp add: print_hex_rec [of n])
    then show ?thesis
      using False less.prems less.IH [of "n div 16" "hex_char (n mod 16) # r"]
        read_hex_digit [OF assms(1), of "n div 16" "n mod 16" r] by (simp add: mult.commute)
  qed
qed

lemma read_dec_digit:
  assumes "pstate v = Scope" "w \<le> 0xFFFF" "d < 10"
  shows "pton_result (v\<lparr>current_word := w, unread := digit_char d # r\<rparr>) =
         pton_result (v\<lparr>current_word := w * 10 + d, unread := r\<rparr>)"
  using assms by (auto simp: pton_result_step pton_step_defs digit_is_digit of_char_digit)

lemma word_too_large: "pstate v \<noteq> Done \<Longrightarrow> 0xFFFF < current_word v \<Longrightarrow> pton_result v = None"
  by (simp add: pton_result_step pton_step_def)

lemma read_dec:
  assumes "pstate v = Scope"
  shows "pton_result (v\<lparr>current_word := 0, unread := show_base 10 n @ r\<rparr>) =
         (if n div 10 \<le> 0xFFFF then pton_result (v\<lparr>current_word := n, unread := r\<rparr>) else None)"
proof (induction n arbitrary: r rule: less_induct)
  case (less n)
  show ?case
  proof (cases "n < 10")
    case True
    then show ?thesis using read_dec_digit [OF assms(1), of 0 n r] by (simp add: show_base.simps [of 10 n])
  next
    case False
    then have e: "show_base 10 n @ r = show_base 10 (n div 10) @ digit_char (n mod 10) # r"
      by (simp add: show_base.simps [of 10 n])
    have "n div 10 \<le> 0xFFFF \<Longrightarrow> n div 10 div 10 \<le> 0xFFFF" by simp
    then show ?thesis
      using False less.IH [of "n div 10" "digit_char (n mod 10) # r"]
        read_dec_digit [OF assms(1), of "n div 10" "n mod 10" r] assms
        word_too_large [of "v\<lparr>current_word := n div 10, unread := digit_char (n mod 10) # r\<rparr>"]
      by (auto simp: e mult.commute not_le)
  qed
qed

lemma byte_pair_div: "byte_pair hi lo div 256 = unat hi" and byte_pair_mod: "byte_pair hi lo mod 256 = unat lo"
proof -
  have h: "unat (ucast hi :: u32) = unat hi" and l: "unat (ucast lo :: u32) = unat lo"
    using unsigned_less [of hi, where ?'a = nat] unsigned_less [of lo, where ?'a = nat]
    by (simp_all add: unsigned_ucast_eq take_bit_eq_mod)
  have u: "unat hi < 256" "unat lo < 256"
    using unsigned_less [of hi, where ?'a = nat] unsigned_less [of lo, where ?'a = nat] by simp_all
  then have "push_bit 8 (unat hi) < 2 ^ 32" by (simp add: push_bit_eq_mult)
  then have b: "byte_pair hi lo = push_bit 8 (unat hi) OR unat lo"
    by (simp add: byte_pair_def unsigned_or_eq unsigned_push_bit_eq h l take_bit_nat_eq_self)
  have "drop_bit 8 (byte_pair hi lo) = unat hi"
  proof -
    have "drop_bit 8 (unat lo) = 0" using u by (simp add: drop_bit_eq_div)
    moreover have "drop_bit 8 (push_bit 8 (unat hi)) = unat hi"
      by (simp add: drop_bit_eq_div push_bit_eq_mult)
    ultimately show ?thesis by (simp add: b)
  qed
  then show "byte_pair hi lo div 256 = unat hi" by (simp add: drop_bit_eq_div)
  have "take_bit 8 (byte_pair hi lo) = unat lo"
    using u by (simp add: b take_bit_push_bit take_bit_nat_eq_self)
  then show "byte_pair hi lo mod 256 = unat lo" by (simp add: take_bit_eq_mod)
qed

lemma byte_pair_le: "byte_pair hi lo \<le> 0xFFFF"
  using byte_pair_div [of hi lo] unsigned_less [of hi, where ?'a = nat] by simp

lemma word_bytes_pair: "word_bytes (byte_pair hi lo) = [hi, lo]"
  using unsigned_less [of hi, where ?'a = nat]
  by (simp add: word_bytes_def byte_pair_div byte_pair_mod)

lemma word_bytes_0 [simp]: "word_bytes 0 = [0, 0]"
  by (simp add: word_bytes_def)

definition scope_text :: "u32 \<Rightarrow> string" where
  "scope_text sc = (if sc \<noteq> 0 then ''%'' @ to_string (uint sc) else [])"

definition scope_ok :: "u32 \<Rightarrow> bytes \<Rightarrow> (bytes \<times> u32) option" where
  "scope_ok sc bs = (if sc \<le> 0xFFFF then Some (bs, sc) else None)"

lemma read_scope:
  assumes "unread v = scope_text sc" "scope_out v = 0" "current_word v = 0"
  shows "(case end_word colon v of None \<Rightarrow> None | Some v' \<Rightarrow> pton_result v') = scope_ok sc (assemble v)"
proof (cases "sc = 0")
  case True
  with assms show ?thesis
    by (simp add: scope_text_def end_word_def pton_result_Done assemble_def scope_ok_def)
next
  case False
  let ?v = "v\<lparr>pstate := Scope\<rparr>" and ?n = "unat sc"
  from False assms have "end_word colon v = Some (?v\<lparr>current_word := 0, unread := show_base 10 ?n @ []\<rparr>)"
    by (simp add: scope_text_def end_word_def to_string_def nat_uint_eq)
  moreover have "pton_result (?v\<lparr>current_word := ?n, unread := []\<rparr>) = scope_ok sc (assemble v)"
    by (simp add: pton_result_step pton_step_defs pton_result_Done assemble_def scope_ok_def
        word_le_nat_alt not_le)
  moreover have "\<not> ?n div 10 \<le> 0xFFFF \<Longrightarrow> scope_ok sc (assemble v) = None"
    by (simp add: scope_ok_def word_le_nat_alt)
  ultimately show ?thesis using read_dec [of ?v ?n "[]"] by simp
qed

text \<open>A printed word is followed by the scope or by a colon.\<close>

lemma hex_start: "\<exists>d r. d < 16 \<and> print_hex n = hex_char d # r"
proof (induction n rule: less_induct)
  case (less n)
  show ?case
  proof (cases "n < 16")
    case True
    then show ?thesis by (auto simp: print_hex_rec [of n])
  next
    case False
    with less [of "n div 16"] show ?thesis by (auto simp: print_hex_rec [of n])
  qed
qed

lemma not_hex_scope: "case scope_text sc of [] \<Rightarrow> True | c # p \<Rightarrow> hex_value c = None \<and> c \<noteq> CHR '':''"
  by (simp add: scope_text_def hex_value_def)

lemma front_end:
  assumes "pstate v = Fword" "current_word v \<le> 0xFFFF" "length (front_bytes v) < 16" "scope_out v = 0"
    "unread v = scope_text sc"
  shows "pton_result v =
         scope_ok sc (assemble (v\<lparr>front_bytes := front_bytes v @ word_bytes (current_word v)\<rparr>))"
proof -
  let ?v = "v\<lparr>front_bytes := front_bytes v @ word_bytes (current_word v), current_word := 0\<rparr>"
  have "pton_step v = end_word Fcolon ?v"
    using assms not_hex_scope [of sc] by (simp add: pton_step_def fword_step_def split: list.splits)
  moreover have "assemble ?v = assemble (v\<lparr>front_bytes := front_bytes v @ word_bytes (current_word v)\<rparr>)"
    by (simp add: assemble_def)
  ultimately show ?thesis using assms read_scope [of ?v sc Fcolon] by (simp add: pton_result_step)
qed

lemma back_end:
  assumes "pstate v = Bword" "current_word v \<le> 0xFFFF" "length (front_bytes v) + length (back_bytes v) < 16"
    "scope_out v = 0" "unread v = scope_text sc"
  shows "pton_result v =
         scope_ok sc (assemble (v\<lparr>back_bytes := back_bytes v @ word_bytes (current_word v)\<rparr>))"
proof -
  let ?v = "v\<lparr>back_bytes := back_bytes v @ word_bytes (current_word v), current_word := 0\<rparr>"
  have "pton_step v = end_word Bword ?v"
    using assms not_hex_scope [of sc] by (simp add: pton_step_def bword_step_def split: list.splits)
  moreover have "assemble ?v = assemble (v\<lparr>back_bytes := back_bytes v @ word_bytes (current_word v)\<rparr>)"
    by (simp add: assemble_def)
  ultimately show ?thesis using assms read_scope [of ?v sc Bword] by (simp add: pton_result_step)
qed

lemma front_colon:
  assumes "pstate v = Fword" "current_word v \<le> 0xFFFF" "length (front_bytes v) < 16" "unread v = CHR '':'' # r"
  shows "pton_result v =
         pton_result (v\<lparr>pstate := Fcolon, front_bytes := front_bytes v @ word_bytes (current_word v),
           current_word := 0, unread := r\<rparr>)"
  using assms by (cases v; simp add: pton_result_step pton_step_defs hex_value_def)

lemma back_colon:
  assumes "pstate v = Bword" "current_word v \<le> 0xFFFF" "length (front_bytes v) + length (back_bytes v) < 16"
    "unread v = CHR '':'' # r"
  shows "pton_result v =
         pton_result (v\<lparr>back_bytes := back_bytes v @ word_bytes (current_word v), current_word := 0,
           unread := r\<rparr>)"
  using assms by (cases v; simp add: pton_result_step pton_step_defs hex_value_def)

lemma colon_colon:
  assumes "pstate v = Fcolon" "current_word v \<le> 0xFFFF" "unread v = CHR '':'' # r"
  shows "pton_result v = pton_result (v\<lparr>pstate := Bword, unread := r\<rparr>)"
  using assms by (simp add: pton_result_step [of v] pton_step_defs)

lemma colon_hex:
  assumes "pstate v = Fcolon" "current_word v \<le> 0xFFFF" "unread v = print_hex n @ r"
  shows "pton_result v = pton_result (v\<lparr>pstate := Fword\<rparr>)"
proof -
  obtain d q where d: "d < 16" "print_hex n = hex_char d # q" using hex_start [of n] by auto
  then have "hex_char d \<noteq> CHR '':''" using hex_value_hex_char [of d] by (auto simp: hex_value_def)
  with assms d show ?thesis by (simp add: pton_result_step [of v] pton_step_defs)
qed

lemma read_word:
  assumes "pstate v = Fword \<or> pstate v = Bword" "current_word v = 0"
    "unread v = print_hex (byte_pair hi lo) @ r"
  shows "pton_result v = pton_result (v\<lparr>current_word := byte_pair hi lo, unread := r\<rparr>)"
  using read_hex [OF assms(1) byte_pair_le, of hi lo r] assms by (cases v) simp

lemma print_pairs_later:
  "0 < z \<Longrightarrow> even (length bs) \<Longrightarrow> bs \<noteq> [] \<Longrightarrow> print_pairs False z bs = CHR '':'' # print_pairs True z bs"
  by (cases "(False, z, bs)" rule: print_pairs.cases) simp_all

lemma assemble_front:
  "back_bytes v = [] \<Longrightarrow> assemble v = take 16 (front_bytes v @ replicate (16 - length (front_bytes v)) 0)"
  by (simp add: assemble_def)

text \<open>After the gap every word goes to the back.\<close>

lemma read_back_words:
  assumes "even (length bs)" "bs \<noteq> []" "pstate v = Bword" "current_word v = 0" "scope_out v = 0"
    "length (front_bytes v) + length (back_bytes v) + length bs \<le> 16"
    "unread v = print_pairs True 1 bs @ scope_text sc"
  shows "pton_result v = scope_ok sc (assemble (v\<lparr>back_bytes := back_bytes v @ bs\<rparr>))"
  using assms
proof (induction bs arbitrary: v rule: induct_list012)
  case (3 hi lo bs)
  let ?w = "byte_pair hi lo"
  let ?r = "print_pairs False 1 bs @ scope_text sc"
  let ?v1 = "v\<lparr>current_word := ?w, unread := ?r\<rparr>"
  have 1: "pton_result v = pton_result ?v1"
    by (rule read_word) (use "3.prems" in simp_all)
  show ?case
  proof (cases "bs = []")
    case True
    have "pton_result ?v1 = scope_ok sc (assemble (?v1\<lparr>back_bytes := back_bytes ?v1 @ word_bytes ?w\<rparr>))"
      using back_end [of ?v1 sc] "3.prems" True byte_pair_le by simp
    with 1 True show ?thesis by (simp add: word_bytes_pair assemble_def)
  next
    case False
    let ?v2 = "v\<lparr>back_bytes := back_bytes v @ [hi, lo], current_word := 0,
      unread := print_pairs True 1 bs @ scope_text sc\<rparr>"
    have "pton_result ?v1 = pton_result ?v2"
      using back_colon [of ?v1 "print_pairs True 1 bs @ scope_text sc"] "3.prems" False byte_pair_le
      by (simp add: print_pairs_later word_bytes_pair)
    moreover have "pton_result ?v2 = scope_ok sc (assemble (?v2\<lparr>back_bytes := back_bytes ?v2 @ bs\<rparr>))"
      by (rule "3.IH"(1)) (use "3.prems" False in simp_all)
    ultimately show ?thesis using 1 by (simp add: assemble_def)
  qed
qed simp_all

text \<open>The gap itself: what is left out is zero, and the rest of the words go to the back.\<close>

lemma skip_zero_pairs_split:
  "even (length bs) \<Longrightarrow>
     \<exists>k. bs = replicate (2 * k) 0 @ skip_zero_pairs bs \<and> even (length (skip_zero_pairs bs))"
proof (induction bs rule: skip_zero_pairs.induct)
  case (1 hi lo bs)
  show ?case
  proof (cases "hi = 0 \<and> lo = 0")
    case True
    with 1 obtain k where "bs = replicate (2 * k) 0 @ skip_zero_pairs bs" "even (length (skip_zero_pairs bs))"
      by auto
    with True have "hi # lo # bs = replicate (2 * Suc k) 0 @ skip_zero_pairs (hi # lo # bs)"
      and "even (length (skip_zero_pairs (hi # lo # bs)))" by simp_all
    then show ?thesis by blast
  next
    case False
    with 1 show ?thesis by (intro exI [of _ 0]) auto
  qed
qed (auto intro: exI [of _ 0])

lemma read_gap:
  assumes "even (length bs)" "pstate v = Fcolon" "current_word v = 0" "scope_out v = 0" "back_bytes v = []"
    "length (front_bytes v) + length bs \<le> 16 \<and> length (front_bytes v) \<le> 14"
    "unread v = (let rest = skip_zero_pairs bs
                 in (if rest \<noteq> [] then [] else '':'') @ print_pairs False 1 rest) @ scope_text sc"
  shows "pton_result v =
         scope_ok sc (front_bytes v @ replicate (16 - length (front_bytes v) - length bs) 0 @ bs)"
proof -
  obtain k where k: "bs = replicate (2 * k) 0 @ skip_zero_pairs bs"
    and even: "even (length (skip_zero_pairs bs))"
    using skip_zero_pairs_split [OF assms(1)] by blast
  define rest where "rest = skip_zero_pairs bs"
  have len: "length bs = 2 * k + length rest" using k rest_def by (metis length_append length_replicate)
  show ?thesis
  proof (cases "rest = []")
    case True
    let ?v = "v\<lparr>pstate := Bword, unread := scope_text sc\<rparr>"
    have "pton_result v = pton_result ?v"
      by (rule colon_colon) (use assms True in \<open>simp_all add: rest_def\<close>)
    moreover have "pton_result ?v = scope_ok sc (assemble (?v\<lparr>back_bytes := [0, 0]\<rparr>))"
      using back_end [of ?v sc] assms by simp
    moreover have bs: "bs = replicate (2 * k) 0" using k True rest_def by simp
    moreover have "replicate (14 - n) (0 :: u8) @ [0, 0] = replicate (16 - (n + 2 * k)) 0 @ replicate (2 * k) 0"
      if "n + 2 * k \<le> 16 \<and> n \<le> 14" for n
    proof -
      have "[0, 0] = replicate 2 (0 :: u8)" by (simp add: numeral_2_eq_2)
      moreover from that have "14 - n + 2 = 16 - (n + 2 * k) + 2 * k" by arith
      ultimately show ?thesis by (simp only: flip: replicate_add)
    qed
    ultimately show ?thesis using assms by (simp add: assemble_def)
  next
    case False
    let ?v = "v\<lparr>pstate := Bword, unread := print_pairs True 1 rest @ scope_text sc\<rparr>"
    have "pton_result v = pton_result ?v"
      by (rule colon_colon) (use assms False even in \<open>simp_all add: print_pairs_later flip: rest_def\<close>)
    moreover have "pton_result ?v = scope_ok sc (assemble (?v\<lparr>back_bytes := back_bytes ?v @ rest\<rparr>))"
      by (rule read_back_words) (use assms False even len in \<open>simp_all flip: rest_def\<close>)
    moreover have "bs = replicate (2 * k) 0 @ rest" using k rest_def by simp
    moreover have f: "length (front_bytes v) + (2 * k + length rest) \<le> 16" using assms(6) len by simp
    then have "16 - (length rest + length (front_bytes v)) =
        16 - (length (front_bytes v) + (2 * k + length rest)) + 2 * k" by arith
    then have "replicate (16 - (length rest + length (front_bytes v))) (0 :: u8) =
        replicate (16 - (length (front_bytes v) + (2 * k + length rest))) 0 @ replicate (2 * k) 0"
      by (simp only: replicate_add)
    moreover from f have "take (16 - length rest) (front_bytes v) = front_bytes v" by simp
    ultimately show ?thesis using assms(5) by (simp add: assemble_def)
  qed
qed

lemma print_pairs_gap:
  "print_pairs first 0 (0 # 0 # bs) =
     CHR '':'' # (let rest = skip_zero_pairs bs
                in (if rest \<noteq> [] then [] else '':'') @ print_pairs False 1 rest)"
  by (simp add: Let_def)

lemma read_front_words:
  assumes "even (length bs)" "bs \<noteq> []" "pstate v = Fword" "current_word v = 0" "scope_out v = 0"
    "back_bytes v = []" "length (front_bytes v) + length bs = 16"
    "unread v = print_pairs True 0 bs @ scope_text sc"
    "front_bytes v = [] \<or> take 2 bs \<noteq> [0, 0]"
  shows "pton_result v = scope_ok sc (front_bytes v @ bs)"
  using assms
proof (induction bs arbitrary: v rule: induct_list012)
  case (3 hi lo bs)
  let ?gap = "\<lambda>bs. (let rest = skip_zero_pairs bs
    in (if rest \<noteq> [] then [] else '':'') @ print_pairs False 1 rest) @ scope_text sc"
  show ?case
  proof (cases "hi = 0 \<and> lo = 0")
    case True
    with "3.prems" have f: "front_bytes v = []" by simp
    let ?v1 = "v\<lparr>pstate := Fcolon, front_bytes := [0, 0], current_word := 0, unread := ?gap bs\<rparr>"
    have "pton_result v = pton_result ?v1"
    proof -
      have "unread v = CHR '':'' # ?gap bs"
        using "3.prems"(8) True by (simp only: print_pairs_gap append.simps)
      then show ?thesis using front_colon [of v "?gap bs"] "3.prems"(3-4) f by simp
    qed
    also have "\<dots> = scope_ok sc (front_bytes ?v1 @ replicate (16 - length (front_bytes ?v1) - length bs) 0 @ bs)"
      by (rule read_gap) (use "3.prems" f in simp_all)
    finally show ?thesis using True f "3.prems" by simp
  next
    case False
    let ?w = "byte_pair hi lo"
    let ?r = "print_pairs False 0 bs @ scope_text sc"
    let ?v1 = "v\<lparr>current_word := ?w, unread := ?r\<rparr>"
    have 1: "pton_result v = pton_result ?v1"
      by (rule read_word) (use "3.prems" False in simp_all)
    show ?thesis
    proof (cases "bs = []")
      case True
      have "pton_result ?v1 = scope_ok sc (assemble (?v1\<lparr>front_bytes := front_bytes ?v1 @ word_bytes ?w\<rparr>))"
        using front_end [of ?v1 sc] "3.prems" True byte_pair_le by simp
      with 1 True "3.prems" show ?thesis by (simp add: word_bytes_pair assemble_def)
    next
      case more: False
      let ?v2 = "\<lambda>r. v\<lparr>pstate := Fcolon, front_bytes := front_bytes v @ [hi, lo], current_word := 0,
        unread := r\<rparr>"
      have 2: "pton_result ?v1 = pton_result (?v2 r)" if "?r = CHR '':'' # r" for r
        using front_colon [of ?v1 r] "3.prems" more byte_pair_le that by (simp add: word_bytes_pair)
      obtain h2 l2 bs2 where bs: "bs = h2 # l2 # bs2"
        using more "3.prems"(1) by (cases "(False, 0 :: nat, bs)" rule: print_pairs.cases) simp_all
      show ?thesis
      proof (cases "h2 = 0 \<and> l2 = 0")
        case True
        have "pton_result ?v1 = pton_result (?v2 (?gap bs2))"
          by (rule 2) (simp add: bs True print_pairs_gap del: print_pairs.simps)
        also have "\<dots> = scope_ok sc (front_bytes (?v2 (?gap bs2)) @
            replicate (16 - length (front_bytes (?v2 (?gap bs2))) - length bs2) 0 @ bs2)"
          by (rule read_gap) (use "3.prems" bs in simp_all)
        finally show ?thesis using 1 True bs "3.prems" by (simp add: numeral_2_eq_2)
      next
        case nz: False
        let ?t = "print_pairs True 0 bs @ scope_text sc"
        have "pton_result ?v1 = pton_result (?v2 ?t)"
          by (rule 2) (use bs nz in auto)
        also have "\<dots> = pton_result ((?v2 ?t)\<lparr>pstate := Fword\<rparr>)"
          by (rule colon_hex [where n = "byte_pair h2 l2" and r = "print_pairs False 0 bs2 @ scope_text sc"])
             (use bs nz in auto)
        also have "\<dots> = scope_ok sc (front_bytes ((?v2 ?t)\<lparr>pstate := Fword\<rparr>) @ bs)"
          by (rule "3.IH"(1)) (use "3.prems" more bs nz in auto)
        finally show ?thesis using 1 by simp
      qed
    qed
  qed
qed simp_all

lemma pton6_ntop6:
  assumes "length bs = 16"
  shows "inet_pton6 (inet_ntop6 bs scope) = (if scope \<le> 0xFFFF then Some (bs, scope) else None)"
proof -
  have "bs \<noteq> []" using assms by auto
  then have "pton_result (pton_start (inet_ntop6 bs scope)) = scope_ok scope ([] @ bs)"
    using assms by (subst read_front_words) (simp_all add: pton_start_def inet_ntop6_def scope_text_def)
  then show ?thesis by (simp add: inet_pton6_def pton_result_def scope_ok_def)
qed

section \<open>The contract\<close>

lemma read_decimal_dot:
  "list_all is_digit ds \<Longrightarrow> pstate v = Fword \<Longrightarrow> unread v = ds @ CHR ''.'' # r \<Longrightarrow> pton_result v = None"
proof (induction ds arbitrary: v)
  case Nil
  then show ?case by (simp add: pton_result_step [of v] pton_step_defs hex_value_def)
next
  case (Cons c ds)
  let ?v = "v\<lparr>current_word := current_word v * 16 + (of_char c - 48), unread := ds @ CHR ''.'' # r\<rparr>"
  from Cons.prems have "hex_value c = Some (of_char c - 48)" by (simp add: hex_value_def is_digit_def)
  with Cons.prems have "pton_step v = None \<or> pton_step v = Some ?v"
    by (simp add: pton_step_defs)
  moreover have "pton_result ?v = None" by (rule Cons.IH) (use Cons.prems in simp_all)
  ultimately show ?case using Cons.prems by (auto simp: pton_result_step [of v])
qed

lemma pton6_dotted: "inet_pton6 (dotted a b c d) = None"
  using read_decimal_dot [OF to_string_digits, of "uint a" "pton_start (dotted a b c d)"]
  by (simp add: inet_pton6_def pton_result_def pton_start_def dotted_def)

interpretation portable: dotted_addresses "portable_os unrep" for unrep
  by unfold_locales (simp_all add: portable_os_def pton4_dotted pton6_dotted inet_ntop4_def)

text \<open>The room asio gives \<open>inet_ntop\<close> is 256 characters.\<close>

lemma length_print_hex: "n \<le> 0xFFFF \<Longrightarrow> length (print_hex n) \<le> 4"
  by (subst print_hex_rec, subst print_hex_rec, subst print_hex_rec, subst print_hex_rec) simp

lemma ntop6_fits: "length (print_pairs first z bs) \<le> 5 * (length bs div 2)"
proof (induction first z bs rule: print_pairs.induct)
  case (3 first z hi lo bs)
  have "length (skip_zero_pairs bs) div 2 \<le> length bs div 2"
    using length_skip_zero_pairs by (rule div_le_mono)
  moreover have "length (print_hex (byte_pair hi lo)) \<le> 4" by (rule length_print_hex, rule byte_pair_le)
  ultimately show ?case using 3 by (cases "hi = 0 \<and> lo = 0 \<and> z = 0") (auto simp: Let_def)
qed simp_all

section \<open>Properties\<close>

text \<open>The endpoint made of a dotted address and a configured port carries the four bytes of the
  address and the low 16 bits of the port, both in network order whatever the host's order, and
  prints as what it was made of.\<close>

theorem endpoint_of_settings:
  "(\<exists>port_field addr. tpx_endpoint (portable_os unrep) e (dotted a b c d) port = Some (Sockaddr_In port_field addr) \<and>
      store e 2 port_field = to_be 2 (ucast port :: u16) \<and> store e 4 addr = [a, b, c, d]) \<and>
   map_option (endpoint_to_string (portable_os unrep) e) (tpx_endpoint (portable_os unrep) e (dotted a b c d) port) =
     Some (Some (dotted a b c d @ '':'' @ to_string (uint port mod 2 ^ 16)))"
  by (rule conjI, rule portable.dotted_endpoint, rule portable.dotted_endpoint_printed)

text \<open>C37. The text that asio's own printer, the one for the Windows Runtime, makes of any IPv6
  address is read back by asio's own reader as that address and its scope, with the one gap
  wherever it stands; but a scope above 65535 is printed and then refused by the reader.\<close>

theorem ipv6_text_roundtrip:
  assumes "length bs = 16"
  shows "inet_pton6 (inet_ntop6 bs scope) = (if scope \<le> 0xFFFF then Some (bs, scope) else None)"
  using assms by (rule pton6_ntop6)

theorem ipv6_text_roundtrip_witness:
  "inet_pton6 (inet_ntop6 ([0xFE, 0x80] @ replicate 12 0 @ [0, 1]) 70000) = None"
  by (subst ipv6_text_roundtrip) simp_all

end
