(* ===== verification/Startup.thy ===== *)
theory Startup
  imports Session Settings PortableAddress
begin

text \<open>
  What becomes of the addresses that the user enters: the start of the server
  (\<open>CommsThread::execute\<close>, \<open>attemptConnection\<close>) on the settings of the panel, with asio's reading
  of addresses.
\<close>

section \<open>Reading the addresses\<close>

text \<open>
  The outcome of \<open>from_string\<close> as the server's input: \<open>bind_error\<close> when the host's address cannot
  be read (binding may fail for other reasons too), \<open>address_error\<close> exactly when the Timepix'
  address cannot.
\<close>

definition reads_addresses :: "os_addresses \<Rightarrow> endian \<Rightarrow> comms_settings \<Rightarrow> inputs \<Rightarrow> bool" where
  "reads_addresses os e st i \<longleftrightarrow>
     (make_address os e (host_ip st) = None \<longrightarrow> bind_error i \<noteq> None) \<and>
     (address_error i \<noteq> None \<longleftrightarrow> make_address os e (timepix_ip st) = None)"

lemma start_fails:
  assumes "bind_error i \<noteq> None \<or> address_error i \<noteq> None"
  shows "Err ''An unknown error occurred in the server thread.'' \<in> set (comms_log (initial_server i st ce he))"
    "should_cancel (initial_server i st ce he)" "mLastCommandSource (initial_server i st ce he) = None"
    "answers (client_socket (initial_server i st ce he)) = []" "tpx_sent (initial_server i st ce he) = []"
    "udp_behind (initial_server i st ce he) = None" "tpx_pending (initial_server i st ce he) = None"
    "\<not> mIsConnected (initial_server i st ce he)"
    "phase (initial_server i st ce he) = Running \<or> phase (initial_server i st ce he) = Stopped \<and>
      cluster_behind (initial_server i st ce he) = None \<and> histogram_behind (initial_server i st ce he) = None"
  using assms by (auto simp: initial_server_defs run_catch_def split: option.split)

lemma cancelled_stops:
  assumes "should_cancel s" and "phase s = Running" and "mLastCommandSource s = None" and "tpx_pending s = None"
  shows "\<exists>s' es. iterate h i cs s = Inr s' \<and> phase s' = Stopped \<and> \<not> mIsConnected s' \<and>
    client_socket s' = client_socket s \<and> tpx_sent s' = tpx_sent s \<and> tpx_pending s' = None \<and>
    comms_log s' = comms_log s @ es \<and> cluster_behind s' = map_option cancel_thread (cluster_behind s) \<and>
    histogram_behind s' = map_option cancel_thread (histogram_behind s)"
  using assms
  by (cases "tpx_open s"; cases "close_error i")
    (simp_all add: iterate_def shutdown_def clearAnyClientRequest_def terminateConnection_def Let_def)

section \<open>Properties\<close>

text \<open>C24. A Timepix address in the panel that asio cannot read ends the server by its first
  iteration: the error is logged, no operation on the socket is started, nothing is sent to the
  Timepix, no client is answered, and the secondary threads are told to stop.\<close>

theorem unreadable_address_stops:
  assumes "getSettings p = Inr st" and "make_address os e (timepix_ip_text p) = None" and "reads_addresses os e st i"
  shows "\<exists>s. iterate h i' cs (initial_server i st ce he) = Inr s \<and> phase s = Stopped \<and>
    Err ''An unknown error occurred in the server thread.'' \<in> set (comms_log s) \<and>
    \<not> mIsConnected s \<and> tpx_pending s = None \<and> tpx_sent s = [] \<and> answers (client_socket s) = [] \<and>
    (\<forall>t. cluster_behind s = Some t \<longrightarrow> th_cancelled t) \<and> (\<forall>t. histogram_behind s = Some t \<longrightarrow> th_cancelled t)"
proof -
  have "timepix_ip st = timepix_ip_text p" using assms(1) by (auto simp: getSettings_def and_then_eq_Inr)
  with assms(2,3) have "bind_error i \<noteq> None \<or> address_error i \<noteq> None" by (simp add: reads_addresses_def)
  note f = start_fails [OF this, of st ce he]
  show ?thesis
  proof (cases "phase (initial_server i st ce he) = Running")
    case True
    from cancelled_stops [OF f(2) True f(3,7), of h i' cs] f(1,4,5) show ?thesis by (auto simp: cancel_thread_def)
  next
    case False
    with f show ?thesis by (simp add: iterate_def)
  qed
qed

lemma not_an_address: "make_address (portable_os unrep) e ''spidr'' = None"
proof -
  have "inet_pton6 ''spidr'' = None"
    by (simp add: inet_pton6_def pton_start_def pton_loop.simps pton_step_defs hex_value_def)
  moreover have "scan_u unrep ''spidr'' = None" by (simp add: scan_u_def is_space_def is_digit_def Let_def)
  then have "scan_dotted unrep (Suc k) ''spidr'' = []" for k by simp
  then have "inet_pton4 unrep ''spidr'' = None" by (simp add: inet_pton4_def numeral_eq_Suc)
  ultimately show ?thesis
    by (simp add: make_address_def make_address_v6_def make_address_v4_def portable_os_def c_str_def)
qed

text \<open>The panel as it opens on a host without adaptors, with a name instead of an address.\<close>

definition named_panel :: settings_panel where
  "named_panel = (new_settings_panel None)\<lparr>timepix_ip_text := ''spidr''\<rparr>"

definition failing_inputs :: inputs where
  "failing_inputs = first_inputs\<lparr>bind_error := Some ''from_string'', address_error := Some ''from_string''\<rparr>"

theorem unreadable_address_stops_witness:
  "\<exists>s st. getSettings named_panel = Inr st \<and>
    iterate test_host first_inputs [] (initial_server failing_inputs st (''a'', ''b'') (''c'', ''d'')) = Inr s \<and>
    phase s = Stopped \<and> tpx_pending s = None \<and> tpx_sent s = []"
proof -
  obtain st where st: "getSettings named_panel = Inr st" "timepix_ip st = ''spidr''"
    by (simp add: getSettings_def named_panel_def new_settings_panel_def updateIpList_def
        enumerate_ips_win32_def port_texts)
  have "reads_addresses (portable_os of_nat) Little st failing_inputs"
    using st(2) not_an_address by (simp add: reads_addresses_def failing_inputs_def)
  moreover have "make_address (portable_os of_nat) Little (timepix_ip_text named_panel) = None"
    using not_an_address by (simp add: named_panel_def)
  ultimately show ?thesis
    using unreadable_address_stops [OF st(1), of "portable_os of_nat" Little failing_inputs test_host first_inputs "[]"
        "(''a'', ''b'')" "(''c'', ''d'')"] st(1)
    by auto
qed

end
