(* ===== verification/Window.thy ===== *)
theory Window
  imports Settings
begin

text \<open>
  The user interface: \<open>LogWindow\<close>, \<open>StatusPanel\<close> and \<open>MainWindow\<close> (src/ui), the global
  logger (src/log.cpp), the common part of the background threads (src/BgThread.cpp) and
  \<open>main\<close>.  Qt is a parameter of the model only where it acts: which button the user presses,
  when the thread pool's thread ends, and when a queued signal is delivered.  Positions and
  sizes of windows are left out.
\<close>

section \<open>BgThread\<close>

record bg_thread =
  mShouldCancel :: bool
  emitted :: "log_entry list"
  threadDone :: nat

definition new_bg_thread :: bg_thread where
  "new_bg_thread = \<lparr>mShouldCancel = False, emitted = [], threadDone = 0\<rparr>"

definition shouldCancel :: "bg_thread \<Rightarrow> bool" where
  "shouldCancel t = mShouldCancel t"

definition cancel :: "bg_thread \<Rightarrow> bg_thread" where
  "cancel t = t\<lparr>mShouldCancel := True\<rparr>"

definition sendLog :: "string \<Rightarrow> bg_thread \<Rightarrow> bg_thread" where
  "sendLog str t = t\<lparr>emitted := emitted t @ [Log str]\<rparr>"

definition sendWarn :: "string \<Rightarrow> bg_thread \<Rightarrow> bg_thread" where
  "sendWarn str t = t\<lparr>emitted := emitted t @ [Warn str]\<rparr>"

definition sendErr :: "string \<Rightarrow> bg_thread \<Rightarrow> bg_thread" where
  "sendErr str t = t\<lparr>emitted := emitted t @ [Err str]\<rparr>"

text \<open>\<open>execute\<close> is the derived class's; the flag says that it ended by an exception.\<close>

definition run :: "(bg_thread \<Rightarrow> bg_thread \<times> bool) \<Rightarrow> bg_thread \<Rightarrow> bg_thread" where
  "run execute t =
     (let (t1, thrown) = execute t
      in if \<not> thrown then t1\<lparr>threadDone := threadDone t1 + 1\<rparr>
         else let t2 = sendErr ''An unknown exception has occurred. Shutting down server.'' t1
              in t2\<lparr>threadDone := threadDone t2 + 1\<rparr>)"

section \<open>LogWindow\<close>

record log_window =
  log_title :: string
  log_read_only :: bool
  log_html :: "string list"

definition new_log_window :: log_window where
  "new_log_window = \<lparr>log_title = ''Timepix3 Server Log'', log_read_only = True, log_html = []\<rparr>"

definition window_log :: "string \<Rightarrow> log_window \<Rightarrow> log_window" where
  "window_log str w = w\<lparr>log_html := log_html w @ [''<b>Log:</b> '' @ str]\<rparr>"

definition window_warn :: "string \<Rightarrow> log_window \<Rightarrow> log_window" where
  "window_warn str w =
     w\<lparr>log_html := log_html w @ [''<b style='' @ [CHR 0x22] @ ''color:orange'' @ [CHR 0x22] @ ''>Warning:</b> '' @ str]\<rparr>"

definition window_err :: "string \<Rightarrow> log_window \<Rightarrow> log_window" where
  "window_err str w =
     w\<lparr>log_html := log_html w @ [''<b style='' @ [CHR 0x22] @ ''color:red'' @ [CHR 0x22] @ ''>Error:</b> '' @ str]\<rparr>"

text \<open>\<open>connectToThread\<close>: each signal of the thread goes to the slot of its kind.\<close>

definition signal_to_window :: "log_entry \<Rightarrow> log_window \<Rightarrow> log_window" where
  "signal_to_window e w =
     (case e of Log str \<Rightarrow> window_log str w | Warn str \<Rightarrow> window_warn str w | Err str \<Rightarrow> window_err str w)"

section \<open>StatusPanel\<close>

record status_panel =
  status_title :: string
  status_label :: string
  status_text :: string
  status_style :: string

definition setServerRunning :: "bool \<Rightarrow> status_panel \<Rightarrow> status_panel" where
  "setServerRunning running p =
     (if running then p\<lparr>status_text := ''Running'', status_style := ''QLabel { color: green; }''\<rparr>
      else p\<lparr>status_text := ''Not Running'', status_style := ''QLabel { color: red; }''\<rparr>)"

definition new_status_panel :: status_panel where
  "new_status_panel =
     setServerRunning False
       \<lparr>status_title = ''Status'', status_label = ''Server:'', status_text = [], status_style = []\<rparr>"

section \<open>MainWindow\<close>

text \<open>\<open>mActiveThread\<close> points to a server thread, by its number.\<close>

record main_window =
  window_title :: string
  mLogWindow :: log_window
  mSettingsPanel :: settings_panel
  mStatusPanel :: status_panel
  launch_enabled :: bool
  stop_enabled :: bool
  mActiveThread :: "nat option"
  mManuallyCancelled :: bool

text \<open>
  The application: the window, the server threads that exist (with their settings and whether
  they have been cancelled), and the \<open>threadDone\<close> signals in the event queue, by sender.  A
  thread object is deleted by the pool once \<open>run\<close> has returned.
\<close>

record app =
  window :: main_window
  alive :: "(nat \<times> comms_settings) list"
  told_to_stop :: "nat list"
  queued_done :: "nat list"
  next_thread :: nat

definition logger_log :: "string \<Rightarrow> app \<Rightarrow> app" where
  "logger_log msg a = a\<lparr>window := (window a)\<lparr>mLogWindow := window_log msg (mLogWindow (window a))\<rparr>\<rparr>"

definition logger_warn :: "string \<Rightarrow> app \<Rightarrow> app" where
  "logger_warn msg a = a\<lparr>window := (window a)\<lparr>mLogWindow := window_warn msg (mLogWindow (window a))\<rparr>\<rparr>"

definition logger_err :: "string \<Rightarrow> app \<Rightarrow> app" where
  "logger_err msg a = a\<lparr>window := (window a)\<lparr>mLogWindow := window_err msg (mLogWindow (window a))\<rparr>\<rparr>"

text \<open>What the panels and buttons show while a server runs, or while none does.\<close>

definition show_running :: "bool \<Rightarrow> main_window \<Rightarrow> main_window" where
  "show_running running w =
     w\<lparr>mSettingsPanel := setEnabled (\<not> running) (mSettingsPanel w), launch_enabled := \<not> running,
       stop_enabled := running, mStatusPanel := setServerRunning running (mStatusPanel w)\<rparr>"

text \<open>An exception leaves the window as it was changed until then.\<close>

definition launchServer :: "app \<Rightarrow> app \<times> std_exn option" where
  "launchServer a =
     (let w = (window a)\<lparr>mManuallyCancelled := False\<rparr>;
          a1 = logger_log ''Starting server...'' (a\<lparr>window := show_running True w\<rparr>)
      in if mActiveThread w \<noteq> None
         then (a1, Some (Std_Runtime_Error ''Attempted to start a new server thread while one already exists''))
         else case getSettings (mSettingsPanel (window a1)) of
                Inl e \<Rightarrow> (a1, Some e)
              | Inr st \<Rightarrow>
                  (a1\<lparr>window := (window a1)\<lparr>mActiveThread := Some (next_thread a1)\<rparr>,
                      alive := alive a1 @ [(next_thread a1, st)], next_thread := next_thread a1 + 1\<rparr>, None))"

definition stopServer :: "app \<Rightarrow> app result" where
  "stopServer a =
     (let a1 = logger_log ''Stopping server...'' a;
          a2 = a1\<lparr>window := (window a1)\<lparr>mManuallyCancelled := True\<rparr>\<rparr>
      in case mActiveThread (window a2) of
           None \<Rightarrow> Inr a2
         | Some thread \<Rightarrow>
             if thread \<in> fst ` set (alive a2) then Inr (a2\<lparr>told_to_stop := told_to_stop a2 @ [thread]\<rparr>)
             else Inl Dangling)"

definition serverDone :: "app \<Rightarrow> app \<times> std_exn option" where
  "serverDone a =
     (let a1 = a\<lparr>window := (show_running False (window a))\<lparr>mActiveThread := None\<rparr>\<rparr>
      in if \<not> mManuallyCancelled (window a1) \<and> autoRestartChecked (mSettingsPanel (window a1))
         then launchServer (logger_log ''Restarting server...'' a1)
         else (a1, None))"

definition closeEvent :: "app \<Rightarrow> app result" where
  "closeEvent a = stopServer a"

definition new_window :: "string list list option \<Rightarrow> app" where
  "new_window adaptors =
     \<lparr>window =
        \<lparr>window_title = ''Timepix3 Server'', mLogWindow = new_log_window,
         mSettingsPanel = new_settings_panel adaptors, mStatusPanel = new_status_panel,
         launch_enabled = True, stop_enabled = False, mActiveThread = None, mManuallyCancelled = False\<rparr>,
      alive = [], told_to_stop = [], queued_done = [], next_thread = 0\<rparr>"

text \<open>\<open>existing\<close>: a main window is there already.\<close>

definition MainWindow :: "bool \<Rightarrow> bool \<Rightarrow> string list list option \<Rightarrow> app \<times> std_exn option" where
  "MainWindow existing autostart adaptors =
     (if existing then (new_window adaptors, Some (Std_Runtime_Error ''Attempted to open two MainWindows at once''))
      else if autostart then launchServer (new_window adaptors)
      else (new_window adaptors, None))"

text \<open>\<open>main\<close>: the arguments, and the window with what they ask for.\<close>

definition start_app :: "string list \<Rightarrow> string list list option \<Rightarrow> app \<times> std_exn option" where
  "start_app arguments adaptors =
     (let autostart = fold (\<lambda>arg found. if arg = ''--autostart'' then True else found) arguments False
      in MainWindow False autostart adaptors)"

section \<open>What can happen\<close>

text \<open>
  The buttons act only while enabled, the fields change only while the panel is.  A step that
  ends in an exception has no successor: Qt does not carry exceptions through its event loop.
\<close>

inductive app_step :: "app \<Rightarrow> app \<Rightarrow> bool" where
  launch_pressed: "launch_enabled (window a) \<Longrightarrow> launchServer a = (a', None) \<Longrightarrow> app_step a a'"
| stop_pressed: "stop_enabled (window a) \<Longrightarrow> stopServer a = Inr a' \<Longrightarrow> app_step a a'"
| closed: "closeEvent a = Inr a' \<Longrightarrow> app_step a a'"
| edited: "panel_enabled (mSettingsPanel (window a)) \<Longrightarrow> panel_enabled p \<Longrightarrow>
    app_step a (a\<lparr>window := (window a)\<lparr>mSettingsPanel := p\<rparr>\<rparr>)"
| signalled: "app_step a (a\<lparr>window := (window a)\<lparr>mLogWindow := signal_to_window e (mLogWindow (window a))\<rparr>\<rparr>)"
| thread_ends: "(thread, st) \<in> set (alive a) \<Longrightarrow>
    app_step a (a\<lparr>alive := filter (\<lambda>x. fst x \<noteq> thread) (alive a), queued_done := queued_done a @ [thread]\<rparr>)"
| delivered: "queued_done a = thread # rest \<Longrightarrow>
    serverDone (a\<lparr>queued_done := rest\<rparr>) = (a', None) \<Longrightarrow> app_step a a'"

inductive app_reachable :: "app \<Rightarrow> bool" where
  app_start: "start_app arguments adaptors = (a, None) \<Longrightarrow> app_reachable a"
| app_next: "app_reachable a \<Longrightarrow> app_step a a' \<Longrightarrow> app_reachable a'"

inductive_cases app_stepE: "app_step a a'"

section \<open>The invariant\<close>

text \<open>Either no server: nothing alive and nothing queued; or one, alive or with its signal queued.\<close>

definition app_inv :: "app \<Rightarrow> bool" where
  "app_inv a \<longleftrightarrow>
     (launch_enabled (window a) \<longleftrightarrow> mActiveThread (window a) = None) \<and>
     map fst (alive a) @ queued_done a = (case mActiveThread (window a) of None \<Rightarrow> [] | Some t \<Rightarrow> [t])"

lemma show_running_frame [simp]:
  "mActiveThread (show_running b w) = mActiveThread w"
  "mManuallyCancelled (show_running b w) = mManuallyCancelled w"
  "launch_enabled (show_running b w) = (\<not> b)"
  "stop_enabled (show_running b w) = b"
  by (simp_all add: show_running_def)

lemma launch_inv:
  assumes "mActiveThread (window a) = None" and "alive a = []" and "queued_done a = []"
    and "launchServer a = (a', None)"
  shows "app_inv a'"
  using assms by (auto simp: launchServer_def app_inv_def Let_def logger_log_def split: sum.splits)

lemma app_start_inv:
  assumes "start_app arguments adaptors = (a, None)"
  shows "app_inv a"
proof -
  let ?auto = "fold (\<lambda>arg found. if arg = ''--autostart'' then True else found) arguments False"
  have eq: "MainWindow False ?auto adaptors = (a, None)" using assms by (simp only: start_app_def Let_def)
  show ?thesis
  proof (cases ?auto)
    case True
    with eq have "launchServer (new_window adaptors) = (a, None)" by (simp only: MainWindow_def if_True if_False)
    then show ?thesis by (rule launch_inv [rotated 3]) (simp_all add: new_window_def)
  next
    case False
    with eq have "a = new_window adaptors" by (simp only: MainWindow_def if_False prod.inject)
    then show ?thesis by (simp add: app_inv_def new_window_def)
  qed
qed

lemma stop_inv: "stopServer a = Inr a' \<Longrightarrow> app_inv a \<Longrightarrow> app_inv a'"
  by (auto simp: stopServer_def Let_def logger_log_def app_inv_def split: option.splits if_splits)

lemma done_inv:
  assumes "app_inv a" and "queued_done a = thread # rest"
    and "serverDone (a\<lparr>queued_done := rest\<rparr>) = (a', None)"
  shows "app_inv a'"
proof -
  have e: "alive a = []" "rest = []"
    using assms(1,2) by (auto simp: app_inv_def append_eq_Cons_conv split: option.splits)
  show ?thesis
  proof (cases "\<not> mManuallyCancelled (window a) \<and> autoRestartChecked (mSettingsPanel (window a))")
    case True
    with assms(3) e show ?thesis
      by (intro launch_inv [of "logger_log ''Restarting server...''
          (a\<lparr>queued_done := rest, window := (show_running False (window a))\<lparr>mActiveThread := None\<rparr>\<rparr>)"])
        (auto simp: serverDone_def Let_def logger_log_def show_running_def autoRestartChecked_def setEnabled_def)
  next
    case False
    with assms(3) e show ?thesis
      by (auto simp: serverDone_def Let_def show_running_def autoRestartChecked_def setEnabled_def app_inv_def)
  qed
qed

lemma ends_inv:
  assumes "app_inv a" and "(thread, st) \<in> set (alive a)"
  shows "app_inv (a\<lparr>alive := filter (\<lambda>x. fst x \<noteq> thread) (alive a), queued_done := queued_done a @ [thread]\<rparr>)"
proof -
  from assms obtain t where t: "mActiveThread (window a) = Some t" "map fst (alive a) = [t]" "queued_done a = []"
    by (auto simp: app_inv_def append_eq_Cons_conv split: option.splits)
  with assms(2) have "alive a = [(thread, st)]" "t = thread" by (auto simp: map_eq_Cons_conv)
  with assms(1) t show ?thesis by (simp add: app_inv_def)
qed

lemma app_step_inv: "app_step a a' \<Longrightarrow> app_inv a \<Longrightarrow> app_inv a'"
proof (induction rule: app_step.induct)
  case (launch_pressed a a')
  then show ?case by (intro launch_inv [of a a']) (auto simp: app_inv_def)
next
  case (stop_pressed a a')
  then show ?case by (blast intro: stop_inv)
next
  case (closed a a')
  then show ?case by (auto simp: closeEvent_def intro: stop_inv)
next
  case (delivered a thread rest a')
  then show ?case by (blast intro: done_inv)
next
  case (thread_ends thread st a)
  then show ?case by (blast intro: ends_inv)
qed (simp_all add: app_inv_def)

lemma app_reachable_inv: "app_reachable a \<Longrightarrow> app_inv a"
  by (induction rule: app_reachable.induct) (auto intro: app_start_inv app_step_inv)

section \<open>Properties\<close>

text \<open>C34. The window never has two servers: at most one thread is alive, the launch button is enabled
  exactly when there is none, and neither the button nor the automatic restart ever throws
  because a server exists already.\<close>

theorem one_server_at_a_time:
  assumes "app_reachable a"
  shows "length (alive a) \<le> 1 \<and>
    (launch_enabled (window a) \<longrightarrow> alive a = [] \<and>
      (\<forall>what. snd (launchServer a) \<noteq> Some (Std_Runtime_Error what))) \<and>
    (\<forall>what. snd (serverDone a) \<noteq> Some (Std_Runtime_Error what))"
proof -
  have inv: "app_inv a" by (rule app_reachable_inv [OF assms])
  have stoul: "stoul s \<noteq> Inl (Std_Runtime_Error what)" for s what
    by (simp add: stoul_def Let_def split: list.splits prod.splits)
  have settings: "getSettings p \<noteq> Inl (Std_Runtime_Error what)" for p what
    using stoul by (auto simp: getSettings_def and_then_eq_Inl)
  have launch: "snd (launchServer b) \<noteq> Some (Std_Runtime_Error what)"
    if "mActiveThread (window b) = None" for b what
    using that settings by (auto simp: launchServer_def Let_def logger_log_def split: sum.splits)
  have "snd (serverDone a) \<noteq> Some (Std_Runtime_Error what)" for what
    using launch by (auto simp: serverDone_def Let_def logger_log_def)
  moreover have "length (map fst (alive a)) \<le> 1"
    using inv by (auto simp: app_inv_def append_eq_Cons_conv split: option.splits)
  ultimately show ?thesis using inv launch by (auto simp: app_inv_def)
qed

definition fresh_app :: app where
  "fresh_app = new_window (Some [[''192.168.100.1'']])"

lemma fresh_reachable: "app_reachable fresh_app"
  by (rule app_start [of "[]" "Some [[''192.168.100.1'']]"]) (simp add: start_app_def MainWindow_def fresh_app_def)

theorem one_server_at_a_time_witness:
  "length (alive fresh_app) \<le> 1 \<and> snd (launchServer fresh_app) \<noteq> Some (Std_Runtime_Error [])"
  using one_server_at_a_time [OF fresh_reachable] by (simp add: fresh_app_def new_window_def)

text \<open>C35. Stopping the server (by the button or by closing the window) uses a deleted thread exactly
  when the thread has ended and its signal still waits in the event queue.\<close>

theorem stop_dangles_iff:
  assumes "app_reachable a"
  shows "stopServer a = Inl Dangling \<longleftrightarrow> mActiveThread (window a) \<noteq> None \<and> queued_done a \<noteq> []"
proof -
  from app_reachable_inv [OF assms] consider (none) "mActiveThread (window a) = None"
    | (running) t where "mActiveThread (window a) = Some t" "map fst (alive a) = [t]" "queued_done a = []"
    | (ended) t where "mActiveThread (window a) = Some t" "alive a = []" "queued_done a = [t]"
    by (auto simp: app_inv_def append_eq_Cons_conv split: option.splits)
  then show ?thesis
  proof cases
    case none
    then show ?thesis by (simp add: stopServer_def Let_def logger_log_def)
  next
    case (running t)
    then have "t \<in> fst ` set (alive a)" by (metis list.set_intros(1) set_map)
    with running show ?thesis by (auto simp: stopServer_def Let_def logger_log_def)
  next
    case (ended t)
    then show ?thesis by (simp add: stopServer_def Let_def logger_log_def)
  qed
qed


definition launched_app :: app where
  "launched_app = fst (launchServer fresh_app)"

definition ended_app :: app where
  "ended_app = launched_app\<lparr>alive := filter (\<lambda>x. fst x \<noteq> 0) (alive launched_app),
     queued_done := queued_done launched_app @ [0]\<rparr>"

lemma launch_fresh:
  "\<exists>st. alive launched_app = [(0, st)] \<and> launchServer fresh_app = (launched_app, None) \<and>
     mActiveThread (window launched_app) = Some 0"
  by (simp add: launched_app_def fresh_app_def new_window_def launchServer_def Let_def logger_log_def
      show_running_def setEnabled_def getSettings_def new_settings_panel_def updateIpList_def port_texts)

lemma ended_reachable: "app_reachable ended_app" "mActiveThread (window ended_app) = Some 0"
    "queued_done ended_app \<noteq> []"
proof -
  obtain st where st: "alive launched_app = [(0, st)]" "launchServer fresh_app = (launched_app, None)"
    "mActiveThread (window launched_app) = Some 0" using launch_fresh by blast
  have "app_step fresh_app launched_app"
    by (rule launch_pressed) (simp_all add: st(2), simp add: fresh_app_def new_window_def)
  then have "app_reachable launched_app" by (rule app_next [OF fresh_reachable])
  then show "app_reachable ended_app" unfolding ended_app_def
    by (rule app_next) (rule thread_ends [of 0 st], simp add: st(1))
  show "mActiveThread (window ended_app) = Some 0" "queued_done ended_app \<noteq> []"
    by (simp_all add: ended_app_def st(3))
qed

theorem stop_dangles_iff_witness: "stopServer ended_app = Inl Dangling"
  using stop_dangles_iff [OF ended_reachable(1)] ended_reachable(2,3) by simp

text \<open>A port field without a number makes the launch throw after the window has switched to its
  running look: no thread exists, yet only the stop button is enabled.\<close>

theorem bad_port_leaves_window_running:
  assumes "mActiveThread (window a) = None" and "stoul (host_port_text (mSettingsPanel (window a))) = Inl e"
  shows "\<exists>a'. launchServer a = (a', Some e) \<and> alive a' = alive a \<and> mActiveThread (window a') = None \<and>
    \<not> launch_enabled (window a') \<and> stop_enabled (window a') \<and>
    status_text (mStatusPanel (window a')) = ''Running''"
  using assms
  by (simp add: launchServer_def Let_def logger_log_def getSettings_def show_running_def setEnabled_def
      setServerRunning_def)

theorem bad_port_leaves_window_running_witness:
  "\<exists>a'. launchServer (fresh_app\<lparr>window := (window fresh_app)
        \<lparr>mSettingsPanel := (mSettingsPanel (window fresh_app))\<lparr>host_port_text := ''auto''\<rparr>\<rparr>\<rparr>) =
      (a', Some Invalid_Argument) \<and> alive a' = [] \<and> \<not> launch_enabled (window a')"
  using bad_port_leaves_window_running [of "fresh_app\<lparr>window := (window fresh_app)
        \<lparr>mSettingsPanel := (mSettingsPanel (window fresh_app))\<lparr>host_port_text := ''auto''\<rparr>\<rparr>\<rparr>" Invalid_Argument]
  by (auto simp: fresh_app_def new_window_def stoul_def is_space_def is_digit_def Let_def)

end
