(* ===== verification/DummySpidr.thy ===== *)
theory DummySpidr
  imports Timepix Binary64
begin

text \<open>
  The stand-in board of the tests (src/test/DummySpidr.cpp): it decodes the server's
  commands, answers some of them and answers everything else with 20 zero bytes.  Its host
  has a byte order of its own.  \<open>dummy_reads\<close> counts the reads waiting on its socket,
  \<open>dummy_sent\<close> the messages it has sent; a completed send starts one more read.
\<close>

section \<open>State\<close>

record dummy_board =
  mBiasVoltage :: dbl
  dummy_sent :: "bytes list"
  dummy_reads :: int

definition init_dummy :: dummy_board where
  "init_dummy = \<lparr>mBiasVoltage = Fin 12, dummy_sent = [], dummy_reads = 0\<rparr>"

definition waitForTcpCommand :: "dummy_board \<Rightarrow> dummy_board" where
  "waitForTcpCommand s = s\<lparr>dummy_reads := dummy_reads s + 1\<rparr>"

definition acceptTcp :: "dummy_board \<Rightarrow> dummy_board" where
  "acceptTcp s = waitForTcpCommand s"

section \<open>Answers\<close>

definition response_words :: "endian \<Rightarrow> tpx_command \<Rightarrow> u32 list \<Rightarrow> u32 list" where
  "response_words e command data =
     (let reply_cmd = tpx_code command OR tpx_code CMD_REPLY;
          size = max 20 (16 + 4 * of_nat (length data)) :: u32
      in [htonl e reply_cmd, htonl e size, htonl e 0, htonl e 0] @
         (if data = [] then [htonl e 0] else map (htonl e) data))"

text \<open>The completion of the send is taken to follow at once: it waits for the next command.\<close>

definition sendTcpResponse :: "endian \<Rightarrow> tpx_command \<Rightarrow> u32 list \<Rightarrow> dummy_board \<Rightarrow> dummy_board" where
  "sendTcpResponse e command data s =
     waitForTcpCommand
       (s\<lparr>dummy_sent := dummy_sent s @ [store_words e 4 (response_words e command data)]\<rparr>)"

definition sendTcpError :: "dummy_board \<Rightarrow> dummy_board" where
  "sendTcpError s = waitForTcpCommand (s\<lparr>dummy_sent := dummy_sent s @ [replicate 20 0]\<rparr>)"

text \<open>The twelve handlers: a fixed answer, or the bias voltage.\<close>

datatype dummy_handler = Answer tpx_command "u32 list" | Get_Bias | Set_Bias

definition dummy_handlers :: "(tpx_command \<times> dummy_handler) list" where
  "dummy_handlers =
     [(CMD_GET_SOFTWVERSION, Answer CMD_GET_SOFTWVERSION [1]),
      (CMD_GET_FIRMWVERSION, Answer CMD_GET_FIRMWVERSION [1]),
      (CMD_GET_CHIPBOARDID, Answer CMD_GET_FIRMWVERSION [0x1010002]),
      (CMD_GET_DEVICEIDS, Answer CMD_GET_DEVICEIDS [1, 2147483647, 2147483647, 2147483647]),
      (CMD_GET_REMOTETEMP, Answer CMD_GET_REMOTETEMP [0]),
      (CMD_GET_LOCALTEMP, Answer CMD_GET_LOCALTEMP [0]),
      (CMD_GET_FPGATEMP, Answer CMD_GET_FPGATEMP [0]),
      (CMD_GET_FANSPEED, Answer CMD_GET_FANSPEED [0]),
      (CMD_GET_PRESSURE, Answer CMD_GET_PRESSURE [0]),
      (CMD_GET_HUMIDITY, Answer CMD_GET_HUMIDITY [0]),
      (CMD_GET_SPIDR_ADC, Get_Bias),
      (CMD_SET_BIAS_ADJUST, Set_Bias)]"

definition dbl_to_u32 :: "dbl \<Rightarrow> u32 result" where
  "dbl_to_u32 d =
     (case d of
        Fin q \<Rightarrow> (let z = trunc_rat q in if 0 \<le> z \<and> z < 2 ^ 32 then Inr (word_of_int z) else Inl Bad_Cast)
      | _ \<Rightarrow> Inl Bad_Cast)"

text \<open>\<open>x - 4095\<close> is the sum with the negated constant.\<close>

definition adc_code :: "dbl \<Rightarrow> u32 result" where
  "adc_code bias =
     and_then (dbl_to_u32 ((bias * Fin 10 * Fin 4096 + Fin (- 4095)) / Fin 1500))
       (\<lambda>c. Inr (c AND 0xFFF))"

definition voltage_of :: "u32 \<Rightarrow> dbl" where
  "voltage_of d = dbl_of_int (uint d) * Fin 92 / Fin 4095 + Fin 12"

definition run_handler ::
  "endian \<Rightarrow> dummy_handler \<Rightarrow> u32 list \<Rightarrow> dummy_board \<Rightarrow> (dummy_board \<times> bool) result" where
  "run_handler e h data s =
     (if length data \<noteq> 1 then Inr (s, False)
      else case h of
             Answer command reply \<Rightarrow> Inr (sendTcpResponse e command reply s, True)
           | Get_Bias \<Rightarrow> and_then (adc_code (mBiasVoltage s)) (\<lambda>c.
               Inr (sendTcpResponse e CMD_GET_SPIDR_ADC [c] s, True))
           | Set_Bias \<Rightarrow> Inr (sendTcpResponse e CMD_SET_BIAS_ADJUST [data ! 0]
               (s\<lparr>mBiasVoltage := voltage_of (data ! 0)\<rparr>), True))"

definition handleTcpCommand :: "endian \<Rightarrow> tpx_command \<Rightarrow> u32 list \<Rightarrow> dummy_board \<Rightarrow> dummy_board result" where
  "handleTcpCommand e command data s =
     (case map_of dummy_handlers command of
        None \<Rightarrow> Inr (sendTcpError s)
      | Some h \<Rightarrow> and_then (run_handler e h data s) (\<lambda>(s', success).
          Inr (if success then waitForTcpCommand s' else sendTcpError s')))"

section \<open>Reading a command\<close>

definition readTcp :: "endian \<Rightarrow> bytes \<Rightarrow> nat \<Rightarrow> dummy_board \<Rightarrow> dummy_board result" where
  "readTcp e buf bytes s0 =
     (let s = s0\<lparr>dummy_reads := dummy_reads s0 - 1\<rparr>
      in if bytes = 0 then Inr s
         else if bytes < 20 then Inr (sendTcpError s)
         else let com_int = reply_word e buf 0; packet_size = reply_word e buf 1;
                  zero = reply_word e buf 2; chip = reply_word e buf 3
              in if zero \<noteq> 0 \<or> chip \<noteq> 0 \<or> unat packet_size \<noteq> bytes \<or> packet_size mod 4 \<noteq> 0
                 then Inr (sendTcpError s)
                 else and_then (reply_data e buf (unat (packet_size - 16) div 4)) (\<lambda>data.
                        handleTcpCommand e (TpxCommand com_int) data s))"

section \<open>The two ends of the protocol agree\<close>

definition padded :: "u32 list \<Rightarrow> u32 list" where
  "padded data = (if data = [] then [0] else data)"

lemma readTcp_command:
  assumes "length data \<le> 252" and "command_bytes e cmd data False = Inr bs"
  shows "readTcp e' (bs @ rest) (length bs) s =
    handleTcpCommand e' cmd (padded data) (s\<lparr>dummy_reads := dummy_reads s - 1\<rparr>)"
proof -
  define n where "n = length (padded data)"
  have n: "1 \<le> n" "n \<le> 252" using assms(1) by (auto simp: n_def padded_def Suc_le_eq)
  define nb where "nb = (of_nat (16 + 4 * n) :: u32)"
  define ws where "ws = [tpx_code cmd, nb, 0, 0] @ padded data"
  have m: "max (4 + length data) 5 * 4 = 16 + 4 * n" by (cases data) (simp_all add: n_def padded_def)
  have bs: "bs = concat (map (to_be 4) ws)"
    using assms(2) command_bytes_wire [OF assms(1), of e cmd False]
    by (simp add: ws_def nb_def m padded_def wire_code_def)
  have len: "length ws = 4 + n" by (simp add: ws_def n_def)
  have word: "reply_word e' (concat (map (to_be 4) ws) @ rest) k = ws ! k" if "k < 4 + n" for k
    using that by (intro reply_word_wire) (simp add: len)
  have w: "ws ! 0 = tpx_code cmd" "ws ! Suc 0 = nb" "ws ! 2 = 0" "ws ! 3 = 0" by (simp_all add: ws_def)
  have num: "unat nb = 16 + 4 * n" by (simp only: nb_def unat_of_nat) (use n in simp)
  then have "16 \<le> nb" by (simp only: word_le_nat_alt) simp
  then have sub: "unat (nb - 16) = 4 * n" using num unat_sub by fastforce
  have "unat (nb mod 4) = 0" using num by (simp add: unat_mod)
  then have mod4: "nb mod 4 = 0" by (simp add: unat_eq_0)
  have "map (\<lambda>i. reply_word e' (concat (map (to_be 4) ws) @ rest) (4 + i)) [0..<n] = padded data"
    by (rule nth_equalityI) (simp_all add: n_def word[unfolded n_def], simp add: ws_def)
  then have "reply_data e' (concat (map (to_be 4) ws) @ rest) n = Inr (padded data)"
    by (simp add: reply_data_def length_wire len del: map_map)
  then show ?thesis
    unfolding bs length_wire len using n num sub mod4 by (simp add: readTcp_def Let_def word w)
qed

lemma response_is_reply:
  assumes "length data \<le> 252"
  shows "store_words e 4 (response_words e cmd data) = reply_bytes cmd 0 data"
proof -
  have "max 20 (16 + 4 * of_nat (length data)) = (of_nat (16 + 4 * length (padded data)) :: u32)"
  proof (cases "data = []")
    case True
    then show ?thesis by (simp add: padded_def)
  next
    case False
    then have "1 \<le> length data" by (simp add: Suc_le_eq)
    define nb where "nb = (of_nat (16 + 4 * length data) :: u32)"
    have "unat nb = 16 + 4 * length data" by (simp only: nb_def unat_of_nat) (use assms in simp)
    then have "20 \<le> nb" using \<open>1 \<le> length data\<close> by (simp only: word_le_nat_alt) simp
    then have "max 20 nb = nb" by (simp add: max_def)
    with False show ?thesis by (simp add: padded_def nb_def)
  qed
  then have "response_words e cmd data = map (htonl e)
      ([tpx_code cmd OR tpx_code CMD_REPLY, of_nat (16 + 4 * length (padded data)), 0, 0] @ padded data)"
    by (simp only: response_words_def Let_def padded_def) simp
  then show ?thesis by (simp only: net32.wire_words reply_bytes_def Let_def padded_def)
qed


section \<open>Every board state\<close>

text \<open>The states of a board that has read any messages, commands of the server or not.\<close>

inductive board_state :: "endian \<Rightarrow> dummy_board \<Rightarrow> bool" for e where
  start: "board_state e init_dummy"
| accept: "board_state e s \<Longrightarrow> board_state e (acceptTcp s)"
| read: "board_state e s \<Longrightarrow> readTcp e buf bytes s = Inr s' \<Longrightarrow> board_state e s'"

text \<open>The bias voltage stays in a range in which its conversion is defined.\<close>

definition bias_fits :: "dummy_board \<Rightarrow> bool" where
  "bias_fits s \<longleftrightarrow> (\<exists>q. mBiasVoltage s = Fin q \<and> 12 \<le> q \<and> q \<le> 96492562)"

lemma rnd_ints:
  assumes "of_int a \<le> q" "q \<le> of_int b" "0 \<le> a" "b < 2 ^ 53"
  shows "\<exists>v. rnd q = Fin v \<and> of_int a \<le> v \<and> v \<le> of_int b"
proof -
  have "of_int a \<le> (of_int b :: rat)" using assms(1,2) by linarith
  then have ab: "a \<le> b" by simp
  have "dbl_repr0 (of_int n)" if "0 \<le> n" "n \<le> b" for n
    using that assms(4) repr_int [of n] by (cases "n = 0") (simp_all add: dbl_repr0_def)
  then show ?thesis using assms ab by (intro rnd_between0) simp_all
qed

lemma voltage_fits: "\<exists>q. voltage_of d = Fin q \<and> 12 \<le> q \<and> q \<le> 96492562"
proof -
  have u: "0 \<le> uint d" "uint d < 2 ^ 32" using uint_bounded [of d] by simp_all
  then have d: "dbl_of_int (uint d) = Fin (of_int (uint d))" by (intro dbl_of_int_exact) simp_all
  have "of_int (uint d) \<le> (of_int (2 ^ 32) :: rat)" using u(2) by (simp only: of_int_le_iff)
  moreover have "(0 :: rat) \<le> of_int (uint d)" using u(1) by (simp only: of_int_0_le_iff)
  ultimately have "of_int 0 \<le> of_int (uint d) * (92 :: rat)" "of_int (uint d) * 92 \<le> (of_int 395136991232 :: rat)" by simp_all
  from rnd_ints [OF this] obtain v where v: "rnd (of_int (uint d) * 92) = Fin v" "0 \<le> v" "v \<le> 395136991232" by auto
  then have "of_int 0 \<le> v / 4095" "v / 4095 \<le> of_int 96492550" by simp_all
  from rnd_ints [OF this] obtain w where w: "rnd (v / 4095) = Fin w" "0 \<le> w" "w \<le> 96492550" by auto
  then have "of_int 12 \<le> w + 12" "w + 12 \<le> of_int 96492562" by simp_all
  from rnd_ints [OF this] obtain x where "rnd (w + 12) = Fin x" "12 \<le> x" "x \<le> 96492562" by auto
  then show ?thesis by (simp add: voltage_of_def d times_dbl_def divide_dbl_def plus_dbl_def v(1) [simplified] w(1))
qed

lemma adc_code_total:
  assumes "bias_fits s"
  shows "\<exists>c. adc_code (mBiasVoltage s) = Inr c \<and> c \<le> 0xFFF"
proof -
  obtain q where q: "mBiasVoltage s = Fin q" "12 \<le> q" "q \<le> 96492562" using assms by (auto simp: bias_fits_def)
  then have "of_int 120 \<le> q * 10" "q * 10 \<le> of_int 964925620" by simp_all
  from rnd_ints [OF this] obtain v where v: "rnd (q * 10) = Fin v" "120 \<le> v" "v \<le> 964925620" by auto
  then have "of_int 491520 \<le> v * 4096" "v * 4096 \<le> of_int 3952335339520" by simp_all
  from rnd_ints [OF this] obtain w where w: "rnd (v * 4096) = Fin w" "491520 \<le> w" "w \<le> 3952335339520" by auto
  then have "of_int 487425 \<le> w - 4095" "w - 4095 \<le> of_int 3952335335425" by simp_all
  from rnd_ints [OF this] obtain x where x: "rnd (w - 4095) = Fin x" "487425 \<le> x" "x \<le> 3952335335425" by auto
  then have "of_int 324 \<le> x / 1500" "x / 1500 \<le> of_int 2634890224" by simp_all
  from rnd_ints [OF this] obtain y where y: "rnd (x / 1500) = Fin y" "324 \<le> y" "y \<le> 2634890224" by auto
  then have "0 \<le> \<lfloor>y\<rfloor>" "\<lfloor>y\<rfloor> < 2 ^ 32" by (simp_all add: le_floor_iff floor_less_iff)
  then have "dbl_to_u32 (Fin y) = Inr (word_of_int \<lfloor>y\<rfloor>)" using y(2) by (simp add: dbl_to_u32_def trunc_rat_def)
  then have "adc_code (mBiasVoltage s) = Inr (word_of_int \<lfloor>y\<rfloor> AND 0xFFF)"
    by (simp add: adc_code_def q(1) times_dbl_def plus_dbl_def divide_dbl_def v(1) w(1) x(1) y(1))
  then show ?thesis by (simp add: word_and_le1)
qed

lemma sends_keep_bias [simp]:
  "mBiasVoltage (sendTcpResponse e c data s) = mBiasVoltage s" "mBiasVoltage (sendTcpError s) = mBiasVoltage s"
  "mBiasVoltage (waitForTcpCommand s) = mBiasVoltage s"
  by (simp_all add: sendTcpResponse_def sendTcpError_def waitForTcpCommand_def)

lemma run_handler_bias: "run_handler e h data s = Inr (s', x) \<Longrightarrow> bias_fits s \<Longrightarrow> bias_fits s'"
  using voltage_fits by (auto simp: run_handler_def and_then_eq_Inr bias_fits_def split: if_splits dummy_handler.splits)

lemma readTcp_bias: "readTcp e buf n s = Inr s' \<Longrightarrow> bias_fits s \<Longrightarrow> bias_fits s'"
  using run_handler_bias
  by (fastforce simp: readTcp_def handleTcpCommand_def Let_def and_then_eq_Inr bias_fits_def
      split: if_splits option.splits)

lemma board_state_bias: "board_state e s \<Longrightarrow> bias_fits s"
  by (induction rule: board_state.induct)
    (auto simp: acceptTcp_def intro: readTcp_bias, simp_all add: bias_fits_def init_dummy_def)

section \<open>Properties\<close>

lemma handlers_answer:
  "map_of dummy_handlers c = Some h \<Longrightarrow> tpx_code c < 0x10000 \<and> (case h of
     Answer r ws \<Rightarrow> r = (if c = CMD_GET_CHIPBOARDID then CMD_GET_FIRMWVERSION else c) \<and> ws \<noteq> [] \<and> length ws \<le> 252
   | Get_Bias \<Rightarrow> c = CMD_GET_SPIDR_ADC | Set_Bias \<Rightarrow> c = CMD_SET_BIAS_ADJUST)"
proof -
  assume "map_of dummy_handlers c = Some h"
  then have "(c, h) \<in> set dummy_handlers" by (rule map_of_SomeD)
  moreover have "list_all (\<lambda>(c, h). tpx_code c < 0x10000 \<and> (case h of
      Answer r ws \<Rightarrow> r = (if c = CMD_GET_CHIPBOARDID then CMD_GET_FIRMWVERSION else c) \<and> ws \<noteq> [] \<and> length ws \<le> 252
    | Get_Bias \<Rightarrow> c = CMD_GET_SPIDR_ADC | Set_Bias \<Rightarrow> c = CMD_SET_BIAS_ADJUST)) dummy_handlers"
    by (simp add: dummy_handlers_def)
  ultimately have "case (c, h) of (c, h) \<Rightarrow> tpx_code c < 0x10000 \<and> (case h of
      Answer r ws \<Rightarrow> r = (if c = CMD_GET_CHIPBOARDID then CMD_GET_FIRMWVERSION else c) \<and> ws \<noteq> [] \<and> length ws \<le> 252
    | Get_Bias \<Rightarrow> c = CMD_GET_SPIDR_ADC | Set_Bias \<Rightarrow> c = CMD_SET_BIAS_ADJUST)" unfolding list_all_iff by (rule bspec [rotated])
  then show ?thesis by simp
qed

text \<open>The answer the server should read: the words of the handler's answer, the bias voltage's
  code, or the data sent.\<close>

fun answer_words :: "dummy_handler \<Rightarrow> u32 list \<Rightarrow> dummy_board \<Rightarrow> u32 list \<Rightarrow> bool" where
  "answer_words (Answer r v) data s ws = (ws = v)"
| "answer_words Get_Bias data s ws = (\<exists>w. ws = [w] \<and> w \<le> 0xFFF \<and> adc_code (mBiasVoltage s) = Inr w)"
| "answer_words Set_Bias data s ws = (ws = padded data)"

lemma board_answers:
  assumes "bias_fits s" "map_of dummy_handlers c = Some h" "length (padded data) = 1"
  shows "\<exists>s' r ws. handleTcpCommand e c (padded data) s = Inr s' \<and> dummy_sent s' = dummy_sent s @ [reply_bytes r 0 ws] \<and>
    r = (if c = CMD_GET_CHIPBOARDID then CMD_GET_FIRMWVERSION else c) \<and> tpx_code r < 0x10000 \<and>
    ws \<noteq> [] \<and> length ws \<le> 252 \<and> answer_words h data s ws"
proof -
  obtain w where w: "padded data = [w]" using assms(3) by (auto simp: length_Suc_conv)
  obtain a where a: "adc_code (mBiasVoltage s) = Inr a" "a \<le> 0xFFF" using adc_code_total [OF assms(1)] by blast
  note h = handlers_answer [OF assms(2)]
  have run: "handleTcpCommand e c (padded data) s = and_then (run_handler e h [w] s) (\<lambda>(s', success).
      Inr (if success then waitForTcpCommand s' else sendTcpError s'))"
    by (simp add: handleTcpCommand_def assms(2) w)
  have "tpx_code CMD_GET_FIRMWVERSION < 0x10000" by simp
  then show ?thesis
    unfolding run using h a by (cases h)
      (auto simp: run_handler_def sendTcpResponse_def waitForTcpCommand_def response_is_reply w)
qed

lemma zeros_not_a_reply:
  "decode_reply e (replicate 20 0 @ rest) (length (replicate 20 (0 :: u8))) =
     Inr ([Err ''Received a packet without the REPLY bit set''], None)"
proof -
  have "concat (map (to_be 4) [0, 0, 0, 0, 0 :: u32]) = replicate 20 0"
    by (simp add: to_be_def to_le_def eval_nat_numeral upt_rec)
  then have "reply_word e (replicate 20 0 @ rest) 0 = 0"
    using reply_word_wire [of 0 "[0, 0, 0, 0, 0]" e rest] by simp
  then show ?thesis by (simp add: decode_reply_def)
qed



text \<open>Asked for the chip board's identity, the test board answers with the command code of a
  firmware version, and every successful exchange leaves it with one more read in progress
  than before: it waits for the next command both when the handler returns and when the
  answer has been sent.\<close>

theorem board_answers_chipboard_as_firmware:
  assumes "length data \<le> 1" and "command_bytes e CMD_GET_CHIPBOARDID data False = Inr bs"
  shows "\<exists>s'. readTcp e' (bs @ rest) (length bs) s = Inr s' \<and>
    dummy_sent s' = dummy_sent s @ [reply_bytes CMD_GET_FIRMWVERSION 0 [0x1010002]] \<and>
    dummy_reads s' = dummy_reads s + 1"
proof -
  have d: "length data \<le> 252" using assms(1) by simp
  have "length (padded data) = 1" using assms(1) by (cases data) (simp_all add: padded_def)
  moreover have "map_of dummy_handlers CMD_GET_CHIPBOARDID = Some (Answer CMD_GET_FIRMWVERSION [0x1010002])"
    by (simp add: dummy_handlers_def)
  ultimately show ?thesis
    unfolding readTcp_command [OF d assms(2)]
    by (simp add: handleTcpCommand_def run_handler_def sendTcpResponse_def waitForTcpCommand_def
        response_is_reply)
qed

theorem board_answers_chipboard_as_firmware_witness:
  "\<exists>bs s'. command_bytes Little CMD_GET_CHIPBOARDID [] False = Inr bs \<and>
    readTcp Little (bs @ []) (length bs) init_dummy = Inr s' \<and> dummy_reads s' = dummy_reads init_dummy + 1"
proof -
  obtain bs where bs: "command_bytes Little CMD_GET_CHIPBOARDID [] False = Inr bs"
    using command_bytes_wire [of "[]" Little CMD_GET_CHIPBOARDID False] by auto
  show ?thesis
    using board_answers_chipboard_as_firmware [OF _ bs, of Little "[]" init_dummy] bs by auto
qed

end
