(* ===== verification/Utf8.thy ===== *)
theory Utf8
  imports Prelude
begin

text \<open>
  Characters and UTF-8 in toml++ (src/ext/toml/include/toml.hpp), the library that reads
  configuration files: the classes of code points its parser asks for, and the table-driven
  decoder of byte sequences.  The library is compiled with its defaults (version 1.0.0 of the
  language, nothing unreleased).  \<open>TOML_UNREACHABLE\<close> is undefined behaviour, so a predicate that
  can run into it is fallible.
\<close>

section \<open>Classes of code points\<close>

definition is_ascii_horizontal_whitespace :: "u32 \<Rightarrow> bool" where
  "is_ascii_horizontal_whitespace c \<longleftrightarrow> c = 0x09 \<or> c = 0x20"

definition is_non_ascii_horizontal_whitespace :: "u32 \<Rightarrow> bool result" where
  "is_non_ascii_horizontal_whitespace c =
     (if c < 0xA0 \<or> 0xFEFF < c then Inr False
      else
        let child_index_0 = ((ucast c :: u64) - 0xA0) div 0x3FA
        in if push_bit (unat child_index_0) 1 AND (0x7FFFFFFFFFFFF75E :: u64) \<noteq> 0 then Inr False
           else if c = 0xA0 \<or> c = 0x3000 \<or> c = 0xFEFF then Inr True
           else if child_index_0 = 5 then Inr (c = 0x1680 \<or> c = 0x180E)
           else if child_index_0 = 7
             then Inr (0x2000 \<le> c \<and> c \<le> 0x200B \<or> 0x205F \<le> c \<and> c \<le> 0x2060 \<or> c = 0x202F)
           else Inl Unreachable)"

definition is_ascii_vertical_whitespace :: "u32 \<Rightarrow> bool" where
  "is_ascii_vertical_whitespace c \<longleftrightarrow> 0x0A \<le> c \<and> c \<le> 0x0D"

definition is_non_ascii_vertical_whitespace :: "u32 \<Rightarrow> bool" where
  "is_non_ascii_vertical_whitespace c \<longleftrightarrow> 0x2028 \<le> c \<and> c \<le> 0x2029 \<or> c = 0x85"

definition is_ascii_bare_key_character :: "u32 \<Rightarrow> bool" where
  "is_ascii_bare_key_character c \<longleftrightarrow>
     (if c < 0x2D \<or> 0x7A < c then False
      else ((ucast c :: u64) - 0x2D) div 0x40 \<noteq> 0 \<or>
           push_bit (unat ((ucast c :: u64) - 0x2D)) 1 AND (0xFFF43FFFFFF01FF9 :: u64) \<noteq> 0)"

definition is_string_delimiter :: "u32 \<Rightarrow> bool" where
  "is_string_delimiter c \<longleftrightarrow> c = 0x22 \<or> c = 0x27"

definition is_ascii_letter :: "u32 \<Rightarrow> bool" where
  "is_ascii_letter c \<longleftrightarrow> 0x61 \<le> c \<and> c \<le> 0x7A \<or> 0x41 \<le> c \<and> c \<le> 0x5A"

definition is_binary_digit :: "u32 \<Rightarrow> bool" where
  "is_binary_digit c \<longleftrightarrow> c = 0x30 \<or> c = 0x31"

definition is_octal_digit :: "u32 \<Rightarrow> bool" where
  "is_octal_digit c \<longleftrightarrow> 0x30 \<le> c \<and> c \<le> 0x37"

definition is_decimal_digit :: "u32 \<Rightarrow> bool" where
  "is_decimal_digit c \<longleftrightarrow> 0x30 \<le> c \<and> c \<le> 0x39"

definition is_hexadecimal_digit :: "u32 \<Rightarrow> bool" where
  "is_hexadecimal_digit c \<longleftrightarrow>
     0x30 \<le> c \<and> c \<le> 0x66 \<and>
     push_bit (unat ((ucast c :: u64) - 0x30)) 1 AND (0x7E0000007E03FF :: u64) \<noteq> 0"

definition hex_to_dec :: "u32 \<Rightarrow> u32" where
  "hex_to_dec c = (if 0x41 \<le> c then 10 + (c OR 0x20) - 0x61 else c - 0x30)"

definition is_horizontal_whitespace :: "u32 \<Rightarrow> bool result" where
  "is_horizontal_whitespace c =
     (if is_ascii_horizontal_whitespace c then Inr True else is_non_ascii_horizontal_whitespace c)"

definition is_vertical_whitespace :: "u32 \<Rightarrow> bool" where
  "is_vertical_whitespace c \<longleftrightarrow> is_ascii_vertical_whitespace c \<or> is_non_ascii_vertical_whitespace c"

definition is_whitespace :: "u32 \<Rightarrow> bool result" where
  "is_whitespace c =
     and_then (is_horizontal_whitespace c) (\<lambda>h. Inr (h \<or> is_vertical_whitespace c))"

definition is_bare_key_character :: "u32 \<Rightarrow> bool" where
  "is_bare_key_character c \<longleftrightarrow> is_ascii_bare_key_character c"

definition is_value_terminator :: "u32 \<Rightarrow> bool result" where
  "is_value_terminator c =
     and_then (is_whitespace c) (\<lambda>w. Inr (w \<or> c = 0x5D \<or> c = 0x7D \<or> c = 0x2C \<or> c = 0x23))"

definition is_control_character :: "u32 \<Rightarrow> bool" where
  "is_control_character c \<longleftrightarrow> c \<le> 0x1F \<or> c = 0x7F"

definition is_nontab_control_character :: "u32 \<Rightarrow> bool" where
  "is_nontab_control_character c \<longleftrightarrow> c \<le> 0x08 \<or> 0x0A \<le> c \<and> c \<le> 0x1F \<or> c = 0x7F"

definition is_unicode_surrogate :: "u32 \<Rightarrow> bool" where
  "is_unicode_surrogate c \<longleftrightarrow> 0xD800 \<le> c \<and> c \<le> 0xDFFF"

section \<open>The decoder\<close>

text \<open>
  One table: the classes of the 256 bytes, then the transitions, twelve per state.  States and
  classes are small numbers that index the table.
\<close>

definition state_table :: "nat list" where
  "state_table = [
     0,0,0,0,0,0,0,0,0,0,0,0,0,0,0,0, 0,0,0,0,0,0,0,0,0,0,0,0,0,0,0,0,
     0,0,0,0,0,0,0,0,0,0,0,0,0,0,0,0, 0,0,0,0,0,0,0,0,0,0,0,0,0,0,0,0,
     0,0,0,0,0,0,0,0,0,0,0,0,0,0,0,0, 0,0,0,0,0,0,0,0,0,0,0,0,0,0,0,0,
     0,0,0,0,0,0,0,0,0,0,0,0,0,0,0,0, 0,0,0,0,0,0,0,0,0,0,0,0,0,0,0,0,
     1,1,1,1,1,1,1,1,1,1,1,1,1,1,1,1, 9,9,9,9,9,9,9,9,9,9,9,9,9,9,9,9,
     7,7,7,7,7,7,7,7,7,7,7,7,7,7,7,7, 7,7,7,7,7,7,7,7,7,7,7,7,7,7,7,7,
     8,8,2,2,2,2,2,2,2,2,2,2,2,2,2,2, 2,2,2,2,2,2,2,2,2,2,2,2,2,2,2,2,
     10,3,3,3,3,3,3,3,3,3,3,3,3,4,3,3, 11,6,6,6,5,8,8,8,8,8,8,8,8,8,8,8,
     0,12,24,36,60,96,84,12,12,12,48,72, 12,12,12,12,12,12,12,12,12,12,12,12,
     12,0,12,12,12,12,12,0,12,0,12,12, 12,24,12,12,12,12,12,24,12,24,12,12,
     12,12,12,12,12,12,12,24,12,12,12,12, 12,24,12,12,12,12,12,12,12,24,12,12,
     12,12,12,12,12,12,12,36,12,36,12,12, 12,36,12,12,12,12,12,36,12,36,12,12,
     12,36,12,12,12,12,12,12,12,12,12,12]"

record utf8_decoder =
  dec_state :: nat
  dec_codepoint :: u32

definition new_utf8_decoder :: utf8_decoder where
  "new_utf8_decoder = \<lparr>dec_state = 0, dec_codepoint = 0\<rparr>"

definition dec_error :: "utf8_decoder \<Rightarrow> bool" where
  "dec_error d \<longleftrightarrow> dec_state d = 12"

definition has_code_point :: "utf8_decoder \<Rightarrow> bool" where
  "has_code_point d \<longleftrightarrow> dec_state d = 0"

definition needs_more_input :: "utf8_decoder \<Rightarrow> bool" where
  "needs_more_input d \<longleftrightarrow> \<not> has_code_point d \<and> \<not> dec_error d"

definition decode_byte :: "u8 \<Rightarrow> utf8_decoder \<Rightarrow> utf8_decoder" where
  "decode_byte byte d =
     (let type = state_table ! unat byte
      in \<lparr>dec_state = state_table ! (dec_state d + 256 + type),
          dec_codepoint =
            (if has_code_point d then drop_bit type 255 AND ucast byte
             else (ucast byte AND 63) OR push_bit 6 (dec_codepoint d))\<rparr>)"

definition reset_decoder :: "utf8_decoder \<Rightarrow> utf8_decoder" where
  "reset_decoder d = d\<lparr>dec_state := 0\<rparr>"

section \<open>Encoding\<close>

text \<open>How the parser appends the code point of an escape sequence to a string.\<close>

definition utf8_bytes :: "u32 \<Rightarrow> bytes" where
  "utf8_bytes v =
     (if v < 0x80 then [ucast v]
      else if v < 0x800 then
        [ucast (drop_bit 6 v OR 0xC0), ucast ((v AND 0x3F) OR 0x80)]
      else if v < 0x10000 then
        [ucast (drop_bit 12 v OR 0xE0), ucast ((drop_bit 6 v AND 0x3F) OR 0x80),
         ucast ((v AND 0x3F) OR 0x80)]
      else if v < 0x110000 then
        [ucast (drop_bit 18 v OR 0xF0), ucast ((drop_bit 12 v AND 0x3F) OR 0x80),
         ucast ((drop_bit 6 v AND 0x3F) OR 0x80), ucast ((v AND 0x3F) OR 0x80)]
      else [])"

section \<open>The decoding loop\<close>

text \<open>
  The reader's loop over the bytes of a block: a code point is complete when the decoder says
  so.  \<open>pend\<close> holds the bytes of the one being decoded; they survive the end of a block.
  When it stops, the code points found so far tell where.
\<close>

datatype decode_stop = Invalid_Sequence | Overlong_Sequence

fun decode_loop ::
  "utf8_decoder \<Rightarrow> bytes \<Rightarrow> (u32 \<times> bytes) list \<Rightarrow> bytes \<Rightarrow>
     decode_stop \<times> (u32 \<times> bytes) list + utf8_decoder \<times> bytes \<times> (u32 \<times> bytes) list" where
  "decode_loop d pend cps [] = Inr (d, pend, cps)"
| "decode_loop d pend cps (b # bs) =
     (let d' = decode_byte b d
      in if dec_error d' then Inl (Invalid_Sequence, cps)
         else
           let pend' = pend @ [b]
           in if has_code_point d' then decode_loop d' [] (cps @ [(dec_codepoint d', pend')]) bs
              else if length pend' = 4 then Inl (Overlong_Sequence, cps)
              else decode_loop d' pend' cps bs)"

section \<open>Scalar values\<close>

definition unicode_scalar :: "u32 \<Rightarrow> bool" where
  "unicode_scalar v \<longleftrightarrow> v \<le> 0x10FFFF \<and> \<not> is_unicode_surrogate v"

section \<open>Where the white space test is undefined\<close>

lemma unat_ucast_u64 [simp]: "unat (ucast (c :: u32) :: u64) = unat c"
  by (simp add: unsigned_ucast_eq take_bit_nat_eq_self_iff
      less_le_trans [OF unsigned_less [of c, where 'a = nat]])

lemma children:
  assumes "k < 64"
  shows "push_bit k 1 AND (0x7FFFFFFFFFFFF75E :: u64) = 0 \<longleftrightarrow> k \<in> {0, 5, 7, 11, 63}"
proof -
  have "list_all (\<lambda>k. (push_bit k 1 AND (0x7FFFFFFFFFFFF75E :: u64) = 0) = (k \<in> {0, 5, 7, 11, 63})) [0..<64]"
    by code_simp
  with assms show ?thesis by (simp add: list_all_iff)
qed

lemma whitespace_child:
  assumes "0xA0 \<le> c" and "c \<le> (0xFEFF :: u32)"
  shows "unat (((ucast c :: u64) - 0xA0) div 0x3FA) = (unat c - 160) div 1018"
  using assms by (simp add: unat_div unat_sub word_le_nat_alt)

lemma whitespace_branches:
  assumes "0xA0 \<le> c" and "c \<le> (0xFEFF :: u32)" and "k = (unat c - 160) div 1018" and "k < 64"
  shows "is_non_ascii_horizontal_whitespace c = Inl Unreachable \<longleftrightarrow>
    k \<in> {0, 11, 63} \<and> unat c \<notin> {0xA0, 0x3000, 0xFEFF}"
proof -
  have w: "unat (((ucast c :: u64) - 0xA0) div 0x3FA) = k"
    using whitespace_child assms(1-3) by simp
  then have "((ucast c :: u64) - 0xA0) div 0x3FA = 5 \<longleftrightarrow> k = 5"
    and "((ucast c :: u64) - 0xA0) div 0x3FA = 7 \<longleftrightarrow> k = 7"
    by (auto simp: word_unat_eq_iff)
  moreover have "c = 0xA0 \<longleftrightarrow> unat c = 0xA0" and "c = 0x3000 \<longleftrightarrow> unat c = 0x3000"
    and "c = 0xFEFF \<longleftrightarrow> unat c = 0xFEFF"
    by (simp_all add: word_unat_eq_iff)
  ultimately show ?thesis
    using assms(1,2) children [OF assms(4)]
    by (simp add: is_non_ascii_horizontal_whitespace_def Let_def w not_less) linarith?
qed
lemma div_window: "0 < d \<Longrightarrow> n div d = k \<longleftrightarrow> d * k \<le> n \<and> n < d * (k + 1)" for n d k :: nat
  using dividend_less_div_times [of d n]
  by (auto intro!: div_nat_eqI simp: algebra_simps times_div_less_eq_dividend)

lemma whitespace_undefined:
  "is_non_ascii_horizontal_whitespace c = Inl Unreachable \<longleftrightarrow>
     c \<in> {0xA1..0x499} \<union> {0x2C5E..0x3057} \<union> {0xFB26..0xFEFE} - {0x3000}"
proof (cases "0xA0 \<le> c \<and> c \<le> 0xFEFF")
  case True
  then have n: "160 \<le> unat c" "unat c \<le> 65279" by (simp_all add: word_le_nat_alt)
  then have "(unat c - 160) div 1018 < 64" by (simp add: div_less_iff_less_mult)
  with True have "is_non_ascii_horizontal_whitespace c = Inl Unreachable \<longleftrightarrow>
      (unat c - 160) div 1018 \<in> {0, 11, 63} \<and> unat c \<notin> {0xA0, 0x3000, 0xFEFF}"
    by (intro whitespace_branches) simp_all
  also have "(unat c - 160) div 1018 \<in> {0, 11, 63} \<longleftrightarrow>
      unat c < 1178 \<or> 11358 \<le> unat c \<and> unat c < 12376 \<or> 64294 \<le> unat c"
    using n by (simp add: div_window) linarith
  also have "\<dots> \<and> unat c \<notin> {0xA0, 0x3000, 0xFEFF} \<longleftrightarrow>
      c \<in> {0xA1..0x499} \<union> {0x2C5E..0x3057} \<union> {0xFB26..0xFEFE} - {0x3000}"
    using n by (simp add: word_le_nat_alt word_unat_eq_iff) linarith
  finally show ?thesis .
next
  case False
  then show ?thesis
    by (auto simp: is_non_ascii_horizontal_whitespace_def word_le_nat_alt word_less_nat_alt)
qed

section \<open>The table read as intervals\<close>

definition byte_class :: "nat \<Rightarrow> nat" where
  "byte_class n =
     (if n < 128 then 0 else if n < 144 then 1 else if n < 160 then 9 else if n < 192 then 7
      else if n < 194 then 8 else if n < 224 then 2 else if n = 224 then 10 else if n = 237 then 4
      else if n < 240 then 3 else if n = 240 then 11 else if n < 244 then 6 else if n = 244 then 5
      else 8)"

lemma table_class: "state_table ! unat (b :: u8) = byte_class (unat b)"
proof -
  have "list_all (\<lambda>n. state_table ! n = byte_class n) [0..<256]" by code_simp
  moreover have "unat b < 256" using unsigned_less [of b, where 'a = nat] by simp
  ultimately show ?thesis by (simp add: list_all_iff)
qed

lemma successors:
  "map (\<lambda>t. state_table ! (0 + 256 + t)) [0..<12] = [0, 12, 24, 36, 60, 96, 84, 12, 12, 12, 48, 72]"
  "map (\<lambda>t. state_table ! (24 + 256 + t)) [0..<12] = [12, 0, 12, 12, 12, 12, 12, 0, 12, 0, 12, 12]"
  "map (\<lambda>t. state_table ! (36 + 256 + t)) [0..<12] = [12, 24, 12, 12, 12, 12, 12, 24, 12, 24, 12, 12]"
  "map (\<lambda>t. state_table ! (48 + 256 + t)) [0..<12] = [12, 12, 12, 12, 12, 12, 12, 24, 12, 12, 12, 12]"
  "map (\<lambda>t. state_table ! (60 + 256 + t)) [0..<12] = [12, 24, 12, 12, 12, 12, 12, 12, 12, 24, 12, 12]"
  "map (\<lambda>t. state_table ! (72 + 256 + t)) [0..<12] = [12, 12, 12, 12, 12, 12, 12, 36, 12, 36, 12, 12]"
  "map (\<lambda>t. state_table ! (84 + 256 + t)) [0..<12] = [12, 36, 12, 12, 12, 12, 12, 36, 12, 36, 12, 12]"
  "map (\<lambda>t. state_table ! (96 + 256 + t)) [0..<12] = [12, 36, 12, 12, 12, 12, 12, 12, 12, 12, 12, 12]"
  by code_simp+

lemma successor_rows:
  "t < 12 \<Longrightarrow> state_table ! (256 + t) = [0, 12, 24, 36, 60, 96, 84, 12, 12, 12, 48, 72] ! t"
  "t < 12 \<Longrightarrow> state_table ! (280 + t) = [12, 0, 12, 12, 12, 12, 12, 0, 12, 0, 12, 12] ! t"
  "t < 12 \<Longrightarrow> state_table ! (292 + t) = [12, 24, 12, 12, 12, 12, 12, 24, 12, 24, 12, 12] ! t"
  "t < 12 \<Longrightarrow> state_table ! (304 + t) = [12, 12, 12, 12, 12, 12, 12, 24, 12, 12, 12, 12] ! t"
  "t < 12 \<Longrightarrow> state_table ! (316 + t) = [12, 24, 12, 12, 12, 12, 12, 12, 12, 24, 12, 12] ! t"
  "t < 12 \<Longrightarrow> state_table ! (328 + t) = [12, 12, 12, 12, 12, 12, 12, 36, 12, 36, 12, 12] ! t"
  "t < 12 \<Longrightarrow> state_table ! (340 + t) = [12, 36, 12, 12, 12, 12, 12, 36, 12, 36, 12, 12] ! t"
  "t < 12 \<Longrightarrow> state_table ! (352 + t) = [12, 36, 12, 12, 12, 12, 12, 12, 12, 12, 12, 12] ! t"
  using successors [symmetric] by simp_all

lemma byte_class_less: "byte_class n < 12"
  by (simp add: byte_class_def)

lemma next_states:
  "dec_state d = 0 \<Longrightarrow> dec_state (decode_byte b d) =
     (if unat b < 128 then 0 else if unat b < 194 then 12 else if unat b < 224 then 24
      else if unat b = 224 then 48 else if unat b = 237 then 60 else if unat b < 240 then 36
      else if unat b = 240 then 72 else if unat b < 244 then 84 else if unat b = 244 then 96 else 12)"
  "dec_state d = 24 \<Longrightarrow> dec_state (decode_byte b d) = (if 128 \<le> unat b \<and> unat b < 192 then 0 else 12)"
  "dec_state d = 36 \<Longrightarrow> dec_state (decode_byte b d) = (if 128 \<le> unat b \<and> unat b < 192 then 24 else 12)"
  "dec_state d = 48 \<Longrightarrow> dec_state (decode_byte b d) = (if 160 \<le> unat b \<and> unat b < 192 then 24 else 12)"
  "dec_state d = 60 \<Longrightarrow> dec_state (decode_byte b d) = (if 128 \<le> unat b \<and> unat b < 160 then 24 else 12)"
  "dec_state d = 72 \<Longrightarrow> dec_state (decode_byte b d) = (if 144 \<le> unat b \<and> unat b < 192 then 36 else 12)"
  "dec_state d = 84 \<Longrightarrow> dec_state (decode_byte b d) = (if 128 \<le> unat b \<and> unat b < 192 then 36 else 12)"
  "dec_state d = 96 \<Longrightarrow> dec_state (decode_byte b d) = (if 128 \<le> unat b \<and> unat b < 144 then 36 else 12)"
  by (simp_all add: decode_byte_def Let_def table_class successor_rows byte_class_less,
      simp_all add: byte_class_def)

section \<open>Code points as numbers\<close>

lemma unat_ucast_u32 [simp]: "unat (ucast (b :: u8) :: u32) = unat b"
  by (simp add: unsigned_ucast_eq take_bit_nat_eq_self_iff
      less_le_trans [OF unsigned_less [of b, where 'a = nat]])

lemma bit_255_u32: "bit (255 :: u32) n \<longleftrightarrow> n < 8"
  by (rule trans [OF bit_field [where k = 0 and m = 8]]) (auto simp: mask_eq_exp_minus_1)

lemma lead_codepoint:
  assumes "dec_state d = 0"
  shows "unat (dec_codepoint (decode_byte b d)) = unat b mod 2 ^ (8 - byte_class (unat b))"
proof -
  have "drop_bit t (255 :: u32) = mask (8 - t)" for t
    by (rule bit_word_eqI) (auto simp: bit_simps bit_255_u32)
  with assms have "dec_codepoint (decode_byte b d) = take_bit (8 - byte_class (unat b)) (ucast b)"
    by (simp add: decode_byte_def Let_def has_code_point_def table_class take_bit_eq_mask and.commute)
  then have "unat (dec_codepoint (decode_byte b d)) = take_bit (8 - byte_class (unat b)) (unat b)"
    by (simp only: unsigned_take_bit_eq unat_ucast_u32)
  then show ?thesis by (simp only: take_bit_eq_mod)
qed

lemma unat_or_disjoint:
  "x AND y = 0 \<Longrightarrow> unat (x OR y :: 'a::len word) = unat x + unat y"
  by (metis disjunctive_add_eq_or unsigned_0 unsigned_and_eq unsigned_or_eq)

lemma next_codepoint:
  assumes "dec_state d \<noteq> 0" and "unat (dec_codepoint d) < 2 ^ 26"
  shows "unat (dec_codepoint (decode_byte b d)) = 64 * unat (dec_codepoint d) + unat b mod 64"
proof -
  let ?x = "take_bit 6 (ucast b :: u32)" and ?y = "push_bit 6 (dec_codepoint d)"
  have "63 = (mask 6 :: u32)" by (simp add: mask_eq_exp_minus_1)
  then have "dec_codepoint (decode_byte b d) = ?x OR ?y"
    using assms(1) by (simp add: decode_byte_def Let_def has_code_point_def take_bit_eq_mask)
  moreover have "?x AND ?y = 0" by (rule bit_word_eqI) (auto simp: bit_simps)
  moreover have "unat ?y = 64 * unat (dec_codepoint d)"
    using assms(2) unat_mult_lem [of "dec_codepoint d" 64] by (simp add: push_bit_eq_mult)
  ultimately show ?thesis
    by (simp only: unat_or_disjoint unsigned_take_bit_eq unat_ucast_u32) (simp only: take_bit_eq_mod, simp)
qed

lemma unat_byte_or:
  assumes "unat (x :: u32) < 2 ^ k" and "c = push_bit k c'" and "unat x + unat c < 256"
  shows "unat (ucast (x OR c) :: u8) = unat x + unat c"
proof -
  have "x AND c = 0" using assms(1,2) not_bit_high [OF assms(1)] by (intro bit_word_eqI) (auto simp: bit_simps)
  with assms(3) show ?thesis
    by (simp add: unsigned_ucast_eq unat_or_disjoint take_bit_nat_eq_self_iff)
qed

lemma unat_continuation: "unat (ucast ((x AND 0x3F) OR 0x80 :: u32) :: u8) = unat x mod 64 + 128"
proof -
  have "x AND 0x3F = take_bit 6 x" by (simp add: take_bit_eq_mask mask_eq_exp_minus_1)
  then have "unat (x AND 0x3F) = unat x mod 64" by (simp only: unsigned_take_bit_eq) (simp add: take_bit_eq_mod)
  then show ?thesis using unat_byte_or [where x = "x AND 0x3F" and k = 7 and c = "0x80" and c' = 1] by (simp add: push_bit_eq_mult)
qed

lemma unat_shift: "unat (drop_bit k (v :: u32)) = unat v div 2 ^ k"
  by (rule trans [OF unat_drop_bit_eq drop_bit_eq_div])

lemma unat_leads:
  "unat (v :: u32) < 2048 \<Longrightarrow> unat (ucast (drop_bit 6 v OR 0xC0) :: u8) = unat v div 64 + 192"
  "unat v < 65536 \<Longrightarrow> unat (ucast (drop_bit 12 v OR 0xE0) :: u8) = unat v div 4096 + 224"
  "unat v < 1114112 \<Longrightarrow> unat (ucast (drop_bit 18 v OR 0xF0) :: u8) = unat v div 262144 + 240"
  subgoal by (rule trans [OF unat_byte_or [where k = 6 and c' = 3]])
    (simp_all add: unat_shift push_bit_eq_mult div_less_iff_less_mult)
  subgoal by (rule trans [OF unat_byte_or [where k = 5 and c' = 7]])
    (simp_all add: unat_shift push_bit_eq_mult div_less_iff_less_mult)
  subgoal by (rule trans [OF unat_byte_or [where k = 4 and c' = 15]])
    (simp_all add: unat_shift push_bit_eq_mult div_less_iff_less_mult)
  done

lemma unat_narrow: "unat (v :: u32) < 256 \<Longrightarrow> unat (ucast v :: u8) = unat v"
  by (simp add: unsigned_ucast_eq take_bit_nat_eq_self_iff)

lemma utf8_bytes_nat:
  "map unat (utf8_bytes v) =
     (let n = unat v in
      if n < 128 then [n]
      else if n < 2048 then [n div 64 + 192, n mod 64 + 128]
      else if n < 65536 then [n div 4096 + 224, n div 64 mod 64 + 128, n mod 64 + 128]
      else if n < 1114112 then
        [n div 262144 + 240, n div 4096 mod 64 + 128, n div 64 mod 64 + 128, n mod 64 + 128]
      else [])"
proof -
  consider "unat v < 128" | "128 \<le> unat v" "unat v < 2048" | "2048 \<le> unat v" "unat v < 65536"
    | "65536 \<le> unat v" "unat v < 1114112" | "1114112 \<le> unat v" by linarith
  then show ?thesis
    by cases (simp_all add: utf8_bytes_def Let_def word_less_nat_alt unat_leads unat_continuation unat_shift unat_narrow)
qed

text \<open>The byte sequences of the scalar values, as the Unicode standard tabulates them.\<close>

definition is_tail :: "nat \<Rightarrow> bool" where
  "is_tail n \<longleftrightarrow> 128 \<le> n \<and> n < 192"

definition well_formed :: "nat list \<Rightarrow> nat \<Rightarrow> bool" where
  "well_formed ns v \<longleftrightarrow>
     (case ns of
        [a] \<Rightarrow> a < 128 \<and> v = a
      | [a, b] \<Rightarrow> 194 \<le> a \<and> a < 224 \<and> is_tail b \<and> v = 64 * (a - 192) + (b - 128)
      | [a, b, c] \<Rightarrow>
          224 \<le> a \<and> a < 240 \<and> is_tail b \<and> (a = 224 \<longrightarrow> 160 \<le> b) \<and> (a = 237 \<longrightarrow> b < 160) \<and> is_tail c \<and>
          v = 4096 * (a - 224) + 64 * (b - 128) + (c - 128)
      | [a, b, c, d] \<Rightarrow>
          240 \<le> a \<and> a < 245 \<and> is_tail b \<and> (a = 240 \<longrightarrow> 144 \<le> b) \<and> (a = 244 \<longrightarrow> b < 144) \<and>
          is_tail c \<and> is_tail d \<and>
          v = 262144 * (a - 240) + 4096 * (b - 128) + 64 * (c - 128) + (d - 128)
      | _ \<Rightarrow> False)"

lemma unicode_scalar_nat:
  "unicode_scalar v \<longleftrightarrow> unat v < 1114112 \<and> \<not> (55296 \<le> unat v \<and> unat v < 57344)"
  by (auto simp: unicode_scalar_def is_unicode_surrogate_def word_le_nat_alt)

lemma base_64:
  fixes n :: nat
  shows "n = 64 * (n div 64) + n mod 64"
    and "n = 4096 * (n div 4096) + 64 * (n div 64 mod 64) + n mod 64"
    and "n = 262144 * (n div 262144) + 4096 * (n div 4096 mod 64) + 64 * (n div 64 mod 64) + n mod 64"
    and "n mod 64 < 64" and "n div 64 mod 64 < 64" and "n div 4096 mod 64 < 64"
proof -
  have q: "n div 4096 = n div 64 div 64" "n div 262144 = n div 64 div 64 div 64"
    by (simp_all add: div_mult2_eq [symmetric])
  show 1: "n = 64 * (n div 64) + n mod 64" by simp
  have 2: "n div 64 = 64 * (n div 64 div 64) + n div 64 mod 64" by simp
  have 3: "n div 64 div 64 = 64 * (n div 64 div 64 div 64) + n div 64 div 64 mod 64" by simp
  from 1 2 show "n = 4096 * (n div 4096) + 64 * (n div 64 mod 64) + n mod 64"
    unfolding q by linarith
  from 1 2 3 show "n = 262144 * (n div 262144) + 4096 * (n div 4096 mod 64) + 64 * (n div 64 mod 64) + n mod 64"
    unfolding q by linarith
qed simp_all

lemma well_formed_bytes:
  assumes "unicode_scalar v"
  shows "well_formed (map unat (utf8_bytes v)) (unat v)"
proof -
  obtain n where n: "unat v = n" by simp
  obtain t u where tu: "n div 64 = t" "n div 4096 = u" by simp
  obtain p q r s where pqrs: "n div 262144 = p" "u mod 64 = q" "t mod 64 = r" "n mod 64 = s" by simp
  note b = base_64 [of n, unfolded tu pqrs]
  have "n < 1114112" using assms n by (simp add: unicode_scalar_nat)
  then consider "n < 128" | "128 \<le> n" "n < 2048" | "2048 \<le> n" "n < 65536" | "65536 \<le> n" "n < 1114112"
    by linarith
  then show ?thesis
  proof cases
    case 1
    with n show ?thesis by (simp add: utf8_bytes_nat well_formed_def)
  next
    case 2
    then have "194 \<le> t + 192" "t + 192 < 224" using b(1,4) by linarith+
    moreover have "map unat (utf8_bytes v) = [t + 192, s + 128]"
      using 2 by (simp add: utf8_bytes_nat n Let_def tu pqrs)
    ultimately show ?thesis using b(1,4) by (simp add: n well_formed_def is_tail_def)
  next
    case 3
    then have "u < 16" "u = 0 \<longrightarrow> 32 \<le> r" "u = 13 \<longrightarrow> r < 32"
      using b(2,4,5) assms n unfolding unicode_scalar_nat by linarith+
    moreover have "map unat (utf8_bytes v) = [u + 224, r + 128, s + 128]"
      using 3 by (simp add: utf8_bytes_nat n Let_def tu pqrs)
    ultimately show ?thesis using b(2,4,5) by (simp add: n well_formed_def is_tail_def)
  next
    case 4
    then have "p < 5" "p = 0 \<longrightarrow> 16 \<le> q" "p = 4 \<longrightarrow> q < 16"
      using b(3-6) by linarith+
    moreover have "map unat (utf8_bytes v) = [p + 240, q + 128, r + 128, s + 128]"
      using 4 by (simp add: utf8_bytes_nat n Let_def tu pqrs)
    ultimately show ?thesis using b(3-6) by (simp add: n well_formed_def is_tail_def)
  qed
qed

lemma split_64:
  assumes "c < 64"
  shows "(64 * t + c) div 64 = (t :: nat)" and "(64 * t + c) mod 64 = c"
    and "(64 * t + c) div 4096 = t div 64" and "(64 * t + c) div 262144 = t div 64 div 64"
proof -
  show t: "(64 * t + c) div 64 = t" using assms by simp
  show "(64 * t + c) mod 64 = c" using assms by simp
  show "(64 * t + c) div 4096 = t div 64" "(64 * t + c) div 262144 = t div 64 div 64"
    using t div_mult2_eq [of "64 * t + c" 64 64] div_mult2_eq [of "64 * t + c" 64 4096]
      div_mult2_eq [of t 64 64] by simp_all
qed

lemma well_formed_unique:
  assumes "well_formed (map unat bs) v"
  shows "bs = utf8_bytes (of_nat v)" and "unicode_scalar (of_nat v)"
proof -
  have inverse: "bs = utf8_bytes (of_nat v) \<and> unicode_scalar (of_nat v)"
    if "v < 1114112" "\<not> (55296 \<le> v \<and> v < 57344)"
      "map unat bs =
        (if v < 128 then [v]
         else if v < 2048 then [v div 64 + 192, v mod 64 + 128]
         else if v < 65536 then [v div 4096 + 224, v div 64 mod 64 + 128, v mod 64 + 128]
         else [v div 262144 + 240, v div 4096 mod 64 + 128, v div 64 mod 64 + 128, v mod 64 + 128])"
  proof -
    have u: "unat (of_nat v :: u32) = v" using that(1) by (simp add: unsigned_of_nat take_bit_nat_eq_self_iff)
    with that(1,3) have "map unat bs = map unat (utf8_bytes (of_nat v))"
      by (simp add: utf8_bytes_nat Let_def)
    then have "bs = utf8_bytes (of_nat v)" by (rule map_injective) (simp add: inj_def word_unat_eq_iff)
    with that u show ?thesis by (simp add: unicode_scalar_nat)
  qed
  from assms consider (1) x1 where "bs = [x1]" | (2) x1 x2 where "bs = [x1, x2]"
    | (3) x1 x2 x3 where "bs = [x1, x2, x3]" | (4) x1 x2 x3 x4 where "bs = [x1, x2, x3, x4]"
    by (auto simp: well_formed_def map_eq_Cons_conv split: list.splits)
  then have "bs = utf8_bytes (of_nat v) \<and> unicode_scalar (of_nat v)"
  proof cases
    case 1
    with assms show ?thesis by (intro inverse) (auto simp: well_formed_def)
  next
    case 2
    with assms obtain a b where "unat x1 = a + 192" "unat x2 = b + 128" "2 \<le> a" "a < 32" "b < 64"
      "v = 64 * a + b"
      by (auto simp: well_formed_def is_tail_def dest!: le_Suc_ex)
    with 2 show ?thesis by (intro inverse) (auto simp: split_64)
  next
    case 3
    with assms obtain a b c where *: "unat x1 = a + 224" "unat x2 = b + 128" "unat x3 = c + 128" "a < 16"
      "b < 64" "c < 64" "a = 0 \<longrightarrow> 32 \<le> b" "a = 13 \<longrightarrow> b < 32" "v = 64 * (64 * a + b) + c"
      by (auto simp: well_formed_def is_tail_def dest!: le_Suc_ex)
    have "2048 \<le> v" "v < 65536" using * by (cases "a = 0"; simp)+
    moreover have "\<not> (55296 \<le> v \<and> v < 57344)"
      using * by (cases "a = 13"; cases "a < 13"; simp)
    ultimately have "2048 \<le> v" "v < 65536" "\<not> (55296 \<le> v \<and> v < 57344)" by simp_all
    moreover have "v div 64 mod 64 = b" "v mod 64 = c" "v div 4096 = a"
      by (simp_all only: *(9) split_64 [OF *(6)] split_64 [OF *(5)])
    ultimately show ?thesis using 3 *(1-3,5) by (intro inverse) simp_all
  next
    case 4
    with assms obtain a b c d where *: "unat x1 = a + 240" "unat x2 = b + 128" "unat x3 = c + 128"
      "unat x4 = d + 128" "a < 5" "b < 64" "c < 64" "d < 64" "a = 0 \<longrightarrow> 16 \<le> b" "a = 4 \<longrightarrow> b < 16"
      "v = 64 * (64 * (64 * a + b) + c) + d"
      by (auto simp: well_formed_def is_tail_def dest!: le_Suc_ex)
    then have "65536 \<le> v" "v < 1114112" by (cases "a = 0"; cases "a = 4"; simp)+
    moreover have "v div 64 mod 64 = c" "v mod 64 = d" "v div 4096 mod 64 = b" "v div 262144 = a"
      by (simp_all only: *(11) split_64 [OF *(8)] split_64 [OF *(7)] split_64 [OF *(6)])
    ultimately show ?thesis using 4 *(1-4,6,7) by (intro inverse) simp_all
  qed
  then show "bs = utf8_bytes (of_nat v)" and "unicode_scalar (of_nat v)" by simp_all
qed

section \<open>The loop accepts exactly the well-formed sequences\<close>

lemma mod_window:
  fixes n k m :: nat
  assumes "k mod m = 0" and "k \<le> n" and "n < k + m"
  shows "n mod m = n - k"
proof -
  from assms(2,3) obtain r where "n = k + r" "r < m" by (auto simp: le_iff_add)
  with assms(1) show ?thesis by (simp add: mod_add_left_eq [symmetric])
qed

lemma lead_values:
  "n < 128 \<Longrightarrow> n mod 2 ^ (8 - byte_class n) = n"
  "194 \<le> n \<Longrightarrow> n < 224 \<Longrightarrow> n mod 2 ^ (8 - byte_class n) = n - 192"
  "224 \<le> n \<Longrightarrow> n < 240 \<Longrightarrow> n mod 2 ^ (8 - byte_class n) = n - 224"
  "240 \<le> n \<Longrightarrow> n < 245 \<Longrightarrow> n mod 2 ^ (8 - byte_class n) = n - 240"
  subgoal by (simp add: byte_class_def)
  subgoal by (simp add: byte_class_def mod_window [of 192])
  subgoal by (auto simp: byte_class_def mod_window [of 224])
  subgoal by (auto simp: byte_class_def mod_window [of 240])
  done

lemma tail_codepoint:
  assumes "dec_state d \<noteq> 0" and "unat (dec_codepoint d) = n" and "n < 2 ^ 20" and "is_tail (unat b)"
  shows "unat (dec_codepoint (decode_byte b d)) = 64 * n + (unat b - 128)"
proof -
  have "unat b mod 64 = unat b - 128" using assms(4) by (intro mod_window) (simp_all add: is_tail_def)
  with assms show ?thesis by (simp add: next_codepoint)
qed

lemma decode_loop_states:
  "dec_state d = 24 \<Longrightarrow> decode_loop d pend cps (b # bs) =
     (if is_tail (unat b) then decode_loop (decode_byte b d) [] (cps @ [(dec_codepoint (decode_byte b d), pend @ [b])]) bs
      else Inl (Invalid_Sequence, cps))"
  "dec_state d \<in> {36, 48, 60, 72, 84, 96} \<Longrightarrow> length pend < 3 \<Longrightarrow> decode_loop d pend cps (b # bs) =
     (if dec_error (decode_byte b d) then Inl (Invalid_Sequence, cps)
      else decode_loop (decode_byte b d) (pend @ [b]) cps bs)"
  by (auto simp: Let_def dec_error_def has_code_point_def next_states is_tail_def split: if_splits)

lemma decode_loop_lead:
  "dec_state (decode_byte b d) \<in> {24, 36, 48, 60, 72, 84, 96} \<Longrightarrow>
     decode_loop d [] cps (b # bs) = decode_loop (decode_byte b d) [b] cps bs"
  by (auto simp: Let_def dec_error_def has_code_point_def)

lemma three_bytes:
  assumes "dec_state d = 0" and "224 \<le> unat x" and "unat x < 240"
  shows "dec_state (decode_byte x d) \<in> {36, 48, 60}"
    and "dec_state (decode_byte y (decode_byte x d)) =
      (if is_tail (unat y) \<and> (unat x = 224 \<longrightarrow> 160 \<le> unat y) \<and> (unat x = 237 \<longrightarrow> unat y < 160) then 24 else 12)"
proof -
  let ?d = "decode_byte x d"
  consider "unat x = 224" "dec_state ?d = 48" | "unat x = 237" "dec_state ?d = 60"
    | "unat x \<noteq> 224" "unat x \<noteq> 237" "dec_state ?d = 36"
    using next_states(1) [OF assms(1), of x] assms(2,3) by (cases "unat x = 224"; cases "unat x = 237") simp_all
  then have "dec_state ?d \<in> {36, 48, 60} \<and> dec_state (decode_byte y ?d) =
      (if is_tail (unat y) \<and> (unat x = 224 \<longrightarrow> 160 \<le> unat y) \<and> (unat x = 237 \<longrightarrow> unat y < 160) then 24 else 12)"
    by cases (auto simp: next_states is_tail_def)
  then show "dec_state ?d \<in> {36, 48, 60}" and "dec_state (decode_byte y ?d) =
      (if is_tail (unat y) \<and> (unat x = 224 \<longrightarrow> 160 \<le> unat y) \<and> (unat x = 237 \<longrightarrow> unat y < 160) then 24 else 12)"
    by (rule conjunct1, rule conjunct2)
qed

lemma four_bytes:
  assumes "dec_state d = 0" and "240 \<le> unat x" and "unat x < 245"
  shows "dec_state (decode_byte x d) \<in> {72, 84, 96}"
    and "dec_state (decode_byte y (decode_byte x d)) =
      (if is_tail (unat y) \<and> (unat x = 240 \<longrightarrow> 144 \<le> unat y) \<and> (unat x = 244 \<longrightarrow> unat y < 144) then 36 else 12)"
proof -
  let ?d = "decode_byte x d"
  consider "unat x = 240" "dec_state ?d = 72" | "unat x = 244" "dec_state ?d = 96"
    | "unat x \<noteq> 240" "unat x \<noteq> 244" "dec_state ?d = 84"
    using next_states(1) [OF assms(1), of x] assms(2,3) by (cases "unat x = 240"; cases "unat x = 244") simp_all
  then have "dec_state ?d \<in> {72, 84, 96} \<and> dec_state (decode_byte y ?d) =
      (if is_tail (unat y) \<and> (unat x = 240 \<longrightarrow> 144 \<le> unat y) \<and> (unat x = 244 \<longrightarrow> unat y < 144) then 36 else 12)"
    by cases (auto simp: next_states is_tail_def)
  then show "dec_state ?d \<in> {72, 84, 96}" and "dec_state (decode_byte y ?d) =
      (if is_tail (unat y) \<and> (unat x = 240 \<longrightarrow> 144 \<le> unat y) \<and> (unat x = 244 \<longrightarrow> unat y < 144) then 36 else 12)"
    by (rule conjunct1, rule conjunct2)
qed

lemma decode_one:
  assumes "dec_state d = 0" and "well_formed (map unat p) v"
  shows "decode_loop d [] cps (p @ bs) =
    decode_loop \<lparr>dec_state = 0, dec_codepoint = of_nat v\<rparr> [] (cps @ [(of_nat v, p)]) bs"
proof -
  have fin: "d' = \<lparr>dec_state = 0, dec_codepoint = of_nat v\<rparr>"
    if "dec_state d' = 0" "unat (dec_codepoint d') = v" for d' :: utf8_decoder
    using that by (cases d') auto
  note lead = lead_codepoint [OF assms(1)] and state = next_states(1) [OF assms(1)]
  from assms consider (1) x where "p = [x]" | (2) x y where "p = [x, y]"
    | (3) x y z where "p = [x, y, z]" | (4) x y z w where "p = [x, y, z, w]"
    by (auto simp: well_formed_def map_eq_Cons_conv split: list.splits)
  then show ?thesis
  proof cases
    case 1
    with assms have "decode_byte x d = \<lparr>dec_state = 0, dec_codepoint = of_nat v\<rparr>"
      by (intro fin) (auto simp: well_formed_def state lead lead_values)
    with 1 show ?thesis by (simp add: dec_error_def has_code_point_def)
  next
    case 2
    let ?d1 = "decode_byte x d"
    from 2 assms(2) have x: "194 \<le> unat x" "unat x < 224" "is_tail (unat y)"
      "v = 64 * (unat x - 192) + (unat y - 128)" by (auto simp: well_formed_def)
    then have 1: "dec_state ?d1 = 24" "unat (dec_codepoint ?d1) = unat x - 192"
      by (simp_all add: state lead lead_values)
    then have "decode_byte y ?d1 = \<lparr>dec_state = 0, dec_codepoint = of_nat v\<rparr>"
      using x by (intro fin) (simp_all add: next_states(2) tail_codepoint, simp add: is_tail_def)
    moreover have "decode_loop d [] cps (p @ bs) = decode_loop ?d1 [x] cps (y # bs)"
      using 1 2 by (simp add: decode_loop_lead del: decode_loop.simps)
    ultimately show ?thesis using x(3) 2 by (simp add: decode_loop_states(1) [OF 1(1)] del: decode_loop.simps)
  next
    case 3
    let ?d1 = "decode_byte x d" and ?d2 = "decode_byte y (decode_byte x d)"
    from 3 assms(2) have x: "224 \<le> unat x" "unat x < 240" "unat x = 224 \<longrightarrow> 160 \<le> unat y"
      "unat x = 237 \<longrightarrow> unat y < 160" "is_tail (unat y)" "is_tail (unat z)"
      "v = 64 * (64 * (unat x - 224) + (unat y - 128)) + (unat z - 128)" by (auto simp: well_formed_def)
    then have 1: "dec_state ?d1 \<in> {36, 48, 60}" "unat (dec_codepoint ?d1) = unat x - 224"
      by (simp_all only: three_bytes(1) [OF assms(1) x(1,2)] lead lead_values)
    from x have 2: "dec_state ?d2 = 24" by (simp only: three_bytes(2) [OF assms(1) x(1,2)]) simp
    have 4: "unat (dec_codepoint ?d2) = 64 * (unat x - 224) + (unat y - 128)"
      using 1 x by (intro tail_codepoint) auto
    have "64 * (unat x - 224) + (unat y - 128) < 2 ^ 20"
      using x(2,5) unfolding is_tail_def by simp linarith
    then have "unat (dec_codepoint (decode_byte z ?d2)) = v"
      using 2 x(6) unfolding x(7) by (intro tail_codepoint [OF _ 4]) simp_all
    then have "decode_byte z ?d2 = \<lparr>dec_state = 0, dec_codepoint = of_nat v\<rparr>"
      using x(6) by (intro fin) (simp_all add: next_states(2) [OF 2] is_tail_def)
    moreover have "decode_loop d [] cps (p @ bs) = decode_loop ?d1 [x] cps (y # z # bs)"
      using 1 3 by (subst decode_loop_lead [symmetric]) auto
    moreover have "decode_loop ?d1 [x] cps (y # z # bs) = decode_loop ?d2 [x, y] cps (z # bs)"
      using 1(1) 2 by (subst decode_loop_states(2)) (auto simp: dec_error_def)
    ultimately show ?thesis using x(6) 3 by (simp add: decode_loop_states(1) [OF 2] del: decode_loop.simps)
  next
    case 4
    let ?d1 = "decode_byte x d" and ?d2 = "decode_byte y (decode_byte x d)"
      and ?d3 = "decode_byte z (decode_byte y (decode_byte x d))"
    from 4 assms(2) have x: "240 \<le> unat x" "unat x < 245" "unat x = 240 \<longrightarrow> 144 \<le> unat y"
      "unat x = 244 \<longrightarrow> unat y < 144" "is_tail (unat y)" "is_tail (unat z)" "is_tail (unat w)"
      "v = 64 * (64 * (64 * (unat x - 240) + (unat y - 128)) + (unat z - 128)) + (unat w - 128)"
      by (auto simp: well_formed_def)
    then have 1: "dec_state ?d1 \<in> {72, 84, 96}" "unat (dec_codepoint ?d1) = unat x - 240"
      by (simp_all only: four_bytes(1) [OF assms(1) x(1,2)] lead lead_values)
    from x have 2: "dec_state ?d2 = 36" by (simp only: four_bytes(2) [OF assms(1) x(1,2)]) simp
    have 5: "unat (dec_codepoint ?d2) = 64 * (unat x - 240) + (unat y - 128)"
      using 1 x by (intro tail_codepoint) auto
    have 3: "dec_state ?d3 = 24" using x(6) by (simp add: next_states(3) [OF 2] is_tail_def)
    have "64 * (unat x - 240) + (unat y - 128) < 2 ^ 10"
      using x(2,5) unfolding is_tail_def by simp linarith
    then have 6: "unat (dec_codepoint ?d3) = 64 * (64 * (unat x - 240) + (unat y - 128)) + (unat z - 128)"
      using 2 x(6) by (intro tail_codepoint [OF _ 5]) simp_all
    have "64 * (64 * (unat x - 240) + (unat y - 128)) + (unat z - 128) < 2 ^ 20"
      using x(2,5,6) unfolding is_tail_def by simp linarith
    then have "unat (dec_codepoint (decode_byte w ?d3)) = v"
      using 3 x(7) unfolding x(8) by (intro tail_codepoint [OF _ 6]) simp_all
    then have "decode_byte w ?d3 = \<lparr>dec_state = 0, dec_codepoint = of_nat v\<rparr>"
      using x(7) by (intro fin) (simp_all add: next_states(2) [OF 3] is_tail_def)
    moreover have "decode_loop d [] cps (p @ bs) = decode_loop ?d1 [x] cps (y # z # w # bs)"
      using 1 4 by (subst decode_loop_lead [symmetric]) auto
    moreover have "decode_loop ?d1 [x] cps (y # z # w # bs) = decode_loop ?d2 [x, y] cps (z # w # bs)"
      using 1(1) 2 by (subst decode_loop_states(2)) (auto simp: dec_error_def)
    moreover have "decode_loop ?d2 [x, y] cps (z # w # bs) = decode_loop ?d3 [x, y, z] cps (w # bs)"
      using 2 3 by (subst decode_loop_states(2)) (auto simp: dec_error_def)
    ultimately show ?thesis using x(7) 4 by (simp add: decode_loop_states(1) [OF 3] del: decode_loop.simps)
  qed
qed

text \<open>Conversely, whatever a fresh decoder gets through begins with a well-formed sequence.\<close>

lemma decode_tail:
  assumes "decode_loop d pend cps bs = Inr (d', [], out)" and "pend \<noteq> []" and "dec_state d = 24"
  obtains b rest where "bs = b # rest" and "is_tail (unat b)"
  using assms by (cases bs) (auto simp: decode_loop_states simp del: decode_loop.simps(2) split: if_splits)

lemma decode_next:
  assumes "decode_loop d pend cps bs = Inr (d', [], out)" and "pend \<noteq> []" and "length pend < 3"
    and "dec_state d \<in> {36, 48, 60, 72, 84, 96}"
  obtains b rest where "bs = b # rest" and "dec_state (decode_byte b d) \<noteq> 12"
    and "decode_loop (decode_byte b d) (pend @ [b]) cps rest = Inr (d', [], out)"
  using assms by (cases bs) (auto simp: decode_loop_states(2) dec_error_def simp del: decode_loop.simps(2) split: if_splits)

lemma decode_prefix:
  assumes "dec_state d = 0" and "decode_loop d [] cps bs = Inr (d', [], out)" and "bs \<noteq> []"
  obtains p rest v where "bs = p @ rest" and "p \<noteq> []" and "well_formed (map unat p) v"
proof -
  from assms(3) obtain x bs1 where bs: "bs = x # bs1" by (cases bs) auto
  let ?d1 = "decode_byte x d"
  note state = next_states(1) [OF assms(1), of x]
  have start: "decode_loop ?d1 [x] cps bs1 = Inr (d', [], out)"
    if "dec_state ?d1 \<in> {24, 36, 48, 60, 72, 84, 96}"
    using assms(2) by (simp only: bs decode_loop_lead [OF that])
  from assms(2) bs have "dec_state ?d1 \<noteq> 12" by (auto simp: Let_def dec_error_def)
  with state consider (1) "unat x < 128" | (2) "194 \<le> unat x" "unat x < 224"
    | (3) "224 \<le> unat x" "unat x < 240" | (4) "240 \<le> unat x" "unat x < 245"
    by (fastforce split: if_splits)
  then show thesis
  proof cases
    case 1
    then show ?thesis using that [of "[x]" bs1] bs by (auto simp: well_formed_def)
  next
    case 2
    then have s: "dec_state ?d1 = 24" using state by simp
    then have "decode_loop ?d1 [x] cps bs1 = Inr (d', [], out)" by (intro start) simp
    from decode_tail [OF this _ s] obtain y rest where "bs1 = y # rest" "is_tail (unat y)" by blast
    with 2 bs show ?thesis using that [of "[x, y]" rest] by (auto simp: well_formed_def)
  next
    case 3
    note s = three_bytes [OF assms(1) 3]
    then have "decode_loop ?d1 [x] cps bs1 = Inr (d', [], out)" by (intro start) auto
    then obtain y bs2 where y: "bs1 = y # bs2" "dec_state (decode_byte y ?d1) \<noteq> 12"
      "decode_loop (decode_byte y ?d1) [x, y] cps bs2 = Inr (d', [], out)"
      by (rule decode_next) (use s(1) in auto)
    then have s2: "dec_state (decode_byte y ?d1) = 24" and ok: "is_tail (unat y)"
      "unat x = 224 \<longrightarrow> 160 \<le> unat y" "unat x = 237 \<longrightarrow> unat y < 160" using s(2) [of y] by (auto split: if_splits)
    from decode_tail [OF y(3) _ s2] obtain z rest where "bs2 = z # rest" "is_tail (unat z)" by blast
    with 3 bs y ok show ?thesis using that [of "[x, y, z]" rest] by (auto simp: well_formed_def)
  next
    case 4
    note s = four_bytes [OF assms(1) 4]
    then have "decode_loop ?d1 [x] cps bs1 = Inr (d', [], out)" by (intro start) auto
    then obtain y bs2 where y: "bs1 = y # bs2" "dec_state (decode_byte y ?d1) \<noteq> 12"
      "decode_loop (decode_byte y ?d1) [x, y] cps bs2 = Inr (d', [], out)"
      by (rule decode_next) (use s(1) in auto)
    then have s2: "dec_state (decode_byte y ?d1) = 36" and ok: "is_tail (unat y)"
      "unat x = 240 \<longrightarrow> 144 \<le> unat y" "unat x = 244 \<longrightarrow> unat y < 144" using s(2) [of y] by (auto split: if_splits)
    from y(3) obtain z bs3 where z: "bs2 = z # bs3" "dec_state (decode_byte z (decode_byte y ?d1)) \<noteq> 12"
      "decode_loop (decode_byte z (decode_byte y ?d1)) [x, y, z] cps bs3 = Inr (d', [], out)"
      by (rule decode_next) (use s2 in auto)
    then have s3: "dec_state (decode_byte z (decode_byte y ?d1)) = 24" and "is_tail (unat z)"
      using s2 by (auto simp: next_states is_tail_def split: if_splits)
    moreover from decode_tail [OF z(3) _ s3] obtain w rest where "bs3 = w # rest" "is_tail (unat w)" by blast
    ultimately show ?thesis using that [of "[x, y, z, w]" rest] 4 bs y z ok by (auto simp: well_formed_def)
  qed
qed

section \<open>Decoding a text\<close>

lemma decode_complete:
  assumes "list_all unicode_scalar vs" and "dec_state d = 0"
  shows "\<exists>d'. dec_state d' = 0 \<and> decode_loop d [] pre (concat (map utf8_bytes vs)) =
    Inr (d', [], pre @ map (\<lambda>v. (v, utf8_bytes v)) vs)"
  using assms
proof (induction vs arbitrary: d pre)
  case Nil
  then show ?case by simp
next
  case (Cons v vs)
  then have "decode_loop d [] pre (utf8_bytes v @ concat (map utf8_bytes vs)) =
      decode_loop \<lparr>dec_state = 0, dec_codepoint = v\<rparr> [] (pre @ [(v, utf8_bytes v)]) (concat (map utf8_bytes vs))"
    using decode_one [OF _ well_formed_bytes] by simp
  with Cons.IH [of "\<lparr>dec_state = 0, dec_codepoint = v\<rparr>" "pre @ [(v, utf8_bytes v)]"] Cons.prems
  show ?case by simp
qed

lemma decode_sound:
  assumes "decode_loop d [] pre bs = Inr (d', [], out)" and "dec_state d = 0"
  shows "\<exists>vs. list_all unicode_scalar vs \<and> bs = concat (map utf8_bytes vs) \<and>
    out = pre @ map (\<lambda>v. (v, utf8_bytes v)) vs"
  using assms
proof (induction "length bs" arbitrary: bs d pre rule: less_induct)
  case less
  show ?case
  proof (cases "bs = []")
    case True
    with less.prems show ?thesis by (intro exI [of _ "[]"]) simp
  next
    case False
    from decode_prefix [OF less.prems(2,1) False] obtain p rest v
      where p: "bs = p @ rest" "p \<noteq> []" "well_formed (map unat p) v" by blast
    with less.prems decode_one [OF less.prems(2) p(3)]
    have "decode_loop \<lparr>dec_state = 0, dec_codepoint = of_nat v\<rparr> [] (pre @ [(of_nat v, p)]) rest = Inr (d', [], out)"
      by simp
    from less.hyps [OF _ this] p(1,2) obtain vs where "list_all unicode_scalar vs"
      "rest = concat (map utf8_bytes vs)" "out = (pre @ [(of_nat v, p)]) @ map (\<lambda>v. (v, utf8_bytes v)) vs"
      by auto
    with p well_formed_unique [OF p(3)] show ?thesis by (intro exI [of _ "of_nat v # vs"]) simp
  qed
qed

text \<open>The loop accepts exactly the encodings of sequences of scalar values, in the encoding that
  the parser itself writes: no surrogate, no overlong form and nothing above \<open>U+10FFFF\<close>.\<close>

lemma utf8_decoding:
  assumes "dec_state d = 0"
  shows "(\<exists>d'. decode_loop d [] [] bs = Inr (d', [], cps)) \<longleftrightarrow>
    (\<exists>vs. list_all unicode_scalar vs \<and> bs = concat (map utf8_bytes vs) \<and>
       cps = map (\<lambda>v. (v, utf8_bytes v)) vs)"
  using decode_complete [of _ d "[]"] decode_sound [of d "[]" bs _ cps] assms by fastforce

end
