(* ===== verification/TomlReader.thy ===== *)
theory TomlReader
  imports Utf8
begin

text \<open>
  The two readers of toml++'s parser.  \<open>utf8_reader\<close> cuts a text into blocks of 32 bytes and
  decodes them, blocks of plain ASCII without the decoder; \<open>utf8_buffered_reader\<close> remembers
  the last 127 code points so that the parser can step back.  The text is a
  \<open>std::string_view\<close>, as for every file of up to 2 MB; the stream over a \<open>std::istream\<close>
  is left out.  Errors are exceptions, the library's default.
\<close>

section \<open>Positions and code points\<close>

record source_position =
  src_line :: u32
  src_column :: u32

record utf8_codepoint =
  cp_value :: u32
  cp_bytes :: bytes
  cp_position :: source_position

datatype toml_failure = Parse_Error string source_position | Undefined fault

section \<open>The byte stream\<close>

record utf8_byte_stream =
  stream_source :: bytes
  stream_position :: nat

definition utf8_byte_order_mark :: bytes where
  "utf8_byte_order_mark = [0xEF, 0xBB, 0xBF]"

definition new_utf8_byte_stream :: "bytes \<Rightarrow> utf8_byte_stream" where
  "new_utf8_byte_stream sv =
     \<lparr>stream_source = sv,
      stream_position = (if 3 \<le> length sv \<and> take 3 sv = utf8_byte_order_mark then 3 else 0)\<rparr>"

definition stream_eof :: "utf8_byte_stream \<Rightarrow> bool" where
  "stream_eof s \<longleftrightarrow> length (stream_source s) \<le> stream_position s"

definition stream_read :: "nat \<Rightarrow> utf8_byte_stream \<Rightarrow> bytes \<times> utf8_byte_stream" where
  "stream_read num s =
     (let num' = min (stream_position s + num) (length (stream_source s)) - stream_position s
      in (take num' (drop (stream_position s) (stream_source s)),
          s\<lparr>stream_position := stream_position s + num'\<rparr>))"

section \<open>Plain ASCII\<close>

text \<open>The vector path ORs whole vectors of 16 bytes and looks for a sign bit in the result.\<close>

function vector_mask :: "bytes \<Rightarrow> bytes \<Rightarrow> bytes" where
  "vector_mask msk bs =
     (if length bs < 16 then msk else vector_mask (map2 (OR) msk (take 16 bs)) (drop 16 bs))"
  by pat_completeness auto
termination by (relation "measure (\<lambda>(msk, bs). length bs)") auto

declare vector_mask.simps [simp del]

definition is_ascii :: "bool \<Rightarrow> bytes \<Rightarrow> bool" where
  "is_ascii has_sse2 str =
     (let simdable = (if has_sse2 then length str - length str mod 16 else 0)
      in if simdable \<noteq> 0 \<and> list_ex (\<lambda>b. 128 \<le> b) (vector_mask (replicate 16 0) (take simdable str)) then False
         else list_all (\<lambda>b. b \<le> 127) (drop simdable str))"

section \<open>The reader\<close>

definition block_capacity :: nat where
  "block_capacity = 32"

record utf8_reader =
  rd_stream :: utf8_byte_stream
  next_pos :: source_position
  rd_decoder :: utf8_decoder
  currently_decoding :: bytes
  codepoints :: "utf8_codepoint list"
  cp_current :: nat

definition new_utf8_reader :: "bytes \<Rightarrow> utf8_reader" where
  "new_utf8_reader source =
     \<lparr>rd_stream = new_utf8_byte_stream source, next_pos = \<lparr>src_line = 1, src_column = 1\<rparr>,
      rd_decoder = new_utf8_decoder, currently_decoding = [], codepoints = [], cp_current = 0\<rparr>"

definition advance_position :: "u32 \<Rightarrow> source_position \<Rightarrow> source_position" where
  "advance_position v pos =
     (if v = 0x0A then \<lparr>src_line = src_line pos + 1, src_column = 1\<rparr>
      else pos\<lparr>src_column := src_column pos + 1\<rparr>)"

fun calc_positions ::
  "source_position \<Rightarrow> (u32 \<times> bytes) list \<Rightarrow> utf8_codepoint list \<times> source_position" where
  "calc_positions pos [] = ([], pos)"
| "calc_positions pos ((v, bs) # cps) =
     (let (rest, last_pos) = calc_positions (advance_position v pos) cps
      in (\<lparr>cp_value = v, cp_bytes = bs, cp_position = pos\<rparr> # rest, last_pos))"

text \<open>Where an error is reported, after the positions have been computed.\<close>

definition error_pos :: "source_position \<Rightarrow> (u32 \<times> bytes) list \<Rightarrow> source_position" where
  "error_pos pos cps =
     (let (out, pos') = calc_positions pos cps
      in if out \<noteq> [] then cp_position (last out) else pos')"

definition read_next_block :: "bool \<Rightarrow> utf8_reader \<Rightarrow> toml_failure + bool \<times> utf8_reader" where
  "read_next_block has_sse2 r =
     (let (raw, s) = stream_read block_capacity (rd_stream r);
          d = rd_decoder r
      in if raw = [] then
           (if stream_eof s then
              (if needs_more_input d
               then Inl (Parse_Error ''Encountered EOF during incomplete utf-8 code point sequence'' (next_pos r))
               else Inr (False, r\<lparr>rd_stream := s\<rparr>))
            else Inl (Parse_Error ''Reading from the underlying stream failed - zero bytes read'' (next_pos r)))
         else
           and_then
             (if \<not> needs_more_input d \<and> is_ascii has_sse2 raw
              then Inr (reset_decoder d, [], map (\<lambda>b. (ucast b, [b])) raw)
              else
                (case decode_loop d (currently_decoding r) [] raw of
                   Inl (Invalid_Sequence, cps) \<Rightarrow>
                     Inl (Parse_Error ''Encountered invalid utf-8 sequence'' (error_pos (next_pos r) cps))
                 | Inl (Overlong_Sequence, cps) \<Rightarrow>
                     Inl (Parse_Error ''Encountered overlong utf-8 sequence'' (error_pos (next_pos r) cps))
                 | Inr (d', cur, cps) \<Rightarrow>
                     if needs_more_input d' \<and> stream_eof s
                     then Inl (Parse_Error ''Encountered EOF during incomplete utf-8 code point sequence''
                                 (error_pos (next_pos r) cps))
                     else Inr (d', cur, cps)))
             (\<lambda>(d', cur, cps).
                if cps = [] then Inl (Undefined Unreachable)
                else
                  let (out, pos) = calc_positions (next_pos r) cps
                  in Inr (True,
                       r\<lparr>rd_stream := s, next_pos := pos, rd_decoder := d', currently_decoding := cur,
                         codepoints := out, cp_current := 0\<rparr>)))"

definition take_codepoint :: "utf8_reader \<Rightarrow> toml_failure + utf8_codepoint option \<times> utf8_reader" where
  "take_codepoint r =
     (if length (codepoints r) \<le> block_capacity \<and> cp_current r < length (codepoints r)
      then Inr (Some (codepoints r ! cp_current r), r\<lparr>cp_current := cp_current r + 1\<rparr>)
      else Inl (Undefined Unreachable))"

definition rd_read_next :: "bool \<Rightarrow> utf8_reader \<Rightarrow> toml_failure + utf8_codepoint option \<times> utf8_reader" where
  "rd_read_next has_sse2 r =
     (if cp_current r = length (codepoints r) then
        (if stream_eof (rd_stream r) then Inr (None, r)
         else and_then (read_next_block has_sse2 r)
           (\<lambda>(ok, r'). if ok then take_codepoint r' else Inr (None, r')))
      else take_codepoint r)"

definition rd_peek_eof :: "utf8_reader \<Rightarrow> bool" where
  "rd_peek_eof r = stream_eof (rd_stream r)"

section \<open>The test for ASCII\<close>

lemma or_sign: "(128 :: u8) \<le> a OR b \<longleftrightarrow> 128 \<le> a \<or> 128 \<le> b"
proof -
  have s: "128 \<le> x \<longleftrightarrow> bit x 7" for x :: u8
  proof -
    have "unat x < 256" using unsigned_less [of x, where 'a = nat] by simp
    then have "unat x div 128 = (if 128 \<le> unat x then 1 else 0)" by (auto intro: div_nat_eqI)
    then have "128 \<le> unat x \<longleftrightarrow> bit (unat x) 7" by (simp add: bit_iff_odd)
    then show ?thesis by (simp add: bit_unsigned_iff word_le_nat_alt)
  qed
  show ?thesis unfolding s by (simp add: bit_or_iff)
qed

lemma mask_sign:
  "length msk = 16 \<Longrightarrow> list_ex (\<lambda>b. 128 \<le> b) (vector_mask msk bs) \<longleftrightarrow>
     list_ex (\<lambda>b. 128 \<le> b) msk \<or> list_ex (\<lambda>b. 128 \<le> b) (take (length bs - length bs mod 16) bs)"
proof (induction msk bs rule: vector_mask.induct)
  case (1 msk bs)
  show ?case
  proof (cases "length bs < 16")
    case True
    then show ?thesis by (simp add: vector_mask.simps)
  next
    case False
    let ?P = "list_ex (\<lambda>b :: u8. 128 \<le> b)" and ?k = "length bs - 16 - (length bs - 16) mod 16"
    have or: "?P (map2 (OR) xs ys) \<longleftrightarrow> ?P xs \<or> ?P ys" if "length xs = length ys" for xs ys
      using that by (induction xs ys rule: list_induct2) (auto simp: or_sign)
    from False have len: "length bs - length bs mod 16 = 16 + ?k" by (simp add: le_mod_geq)
    have "?P (vector_mask msk bs) \<longleftrightarrow> ?P (vector_mask (map2 (OR) msk (take 16 bs)) (drop 16 bs))"
      using False by (simp add: vector_mask.simps [of msk bs])
    also have "\<dots> \<longleftrightarrow> ?P (map2 (OR) msk (take 16 bs)) \<or> ?P (take ?k (drop 16 bs))"
      using False 1 by simp
    also have "?P (map2 (OR) msk (take 16 bs)) \<longleftrightarrow> ?P msk \<or> ?P (take 16 bs)"
      using False 1(2) by (intro or) simp
    finally show ?thesis unfolding len take_add list_ex_append by blast
  qed
qed

lemma is_ascii_all: "is_ascii has_sse2 bs \<longleftrightarrow> list_all (\<lambda>b. unat b < 128) bs"
proof -
  define k where "k = (if has_sse2 then length bs - length bs mod 16 else 0)"
  have "k mod 16 = 0" and "length (take k bs) = k" by (simp_all add: k_def minus_mod_eq_mult_div)
  then have "list_ex (\<lambda>b. 128 \<le> b) (vector_mask (replicate 16 0) (take k bs)) \<longleftrightarrow> list_ex (\<lambda>b. 128 \<le> b) (take k bs)"
    using mask_sign [of "replicate 16 0" "take k bs"] by (simp add: list_ex_iff set_replicate_conv_if)
  moreover have "list_all P bs \<longleftrightarrow> list_all P (take k bs) \<and> list_all P (drop k bs)" for P
    by (metis append_take_drop_id list_all_append)
  moreover have "128 \<le> b \<longleftrightarrow> \<not> unat b < 128" and "b \<le> 127 \<longleftrightarrow> unat b < 128" for b :: u8
    by (auto simp: word_le_nat_alt)
  ultimately show ?thesis
    unfolding is_ascii_def Let_def k_def [symmetric] by (cases "k = 0") (simp_all add: list_ex_iff list_all_iff)
qed

section \<open>The loop, resumed\<close>

lemma decode_loop_append:
  "decode_loop d pend cps (xs @ ys) =
     and_then (decode_loop d pend cps xs) (\<lambda>(d', pend', cps'). decode_loop d' pend' cps' ys)"
  by (induction d pend cps xs rule: decode_loop.induct) (simp_all add: Let_def)

lemma decode_loop_acc:
  "decode_loop d pend (pre @ cps) bs =
     map_sum (map_prod id ((@) pre)) (map_prod id (map_prod id ((@) pre))) (decode_loop d pend cps bs)"
  by (induction d pend cps bs rule: decode_loop.induct) (simp_all add: Let_def)

text \<open>The decoder wants more exactly when bytes are pending, and never has four of them.\<close>

definition decoding :: "utf8_decoder \<Rightarrow> bytes \<Rightarrow> bool" where
  "decoding d pend \<longleftrightarrow>
     dec_state d \<noteq> 12 \<and> (dec_state d = 0 \<longleftrightarrow> pend = []) \<and> length pend < 4"

lemma decoding_loop:
  "decode_loop d pend cps bs = Inr (d', pend', cps') \<Longrightarrow> decoding d pend \<Longrightarrow> decoding d' pend'"
proof (induction d pend cps bs rule: decode_loop.induct)
  case (1 d pend cps)
  then show ?case by simp
next
  case (2 d pend cps b bs)
  then show ?case
    by (auto simp: Let_def decoding_def dec_error_def has_code_point_def split: if_splits)
qed

lemma no_code_point:
  "decode_loop d pend cps bs = Inr (d', pend', cps) \<Longrightarrow> pend' = pend @ bs"
proof (induction d pend cps bs rule: decode_loop.induct)
  case (1 d pend cps)
  then show ?case by simp
next
  case (2 d pend cps b bs)
  have "length cps' \<le> length out" if "decode_loop d pend cps' bs = Inr (d', pend', out)" for d pend cps' out
    using that by (induction d pend cps' bs rule: decode_loop.induct) (force simp: Let_def split: if_splits)+
  with 2 show ?case by (fastforce simp: Let_def split: if_splits)
qed

lemma ascii_loop:
  "list_all (\<lambda>b. unat b < 128) bs \<Longrightarrow> dec_state d = 0 \<Longrightarrow>
     \<exists>d'. dec_state d' = 0 \<and> decode_loop d [] cps bs = Inr (d', [], cps @ map (\<lambda>b. (ucast b, [b])) bs)"
proof (induction bs arbitrary: d cps)
  case Nil
  then show ?case by simp
next
  case (Cons b bs)
  then have "dec_state (decode_byte b d) = 0" by (simp add: next_states)
  moreover have "dec_codepoint (decode_byte b d) = ucast b"
    using lead_codepoint [of d b] lead_values(1) [of "unat b"] Cons.prems by (simp add: word_unat_eq_iff)
  ultimately show ?case
    using Cons.IH [of "decode_byte b d" "cps @ [(ucast b, [b])]"] Cons.prems
    by (simp add: Let_def dec_error_def has_code_point_def)
qed

text \<open>Between code points the decoder remembers nothing.\<close>

lemma decode_loop_fresh:
  assumes "dec_state d1 = 0" and "dec_state d2 = 0"
  shows "(\<exists>d'. decode_loop d1 [] cps bs = Inr (d', pend', cps')) \<longleftrightarrow>
         (\<exists>d'. decode_loop d2 [] cps bs = Inr (d', pend', cps'))"
proof (cases bs)
  case Nil
  then show ?thesis by simp
next
  case (Cons b bs')
  have "decode_byte b d1 = decode_byte b d2"
    using assms by (simp add: decode_byte_def has_code_point_def)
  with Cons show ?thesis by simp
qed

section \<open>Reading a whole text\<close>

text \<open>What a parser sees that reads on to the end, and the measure by which reading ends.\<close>

definition reader_measure :: "utf8_reader \<Rightarrow> nat \<times> nat" where
  "reader_measure r =
     (length (stream_source (rd_stream r)) - stream_position (rd_stream r),
      length (codepoints r) - cp_current r)"

definition reader_rest :: "utf8_reader \<Rightarrow> bytes" where
  "reader_rest r = drop (stream_position (rd_stream r)) (stream_source (rd_stream r))"

lemma stream_rest:
  "\<not> stream_eof (rd_stream r) \<longleftrightarrow> reader_rest r \<noteq> []"
  by (simp add: stream_eof_def reader_rest_def not_le)

lemma stream_read_rest:
  "stream_read n (rd_stream r) =
     (take n (reader_rest r),
      (rd_stream r)\<lparr>stream_position := stream_position (rd_stream r) + min n (length (reader_rest r))\<rparr>)"
  by (simp add: stream_read_def reader_rest_def Let_def min_def)

lemma length_calc_positions [simp]: "length (fst (calc_positions pos cps)) = length cps"
  by (induction pos cps rule: calc_positions.induct) (simp_all add: case_prod_unfold Let_def)

lemma calc_positions_append:
  "calc_positions pos (xs @ ys) =
     (fst (calc_positions pos xs) @ fst (calc_positions (snd (calc_positions pos xs)) ys),
      snd (calc_positions (snd (calc_positions pos xs)) ys))"
  by (induction pos xs rule: calc_positions.induct) (simp_all add: case_prod_unfold Let_def)

text \<open>A position counts the newlines before the code point, and the code points since the last one.\<close>

definition position_after :: "u32 list \<Rightarrow> source_position" where
  "position_after vs =
     \<lparr>src_line = 1 + of_nat (length (filter (\<lambda>v. v = 0x0A) vs)),
      src_column = 1 + of_nat (length (takeWhile (\<lambda>v. v \<noteq> 0x0A) (rev vs)))\<rparr>"

lemma advance_position_after: "advance_position v (position_after vs) = position_after (vs @ [v])"
  by (simp add: advance_position_def position_after_def)

lemma calc_positions_after:
  "i < length cps \<Longrightarrow> cp_position (fst (calc_positions (position_after vs) cps) ! i) =
     position_after (vs @ map fst (take i cps))"
proof (induction cps arbitrary: vs i)
  case (Cons c cps)
  then show ?case
    by (cases c; cases i) (simp_all add: case_prod_unfold Let_def advance_position_after)
qed simp

lemma calc_positions_count:
  "i < length cps \<Longrightarrow> cp_position (fst (calc_positions \<lparr>src_line = 1, src_column = 1\<rparr> cps) ! i) =
     position_after (map fst (take i cps))"
  using calc_positions_after [of i cps "[]"] by (simp add: position_after_def)
lemma block_of:
  assumes "decoding (rd_decoder r) (currently_decoding r)" and "reader_rest r \<noteq> []"
  shows "case decode_loop (rd_decoder r) (currently_decoding r) [] (take 32 (reader_rest r)) of
      Inl e \<Rightarrow> \<exists>m p. read_next_block has_sse2 r = Inl (Parse_Error m p)
    | Inr (d, cur, cps) \<Rightarrow>
        if drop 32 (reader_rest r) = [] \<and> cur \<noteq> []
        then \<exists>m p. read_next_block has_sse2 r = Inl (Parse_Error m p)
        else \<exists>d'. (d' = d \<or> dec_state d' = 0 \<and> dec_state d = 0) \<and> cps \<noteq> [] \<and>
          read_next_block has_sse2 r =
            Inr (True, r\<lparr>rd_stream := snd (stream_read 32 (rd_stream r)),
              next_pos := snd (calc_positions (next_pos r) cps), rd_decoder := d', currently_decoding := cur,
              codepoints := fst (calc_positions (next_pos r) cps), cp_current := 0\<rparr>)"
proof -
  let ?raw = "take 32 (reader_rest r)" and ?d = "rd_decoder r" and ?pend = "currently_decoding r"
  let ?s = "snd (stream_read 32 (rd_stream r))"
  have raw: "?raw \<noteq> []" using assms(2) by simp
  have eof: "stream_eof ?s \<longleftrightarrow> drop 32 (reader_rest r) = []"
    by (auto simp: stream_read_rest stream_eof_def reader_rest_def)
  have full: "length ?raw = 32" if "drop 32 (reader_rest r) \<noteq> []" using that by simp
  show ?thesis
  proof (cases "\<not> needs_more_input ?d \<and> is_ascii has_sse2 ?raw")
    case True
    then have "dec_state ?d = 0" "?pend = []"
      using assms(1) by (auto simp: decoding_def needs_more_input_def dec_error_def has_code_point_def)
    moreover from this obtain d1 where "dec_state d1 = 0"
      "decode_loop ?d [] [] ?raw = Inr (d1, [], map (\<lambda>b. (ucast b, [b])) ?raw)"
      using ascii_loop [of ?raw ?d "[]"] True by (auto simp: is_ascii_all)
    ultimately show ?thesis
      using True raw by (auto simp: read_next_block_def block_capacity_def stream_read_rest Let_def
          case_prod_unfold reset_decoder_def intro!: exI [of _ "?d\<lparr>dec_state := 0\<rparr>"])
  next
    case False
    show ?thesis
    proof (cases "decode_loop ?d ?pend [] ?raw")
      case (Inl e)
      with False raw show ?thesis
        by (cases e) (auto simp: read_next_block_def block_capacity_def stream_read_rest Let_def
            split: decode_stop.splits)
    next
      case (Inr out)
      then obtain d cur cps where out: "decode_loop ?d ?pend [] ?raw = Inr (d, cur, cps)" by (cases out) auto
      have more: "needs_more_input d \<longleftrightarrow> cur \<noteq> []" and "length cur < 4"
        using decoding_loop [OF out assms(1)]
        by (auto simp: decoding_def needs_more_input_def dec_error_def has_code_point_def)
      then have "cps \<noteq> []" if "drop 32 (reader_rest r) \<noteq> [] \<or> cur = []"
        using that full no_code_point [of ?d ?pend "[]" ?raw d cur] out raw by (cases cps) auto
      with out False raw more eof show ?thesis
        by (auto simp: read_next_block_def block_capacity_def stream_read_rest Let_def case_prod_unfold)
    qed
  qed
qed

lemma block_progress:
  assumes "read_next_block has_sse2 r = Inr (ok, r')"
  shows "stream_source (rd_stream r') = stream_source (rd_stream r)"
    and "ok \<Longrightarrow> stream_position (rd_stream r) < length (stream_source (rd_stream r))"
    and "ok \<Longrightarrow> stream_position (rd_stream r) < stream_position (rd_stream r')"
proof -
  have *: "rd_stream r' = snd (stream_read 32 (rd_stream r)) \<and> (ok \<longrightarrow> reader_rest r \<noteq> [])"
    using assms
    by (simp add: read_next_block_def stream_read_rest Let_def and_then_eq_Inr block_capacity_def
        case_prod_unfold split: if_splits)
      fastforce+
  then show "stream_source (rd_stream r') = stream_source (rd_stream r)" by (simp add: stream_read_rest)
  show "stream_position (rd_stream r) < length (stream_source (rd_stream r))"
    and "stream_position (rd_stream r) < stream_position (rd_stream r')" if ok
    using * that by (simp_all add: stream_read_rest reader_rest_def)
qed

lemma read_next_decreases:
  assumes "rd_read_next has_sse2 r = Inr (Some c, r')"
  shows "(reader_measure r', reader_measure r) \<in> less_than <*lex*> less_than"
proof (cases "cp_current r = length (codepoints r)")
  case True
  with assms obtain r1 where "read_next_block has_sse2 r = Inr (True, r1)" "take_codepoint r1 = Inr (Some c, r')"
    by (auto simp: rd_read_next_def and_then_eq_Inr split: if_splits)
  then show ?thesis
    using block_progress [of has_sse2 r True r1]
    by (auto simp: take_codepoint_def reader_measure_def split: if_splits)
next
  case False
  with assms show ?thesis
    by (auto simp: rd_read_next_def take_codepoint_def reader_measure_def split: if_splits)
qed

function read_all :: "bool \<Rightarrow> utf8_reader \<Rightarrow> toml_failure + utf8_codepoint list" where
  "read_all has_sse2 r =
     (case rd_read_next has_sse2 r of
        Inl f \<Rightarrow> Inl f
      | Inr (None, r') \<Rightarrow> Inr []
      | Inr (Some c, r') \<Rightarrow> and_then (read_all has_sse2 r') (\<lambda>cs. Inr (c # cs)))"
  by pat_completeness auto
termination
  by (relation "inv_image (less_than <*lex*> less_than) (\<lambda>(s, r). reader_measure r)")
    (auto simp only: in_inv_image wf_inv_image wf_lex_prod wf_less_than prod.case intro: read_next_decreases)

declare read_all.simps [simp del]

lemma decode_loop_count:
  "decode_loop d pend cps bs = Inr (d', pend', cps') \<Longrightarrow> length cps' \<le> length cps + length bs"
  by (induction d pend cps bs rule: decode_loop.induct) (fastforce simp: Let_def split: if_splits)+

text \<open>What is left to come: the code points of the block, then those of the undecoded bytes.\<close>

definition to_come :: "utf8_reader \<Rightarrow> utf8_codepoint list \<Rightarrow> bool" where
  "to_come r out \<longleftrightarrow>
     (\<exists>d cps. decode_loop (rd_decoder r) (currently_decoding r) [] (reader_rest r) = Inr (d, [], cps) \<and>
        out = drop (cp_current r) (codepoints r) @ fst (calc_positions (next_pos r) cps))"

definition reader_inv :: "utf8_reader \<Rightarrow> bool" where
  "reader_inv r \<longleftrightarrow>
     cp_current r \<le> length (codepoints r) \<and> length (codepoints r) \<le> 32 \<and>
     decoding (rd_decoder r) (currently_decoding r) \<and> (reader_rest r = [] \<longrightarrow> currently_decoding r = [])"

lemma to_come_block:
  assumes "decode_loop (rd_decoder r) (currently_decoding r) [] (take 32 (reader_rest r)) = Inr (d, cur, cps)"
    and "d' = d \<or> dec_state d' = 0 \<and> dec_state d = 0"
    and "decoding (rd_decoder r) (currently_decoding r)" and "cp_current r = length (codepoints r)"
    and "rd_decoder r' = d'" and "currently_decoding r' = cur" and "reader_rest r' = drop 32 (reader_rest r)"
    and "codepoints r' = fst (calc_positions (next_pos r) cps)" and "cp_current r' = 0"
    and "next_pos r' = snd (calc_positions (next_pos r) cps)"
  shows "to_come r out \<longleftrightarrow> to_come r' out"
proof -
  have "dec_state d = 0 \<Longrightarrow> cur = []"
    using decoding_loop [OF assms(1,3)] by (simp add: decoding_def)
  then have fresh: "(\<exists>d2. decode_loop d cur [] bs = Inr (d2, [], cps2)) \<longleftrightarrow>
      (\<exists>d2. decode_loop d' cur [] bs = Inr (d2, [], cps2))" for bs cps2
    using assms(2) decode_loop_fresh [of d d' "[]" bs "[]" cps2] by auto
  have "decode_loop (rd_decoder r) (currently_decoding r) [] (reader_rest r) =
      map_sum (map_prod id ((@) cps)) (map_prod id (map_prod id ((@) cps)))
        (decode_loop d cur [] (drop 32 (reader_rest r)))"
    using decode_loop_append [of "rd_decoder r" "currently_decoding r" "[]" "take 32 (reader_rest r)" "drop 32 (reader_rest r)"]
      decode_loop_acc [of d cur cps "[]"] assms(1) by simp
  then have "(\<exists>d2. decode_loop (rd_decoder r) (currently_decoding r) [] (reader_rest r) = Inr (d2, [], all)) \<longleftrightarrow>
      (\<exists>cps2 d2. decode_loop d cur [] (drop 32 (reader_rest r)) = Inr (d2, [], cps2) \<and> all = cps @ cps2)" for all
    by (cases "decode_loop d cur [] (drop 32 (reader_rest r))") auto
  note all = this
  have "to_come r out \<longleftrightarrow>
      (\<exists>all. (\<exists>d2. decode_loop (rd_decoder r) (currently_decoding r) [] (reader_rest r) = Inr (d2, [], all)) \<and>
        out = fst (calc_positions (next_pos r) all))"
    using assms(4) unfolding to_come_def by auto
  also have "\<dots> \<longleftrightarrow> (\<exists>cps2. (\<exists>d2. decode_loop d' cur [] (drop 32 (reader_rest r)) = Inr (d2, [], cps2)) \<and>
        out = fst (calc_positions (next_pos r) cps) @ fst (calc_positions (snd (calc_positions (next_pos r) cps)) cps2))"
    unfolding all using fresh by (fastforce simp: calc_positions_append)
  also have "\<dots> \<longleftrightarrow> to_come r' out"
    unfolding to_come_def assms(5-) by auto
  finally show ?thesis .
qed

lemma read_next_spec:
  assumes "reader_inv r"
  shows "case rd_read_next has_sse2 r of
      Inl f \<Rightarrow> (\<exists>m p. f = Parse_Error m p) \<and> (\<forall>out. \<not> to_come r out)
    | Inr (None, r') \<Rightarrow> r' = r \<and> (\<forall>out. to_come r out \<longleftrightarrow> out = [])
    | Inr (Some c, r') \<Rightarrow> reader_inv r' \<and> (\<forall>out. to_come r out \<longleftrightarrow> (\<exists>rest. out = c # rest \<and> to_come r' rest))"
proof (cases "cp_current r = length (codepoints r)")
  case False
  with assms have lt: "cp_current r < length (codepoints r)" by (simp add: reader_inv_def)
  then have "drop (cp_current r) (codepoints r) = codepoints r ! cp_current r # drop (Suc (cp_current r)) (codepoints r)"
    by (rule Cons_nth_drop_Suc [symmetric])
  with assms lt False show ?thesis
    by (auto simp: rd_read_next_def take_codepoint_def block_capacity_def reader_inv_def to_come_def reader_rest_def)
next
  case fin: True
  show ?thesis
  proof (cases "reader_rest r = []")
    case True
    with assms fin show ?thesis
      using stream_rest [of r]
      by (auto simp: rd_read_next_def reader_inv_def to_come_def)
  next
    case False
    have inv: "decoding (rd_decoder r) (currently_decoding r)" using assms by (simp add: reader_inv_def)
    note block = block_of [OF inv False, of has_sse2]
    have whole: "decode_loop (rd_decoder r) (currently_decoding r) [] (reader_rest r) =
        and_then (decode_loop (rd_decoder r) (currently_decoding r) [] (take 32 (reader_rest r)))
          (\<lambda>(d', pend', cps'). decode_loop d' pend' cps' (drop 32 (reader_rest r)))"
      using decode_loop_append [of _ _ _ "take 32 (reader_rest r)" "drop 32 (reader_rest r)"] by simp
    from False have neof: "\<not> stream_eof (rd_stream r)" by (simp add: stream_rest)
    show ?thesis
    proof (cases "decode_loop (rd_decoder r) (currently_decoding r) [] (take 32 (reader_rest r))")
      case (Inl e)
      with block whole fin neof show ?thesis by (auto simp: rd_read_next_def to_come_def)
    next
      case (Inr x)
      obtain d cur cps where x: "x = (d, cur, cps)" by (cases x)
      show ?thesis
      proof (cases "drop 32 (reader_rest r) = [] \<and> cur \<noteq> []")
        case True
        with block whole fin neof Inr x show ?thesis by (auto simp: rd_read_next_def to_come_def)
      next
        case more: False
        obtain d' where d': "d' = d \<or> dec_state d' = 0 \<and> dec_state d = 0" "cps \<noteq> []"
          "read_next_block has_sse2 r =
            Inr (True, r\<lparr>rd_stream := snd (stream_read 32 (rd_stream r)),
              next_pos := snd (calc_positions (next_pos r) cps), rd_decoder := d', currently_decoding := cur,
              codepoints := fst (calc_positions (next_pos r) cps), cp_current := 0\<rparr>)"
            (is "_ = Inr (True, ?r)")
          using block [unfolded Inr x] more by (simp only: sum.case prod.case if_False) blast
        have rest: "reader_rest ?r = drop 32 (reader_rest r)"
          by (simp add: stream_read_rest reader_rest_def min_def add.commute)
        have n: "length cps \<le> 32" "cps \<noteq> []" using decode_loop_count [OF Inr [unfolded x]] d'(2) by simp_all
        then obtain c out where c: "codepoints ?r = c # out"
          using length_calc_positions [of "next_pos r" cps]
          by (cases "fst (calc_positions (next_pos r) cps)") simp_all
        with n have t: "take_codepoint ?r = Inr (Some c, ?r\<lparr>cp_current := 1\<rparr>)"
          using length_calc_positions [of "next_pos r" cps]
          by (simp add: take_codepoint_def block_capacity_def)
        then have "rd_read_next has_sse2 r = Inr (Some c, ?r\<lparr>cp_current := 1\<rparr>)"
          using fin neof d'(3) by (simp add: rd_read_next_def)
        moreover have "to_come r o1 \<longleftrightarrow> to_come ?r o1" for o1
          using Inr d'(1) inv fin rest by (intro to_come_block [where d = d and d' = d' and cur = cur and cps = cps]) (simp_all add: x)
        moreover have "to_come ?r o1 \<longleftrightarrow> (\<exists>rest. o1 = c # rest \<and> to_come (?r\<lparr>cp_current := 1\<rparr>) rest)" for o1
          using c by (auto simp: to_come_def reader_rest_def)
        moreover have "reader_inv (?r\<lparr>cp_current := 1\<rparr>)"
        proof -
          have "decoding d' cur"
            using decoding_loop [OF Inr [unfolded x] inv] d'(1) by (auto simp: decoding_def)
          moreover have "length (codepoints ?r) = length cps" by simp
          ultimately show ?thesis
            using n more rest by (auto simp: reader_inv_def reader_rest_def Suc_le_eq)
        qed
        ultimately show ?thesis by simp
      qed
    qed
  qed
qed

lemma read_all_spec:
  assumes "reader_inv r"
  shows "(read_all has_sse2 r = Inr out \<longleftrightarrow> to_come r out) \<and> read_all has_sse2 r \<noteq> Inl (Undefined f)"
  using assms
proof (induction has_sse2 r arbitrary: out rule: read_all.induct)
  case (1 has_sse2 r)
  show ?case
  proof (cases "rd_read_next has_sse2 r")
    case (Inl e)
    with read_next_spec [OF 1(2), of has_sse2] show ?thesis by (auto simp: read_all.simps [of has_sse2 r])
  next
    case (Inr x)
    obtain c r' where x: "x = (c, r')" by (cases x)
    show ?thesis
    proof (cases c)
      case None
      with Inr x read_next_spec [OF 1(2), of has_sse2] show ?thesis by (auto simp: read_all.simps [of has_sse2 r])
    next
      case (Some a)
      with Inr x read_next_spec [OF 1(2), of has_sse2]
      have "reader_inv r'" "to_come r out \<longleftrightarrow> (\<exists>rest. out = a # rest \<and> to_come r' rest)" for out by simp_all
      moreover from this(1) have "(read_all has_sse2 r' = Inr out \<longleftrightarrow> to_come r' out) \<and> read_all has_sse2 r' \<noteq> Inl (Undefined f)" for out
        using 1(1) Inr x Some by simp
      ultimately show ?thesis
        using Inr x Some by (auto simp: read_all.simps [of has_sse2 r] and_then_eq_Inr and_then_eq_Inl)
    qed
  qed
qed

section \<open>Properties\<close>

text \<open>C38. Reading a text through \<open>utf8_reader\<close>, whatever the processor's vector unit and wherever the
  blocks of 32 bytes end, gives exactly the text's code points with their bytes and positions
  if it is the UTF-8 encoding of Unicode scalar values, after a byte order mark if there is
  one.  Any other text is refused with a parse error; no assumption of the code is violated.\<close>

theorem reader_decodes_utf8:
  "(read_all has_sse2 (new_utf8_reader src) = Inr out \<longleftrightarrow>
     (\<exists>vs. list_all unicode_scalar vs \<and>
        (if take 3 src = utf8_byte_order_mark then drop 3 src else src) = concat (map utf8_bytes vs) \<and>
        out = fst (calc_positions \<lparr>src_line = 1, src_column = 1\<rparr> (map (\<lambda>v. (v, utf8_bytes v)) vs)))) \<and>
   read_all has_sse2 (new_utf8_reader src) \<noteq> Inl (Undefined f)"
proof -
  have "reader_inv (new_utf8_reader src)"
    by (simp add: reader_inv_def new_utf8_reader_def decoding_def new_utf8_decoder_def)
  then have "(read_all has_sse2 (new_utf8_reader src) = Inr out \<longleftrightarrow> to_come (new_utf8_reader src) out) \<and>
      read_all has_sse2 (new_utf8_reader src) \<noteq> Inl (Undefined f)"
    by (rule read_all_spec)
  moreover have "take 3 src = utf8_byte_order_mark \<Longrightarrow> 3 \<le> length src"
    by (auto simp: utf8_byte_order_mark_def dest: arg_cong [where f = length])
  then have rest: "reader_rest (new_utf8_reader src) = (if take 3 src = utf8_byte_order_mark then drop 3 src else src)"
    by (auto simp: reader_rest_def new_utf8_reader_def new_utf8_byte_stream_def)
  have new: "rd_decoder (new_utf8_reader src) = new_utf8_decoder" "currently_decoding (new_utf8_reader src) = []"
    "codepoints (new_utf8_reader src) = []" "next_pos (new_utf8_reader src) = \<lparr>src_line = 1, src_column = 1\<rparr>"
    "dec_state new_utf8_decoder = 0"
    by (simp_all add: new_utf8_reader_def new_utf8_decoder_def)
  have "to_come (new_utf8_reader src) out \<longleftrightarrow>
      (\<exists>cps. (\<exists>d. decode_loop new_utf8_decoder [] [] (reader_rest (new_utf8_reader src)) = Inr (d, [], cps)) \<and>
        out = fst (calc_positions \<lparr>src_line = 1, src_column = 1\<rparr> cps))"
    unfolding to_come_def new by auto
  then have "to_come (new_utf8_reader src) out \<longleftrightarrow>
      (\<exists>vs. list_all unicode_scalar vs \<and>
        (if take 3 src = utf8_byte_order_mark then drop 3 src else src) = concat (map utf8_bytes vs) \<and>
        out = fst (calc_positions \<lparr>src_line = 1, src_column = 1\<rparr> (map (\<lambda>v. (v, utf8_bytes v)) vs)))"
    unfolding utf8_decoding [OF new(5)] rest by blast
  ultimately show ?thesis by simp
qed

end
