(* ===== verification/TomlBuffer.thy ===== *)
theory TomlBuffer
  imports TomlReader
begin

text \<open>
  \<open>utf8_buffered_reader\<close>: a window of 127 code points behind the newest one, kept in a ring, so
  that the parser can look ahead and step back.  It reads from any \<open>utf8_reader_interface\<close>,
  whose \<open>read_next\<close> is the argument \<open>next_cp\<close>.  Counters are natural numbers: no text has
  \<open>2 ^ 64\<close> code points.
\<close>

section \<open>The ring\<close>

definition max_history_length :: nat where
  "max_history_length = 128"

definition history_buffer_size :: nat where
  "history_buffer_size = max_history_length - 1"

definition zero_codepoint :: utf8_codepoint where
  "zero_codepoint = \<lparr>cp_value = 0, cp_bytes = [], cp_position = \<lparr>src_line = 0, src_column = 0\<rparr>\<rparr>"

record 's buffered_reader =
  br_reader :: 's
  history_buffer :: "utf8_codepoint list"
  history_count :: nat
  history_first :: nat
  br_head :: "utf8_codepoint option"
  negative_offset :: nat

definition new_buffered_reader :: "'s \<Rightarrow> 's buffered_reader" where
  "new_buffered_reader reader =
     \<lparr>br_reader = reader, history_buffer = replicate history_buffer_size zero_codepoint,
      history_count = 0, history_first = 0, br_head = None, negative_offset = 0\<rparr>"

definition history_at :: "'s buffered_reader \<Rightarrow> nat \<Rightarrow> utf8_codepoint" where
  "history_at b back =
     history_buffer b ! ((history_first b + history_count b - back) mod history_buffer_size)"

definition push_history :: "utf8_codepoint \<Rightarrow> 's buffered_reader \<Rightarrow> 's buffered_reader" where
  "push_history c b =
     (if history_count b < history_buffer_size
      then b\<lparr>history_buffer := (history_buffer b)[history_count b := c], history_count := history_count b + 1\<rparr>
      else b\<lparr>history_buffer :=
               (history_buffer b)[(history_first b + history_buffer_size) mod history_buffer_size := c],
             history_first := history_first b + 1\<rparr>)"

definition br_read_next ::
  "('s \<Rightarrow> toml_failure + utf8_codepoint option \<times> 's) \<Rightarrow> 's buffered_reader \<Rightarrow>
     toml_failure + utf8_codepoint option \<times> 's buffered_reader" where
  "br_read_next next_cp b =
     (if negative_offset b \<noteq> 0 then
        let b' = b\<lparr>negative_offset := negative_offset b - 1\<rparr>
        in if negative_offset b' = 0 then Inr (br_head b', b')
           else Inr (Some (history_at b' (negative_offset b')), b')
      else if history_count b = 0 \<and> br_head b = None then
        and_then (next_cp (br_reader b)) (\<lambda>(c, s). Inr (c, b\<lparr>br_reader := s, br_head := c\<rparr>))
      else
        (case br_head b of
           None \<Rightarrow> Inr (None, b)
         | Some h \<Rightarrow>
             and_then (next_cp (br_reader b))
               (\<lambda>(c, s). Inr (c, (push_history h b)\<lparr>br_reader := s, br_head := c\<rparr>))))"

definition br_step_back ::
  "nat \<Rightarrow> 's buffered_reader \<Rightarrow> toml_failure + utf8_codepoint option \<times> 's buffered_reader" where
  "br_step_back count b =
     (if history_count b = 0 \<or> history_count b < negative_offset b + count then Inl (Undefined Unreachable)
      else
        let b' = b\<lparr>negative_offset := negative_offset b + count\<rparr>
        in Inr (if negative_offset b' \<noteq> 0 then Some (history_at b' (negative_offset b')) else br_head b', b'))"

text \<open>A parser's use of the reader, and what it got each time.\<close>

datatype reader_op = Read | Back nat

fun br_step ::
  "('s \<Rightarrow> toml_failure + utf8_codepoint option \<times> 's) \<Rightarrow> reader_op \<Rightarrow> 's buffered_reader \<Rightarrow>
     toml_failure + utf8_codepoint option \<times> 's buffered_reader" where
  "br_step next_cp Read b = br_read_next next_cp b"
| "br_step next_cp (Back n) b = br_step_back n b"

fun br_run ::
  "('s \<Rightarrow> toml_failure + utf8_codepoint option \<times> 's) \<Rightarrow> reader_op list \<Rightarrow> 's buffered_reader \<Rightarrow>
     toml_failure + utf8_codepoint option list" where
  "br_run next_cp [] b = Inr []"
| "br_run next_cp (x # xs) b =
     and_then (br_step next_cp x b) (\<lambda>(c, b'). and_then (br_run next_cp xs b') (\<lambda>cs. Inr (c # cs)))"

section \<open>The abstract reader: a cursor in the text\<close>

text \<open>
  \<open>reached\<close> counts the code points read from the text, the end being one more; \<open>behind\<close> is how
  far the cursor stands before the newest.
\<close>

record cursor =
  reached :: nat
  behind :: nat

definition cursor_value :: "utf8_codepoint list \<Rightarrow> cursor \<Rightarrow> utf8_codepoint option" where
  "cursor_value cs c =
     (let i = reached c - 1 - behind c in if reached c \<noteq> 0 \<and> i < length cs then Some (cs ! i) else None)"

fun cursor_step ::
  "utf8_codepoint list \<Rightarrow> reader_op \<Rightarrow> cursor \<Rightarrow> toml_failure + utf8_codepoint option \<times> cursor" where
  "cursor_step cs Read c =
     (let c' = (if behind c \<noteq> 0 then c\<lparr>behind := behind c - 1\<rparr>
                else c\<lparr>reached := min (reached c + 1) (length cs + 1)\<rparr>)
      in Inr (cursor_value cs c', c'))"
| "cursor_step cs (Back n) c =
     (if reached c \<le> 1 \<or> min 127 (reached c - 1) < behind c + n then Inl (Undefined Unreachable)
      else let c' = c\<lparr>behind := behind c + n\<rparr> in Inr (cursor_value cs c', c'))"

fun cursor_run ::
  "utf8_codepoint list \<Rightarrow> reader_op list \<Rightarrow> cursor \<Rightarrow> toml_failure + utf8_codepoint option list" where
  "cursor_run cs [] c = Inr []"
| "cursor_run cs (x # xs) c =
     and_then (cursor_step cs x c) (\<lambda>(v, c'). and_then (cursor_run cs xs c') (\<lambda>vs. Inr (v # vs)))"

section \<open>Refinement\<close>

text \<open>What the buffered reader needs of the reader behind the interface.\<close>

locale codepoint_source =
  fixes next_cp :: "'s \<Rightarrow> toml_failure + utf8_codepoint option \<times> 's"
    and delivers :: "'s \<Rightarrow> utf8_codepoint list \<Rightarrow> bool"
  assumes ends: "delivers s [] \<Longrightarrow> \<exists>s'. next_cp s = Inr (None, s') \<and> delivers s' []"
    and goes_on: "delivers s (c # cs) \<Longrightarrow> \<exists>s'. next_cp s = Inr (Some c, s') \<and> delivers s' cs"
begin

definition window :: "utf8_codepoint list \<Rightarrow> cursor \<Rightarrow> 's buffered_reader \<Rightarrow> bool" where
  "window cs c b \<longleftrightarrow>
     reached c \<le> length cs + 1 \<and> delivers (br_reader b) (drop (reached c) cs) \<and>
     br_head b = cursor_value cs \<lparr>reached = reached c, behind = 0\<rparr> \<and>
     history_count b = min 127 (reached c - 1) \<and> history_first b = reached c - 1 - history_count b \<and>
     negative_offset b = behind c \<and> behind c \<le> history_count b \<and> length (history_buffer b) = 127 \<and>
     (\<forall>k. history_first b \<le> k \<and> k < reached c - 1 \<longrightarrow> history_buffer b ! (k mod 127) = cs ! k)"

lemma window_new: "delivers s cs \<Longrightarrow> window cs \<lparr>reached = 0, behind = 0\<rparr> (new_buffered_reader s)"
  by (simp add: window_def new_buffered_reader_def cursor_value_def history_buffer_size_def max_history_length_def)

lemma window_history:
  assumes "window cs c b" and "0 < n" and "n \<le> history_count b"
  shows "history_at b n = cs ! (reached c - 1 - n)"
proof -
  from assms have f: "history_first b = reached c - 1 - history_count b" "history_count b \<le> reached c - 1"
    by (auto simp: window_def)
  with assms(2,3) have "history_first b + history_count b - n = reached c - 1 - n"
    and "history_first b \<le> reached c - 1 - n" and "reached c - 1 - n < reached c - 1"
    by linarith+
  with assms(1) show ?thesis
    by (simp add: window_def history_at_def history_buffer_size_def max_history_length_def)
qed

lemma window_value:
  assumes "window cs c b"
  shows "cursor_value cs c = (if behind c \<noteq> 0 then Some (history_at b (behind c)) else br_head b)"
proof (cases "behind c = 0")
  case True
  with assms show ?thesis by (cases c) (simp add: window_def)
next
  case False
  with assms have "history_at b (behind c) = cs ! (reached c - 1 - behind c)"
    by (intro window_history) (auto simp: window_def)
  with assms False show ?thesis by (auto simp: cursor_value_def window_def Let_def)
qed

lemma window_offset:
  "window cs c b \<Longrightarrow> n \<le> history_count b \<Longrightarrow> window cs (c\<lparr>behind := n\<rparr>) (b\<lparr>negative_offset := n\<rparr>)"
  by (simp add: window_def)

lemma history_at_offset: "history_at (b\<lparr>negative_offset := n\<rparr>) k = history_at b k"
  by (simp add: history_at_def)

lemma back_refines:
  assumes "window cs c b"
  shows "case cursor_step cs (Back n) c of
      Inl f \<Rightarrow> br_step next_cp (Back n) b = Inl f
    | Inr (v, c') \<Rightarrow> \<exists>b'. br_step next_cp (Back n) b = Inr (v, b') \<and> window cs c' b'"
proof -
  have count: "history_count b = min 127 (reached c - 1)" "negative_offset b = behind c"
    using assms by (simp_all add: window_def)
  show ?thesis
  proof (cases "reached c \<le> 1 \<or> min 127 (reached c - 1) < behind c + n")
    case True
    with count show ?thesis by (auto simp: br_step_back_def)
  next
    case False
    with count assms have w: "window cs (c\<lparr>behind := behind c + n\<rparr>) (b\<lparr>negative_offset := behind c + n\<rparr>)"
      by (intro window_offset) auto
    with False count window_value [OF w] show ?thesis
      by (auto simp: br_step_back_def Let_def history_at_offset)
  qed
qed

lemma mod_127_ne: "k < j \<Longrightarrow> j < k + 127 \<Longrightarrow> k mod 127 \<noteq> j mod (127 :: nat)"
proof
  assume *: "k < j" "j < k + 127" "k mod 127 = j mod 127"
  then have "127 dvd j - k" by (simp add: mod_eq_dvd_iff_nat [symmetric])
  then have "127 \<le> j - k" using *(1) by (intro dvd_imp_le) simp_all
  with * show False by simp
qed

lemma window_push:
  assumes w: "window cs c b" and "behind c = 0" and "br_head b = Some h"
    and "delivers s (drop (Suc (reached c)) cs)"
  shows "window cs (c\<lparr>reached := reached c + 1\<rparr>)
    ((push_history h b)\<lparr>br_reader := s, br_head := cursor_value cs (c\<lparr>reached := reached c + 1\<rparr>)\<rparr>)"
proof -
  from w assms(2,3) have m: "0 < reached c" "reached c \<le> length cs" "h = cs ! (reached c - 1)"
    by (auto simp: window_def cursor_value_def Let_def split: if_splits)
  obtain j where j: "reached c = Suc j" using m(1) by (cases "reached c") auto
  from w j have *: "history_count b = min 127 j" "history_first b = j - min 127 j" "length (history_buffer b) = 127"
    "negative_offset b = 0" "\<forall>k. j - min 127 j \<le> k \<and> k < j \<longrightarrow> history_buffer b ! (k mod 127) = cs ! k"
    using assms(2) by (auto simp: window_def)
  have c: "c = \<lparr>reached = Suc j, behind = 0\<rparr>" using j assms(2) by (cases c) simp
  show ?thesis
  proof (cases "j < 127")
    case True
    with * have "(history_buffer b)[j := h] ! (k mod 127) = cs ! k" if "k < Suc j" for k
      using that m(3) j by (cases "k = j") auto
    with True * m j assms(2,4) show ?thesis
      by (auto simp: c window_def push_history_def history_buffer_size_def max_history_length_def)
  next
    case False
    then have "(j - 127 + 127) mod 127 = j mod 127" by simp
    have "(history_buffer b)[j mod 127 := h] ! (k mod 127) = cs ! k" if k: "Suc j - 127 \<le> k" "k < Suc j" for k
    proof (cases "k = j")
      case True
      with *(3) m(3) j show ?thesis by simp
    next
      case False
      with k have "k < j" "j < k + 127" by linarith+
      with mod_127_ne [of k j] *(5) False k show ?thesis by (simp add: min_def split: if_splits)
    qed
    with False * m j assms(2,4) show ?thesis
      by (auto simp: c window_def push_history_def history_buffer_size_def max_history_length_def min_def)
  qed
qed

lemma next_value:
  assumes "delivers s (drop m cs)"
  shows "\<exists>s'. next_cp s = Inr (cursor_value cs \<lparr>reached = m + 1, behind = 0\<rparr>, s') \<and> delivers s' (drop (m + 1) cs)"
proof (cases "drop m cs")
  case Nil
  with ends assms show ?thesis by (auto simp: cursor_value_def)
next
  case (Cons a as)
  then have "m < length cs" "a = cs ! m" "as = drop (m + 1) cs"
    by (metis drop_all list.distinct(1) not_le)
      (metis Cons nth_via_drop, metis Cons add.commute drop_drop drop0 drop_Suc_Cons One_nat_def plus_1_eq_Suc)
  with goes_on assms Cons show ?thesis by (simp add: cursor_value_def)
qed

lemma read_refines:
  assumes w: "window cs c b"
  shows "\<exists>c' b'. cursor_step cs Read c = Inr (cursor_value cs c', c') \<and>
    br_step next_cp Read b = Inr (cursor_value cs c', b') \<and> window cs c' b'"
proof (cases "behind c = 0")
  case False
  with w have w': "window cs (c\<lparr>behind := behind c - 1\<rparr>) (b\<lparr>negative_offset := behind c - 1\<rparr>)"
    by (intro window_offset) (auto simp: window_def)
  with False w show ?thesis
    using window_value [OF w'] by (intro exI [of _ "c\<lparr>behind := behind c - 1\<rparr>"]
        exI [of _ "b\<lparr>negative_offset := behind c - 1\<rparr>"]) (simp add: br_read_next_def window_def Let_def)
next
  case 0: True
  let ?c = "c\<lparr>reached := min (reached c + 1) (length cs + 1)\<rparr>"
  have neg: "negative_offset b = 0" using w 0 by (simp add: window_def)
  have count: "history_count b = min 127 (reached c - 1)" "reached c \<le> length cs + 1"
    "br_head b = cursor_value cs \<lparr>reached = reached c, behind = 0\<rparr>"
    using w by (simp_all add: window_def)
  from w obtain s where s: "next_cp (br_reader b) = Inr (cursor_value cs \<lparr>reached = reached c + 1, behind = 0\<rparr>, s)"
    "delivers s (drop (reached c + 1) cs)"
    using next_value [of "br_reader b" "reached c" cs] by (auto simp: window_def)
  show ?thesis
  proof (cases "br_head b")
    case None
    then have edge: "reached c = 0 \<or> reached c = length cs + 1" using count by (auto simp: cursor_value_def Let_def split: if_splits)
    show ?thesis
    proof (cases "history_count b = 0")
      case True
      with edge count have m: "reached ?c = min (reached c + 1) (length cs + 1)" "reached c \<le> 1"
        by auto
      then have "window cs ?c (b\<lparr>br_reader := s, br_head := cursor_value cs ?c\<rparr>)"
        using w s(2) 0 True edge by (cases c) (auto simp: window_def min_def)
      moreover have "cursor_value cs ?c = cursor_value cs \<lparr>reached = reached c + 1, behind = 0\<rparr>"
        using edge 0 by (cases c) (auto simp: cursor_value_def Let_def)
      ultimately show ?thesis
        using 0 neg s(1) True None by (simp add: br_read_next_def)
    next
      case False
      with edge count have "?c = c" by (cases c) auto
      moreover have "cursor_value cs c = None" using False edge count 0 by (auto simp: cursor_value_def)
      ultimately show ?thesis using w 0 neg False None by (simp add: br_read_next_def)
    qed
  next
    case (Some h)
    then have le: "reached c \<le> length cs" using count by (auto simp: cursor_value_def Let_def split: if_splits)
    then have c: "?c = c\<lparr>reached := reached c + 1\<rparr>" by simp
    have "cursor_value cs ?c = cursor_value cs \<lparr>reached = reached c + 1, behind = 0\<rparr>"
      using 0 unfolding c by (cases c) simp
    with window_push [OF w 0 Some, of s] s 0 neg Some show ?thesis
      by (simp add: br_read_next_def Let_def min_absorb1 [OF le])
  qed
qed

lemma run_refines: "window cs c b \<Longrightarrow> br_run next_cp xs b = cursor_run cs xs c"
proof (induction xs arbitrary: c b)
  case Nil
  then show ?case by simp
next
  case (Cons x xs)
  show ?case
  proof (cases x)
    case Read
    with read_refines [OF Cons.prems] Cons.IH show ?thesis by (auto simp del: cursor_step.simps br_step.simps)
  next
    case (Back n)
    with back_refines [OF Cons.prems, of n] Cons.IH show ?thesis
      by (cases "cursor_step cs (Back n) c") (auto simp del: cursor_step.simps br_step.simps)
  qed
qed

end

interpretation utf8: codepoint_source "rd_read_next has_sse2" "\<lambda>r out. reader_inv r \<and> to_come r out" for has_sse2
proof unfold_locales
  fix r assume r: "reader_inv r \<and> to_come r []"
  then obtain x where x: "rd_read_next has_sse2 r = Inr x"
    using read_next_spec [of r has_sse2] by (cases "rd_read_next has_sse2 r") auto
  moreover obtain a r' where "x = (a, r')" by (cases x)
  moreover from this x r have "a = None"
    using read_next_spec [of r has_sse2] by (cases a) auto
  ultimately show "\<exists>s'. rd_read_next has_sse2 r = Inr (None, s') \<and> reader_inv s' \<and> to_come s' []"
    using r read_next_spec [of r has_sse2] by auto
next
  fix r c cs assume "reader_inv r \<and> to_come r (c # cs)"
  with read_next_spec [of r has_sse2] show "\<exists>s'. rd_read_next has_sse2 r = Inr (Some c, s') \<and> reader_inv s' \<and> to_come s' cs"
    by (auto split: sum.splits option.splits)
qed

section \<open>Properties\<close>

text \<open>C39. The buffered reader over a well-formed text is a cursor in the list of its code points: any
  sequence of reads and steps back gives what the cursor gives, and steps back within the last
  127 code points are always possible.  A step back further than that violates an assumption
  of the code, and exactly then.\<close>

theorem buffered_reader_is_cursor:
  assumes "read_all has_sse2 (new_utf8_reader src) = Inr cs"
  shows "br_run (rd_read_next has_sse2) ops (new_buffered_reader (new_utf8_reader src)) =
    cursor_run cs ops \<lparr>reached = 0, behind = 0\<rparr>"
proof -
  have "reader_inv (new_utf8_reader src)"
    by (simp add: reader_inv_def new_utf8_reader_def decoding_def new_utf8_decoder_def)
  moreover from this assms have "to_come (new_utf8_reader src) cs" using read_all_spec by blast
  ultimately show ?thesis by (intro utf8.run_refines utf8.window_new) simp
qed

theorem buffered_reader_is_cursor_witness:
  "br_run (rd_read_next True) [Read, Read, Back 1, Read, Read] (new_buffered_reader (new_utf8_reader [0x61, 0xC3, 0xA9])) =
    Inr [Some \<lparr>cp_value = 0x61, cp_bytes = [0x61], cp_position = \<lparr>src_line = 1, src_column = 1\<rparr>\<rparr>,
         Some \<lparr>cp_value = 0xE9, cp_bytes = [0xC3, 0xA9], cp_position = \<lparr>src_line = 1, src_column = 2\<rparr>\<rparr>,
         Some \<lparr>cp_value = 0x61, cp_bytes = [0x61], cp_position = \<lparr>src_line = 1, src_column = 1\<rparr>\<rparr>,
         Some \<lparr>cp_value = 0xE9, cp_bytes = [0xC3, 0xA9], cp_position = \<lparr>src_line = 1, src_column = 2\<rparr>\<rparr>, None]"
proof -
  have "read_all True (new_utf8_reader [0x61, 0xC3, 0xA9]) = Inr
      [\<lparr>cp_value = 0x61, cp_bytes = [0x61], cp_position = \<lparr>src_line = 1, src_column = 1\<rparr>\<rparr>,
       \<lparr>cp_value = 0xE9, cp_bytes = [0xC3, 0xA9], cp_position = \<lparr>src_line = 1, src_column = 2\<rparr>\<rparr>]"
    by code_simp
  from buffered_reader_is_cursor [OF this, of "[Read, Read, Back 1, Read, Read]"] show ?thesis
    by (simp add: cursor_value_def del: br_run.simps)
qed

end
