(* ===== verification/Spec2Isabelle.thy ===== *)
theory Spec2Isabelle
  imports Front Turns Pipeline Centroids Startup Window DummySpidr TomlBuffer
begin

text \<open>
  Verification of the Timepix3 server (TpxServer).

  The program.  The server sits between a Timepix3 detector behind a SPIDR board and its
  clients.  It has four parts that run in threads of their own and one that the user sees:

  \<^item> the main thread (\<open>CommsThread\<close>) holds a TCP connection to the board
    (\<open>TimepixConnectionManager\<close>) and a ZeroMQ REP socket for the client
    (\<open>PythonConnectionManager\<close>).  A client's command is queued, sent to the board, and the
    board's reply goes back to the client; commands for the other threads are forwarded to
    their REP sockets, waiting for the answer;
  \<^item> the UDP thread (\<open>UdpThread\<close>, \<open>UdpConnectionManager\<close>) receives the board's pixel data,
    saves it to a raw file, extends the times of arrival by a rollover counter and publishes
    one 64-bit word per click;
  \<^item> the clustering thread (\<open>ClusterThread\<close>, \<open>ClusteringManager\<close>) takes those words, merges
    clicks that lie close in space and time into clusters, and publishes and saves the
    clusters' centroids;
  \<^item> the histogram thread (\<open>HistogramThread\<close>, \<open>HistogramManager\<close>) counts the words it
    receives per pixel and publishes the counts periodically;
  \<^item> the window (src/ui) edits the settings, starts and stops the main thread and shows the
    log.

  Theories, in the order of their imports.

  \<^item> \<open>Prelude\<close>: machine words and their bytes in memory under either byte order, faults as
    values, 32-bit \<open>int\<close>, decimal and hexadecimal text, and the list and word lemmas that
    the rest shares (collection \<open>codec\<close>).
  \<^item> \<open>ByteOrder\<close>: \<open>namespace io\<close> of CommsThread.h.  Locale \<open>network_order\<close> is what users of
    a conversion pair rely on; both pairs are interpreted.
  \<^item> \<open>Codes\<close>: ServerCodes.h and TimepixCodes.h, every enumerator with its value.
  \<^item> \<open>Text\<close>: address texts, paths packed into words, newlines in exception texts.
  \<^item> \<open>Streams\<close>: \<open>std::ofstream\<close> as it is used, and locale \<open>save_file\<close>, the contract of a
    manager's file, interpreted on the UDP and the clustering manager.
  \<^item> \<open>Timepix\<close>: the board's protocol: bytes of a command, decoding of a reply, error texts.
  \<^item> \<open>Secondary\<close>: SecondaryThread.cpp, the command loop of the three worker threads.  Locale
    \<open>command_thread\<close> has a handler that answers once as its law and proves from it that every
    poll, and every whole run of the thread, answers each command exactly once; it is
    interpreted on the handlers of all three threads.
  \<^item> \<open>UdpManager\<close>, \<open>UdpThread\<close>: UdpConnectionManager.cpp and UdpThread.cpp.  \<open>ToaRollover\<close>
    relates the rollover detection to true times, and the published fields to the packets the
    other threads read; \<open>RawFile\<close> has a reader of the raw file and the round trip.
  \<^item> \<open>Binary64\<close>: IEEE 754 doubles as rationals, rounded to nearest even.  \<open>Clustering\<close>: the
    packet and cluster of ClusteringManager.cpp with the two inner loops.  \<open>ClusterInvariants\<close>:
    boxes cover clicks, centroids stay in boxes, weights are exact.  \<open>ClusterRun\<close>: whole
    clicks and batches.  \<open>ClusterManager\<close>, \<open>ClusterThread\<close>: the rest of ClusteringManager.cpp,
    and ClusterThread.cpp.  Locale \<open>batch_steps\<close> is a step of the manager that handles clicks,
    publishes and may save; whole runs of such steps are handled, and the file holds what the
    saving ones published.  It is interpreted on batches with flushes and changes of the
    parameters in between (\<open>events\<close>), and on polls of the input socket (\<open>polls\<close>, in \<open>Pipeline\<close>).
    \<open>Centroids\<close> says which clicks a reported cluster is built from, and where it lies.
  \<^item> \<open>Histogram\<close>: HistogramManager.cpp and HistogramThread.cpp.
  \<^item> \<open>Pipeline\<close> follows the pixel data from the datagrams over the published messages to the
    histograms and clusters, and compares them with the raw file of the same datagrams.
  \<^item> \<open>Server\<close>: CommsThread.cpp, PythonConnectionManager.cpp and the state machine of
    TimepixConnectionManager.cpp as one state, \<open>iterate\<close> the main loop's body, \<open>step\<close> and
    \<open>reachable\<close> what can happen to it.  \<open>ServerInvariant\<close> proves its invariant by rule
    induction; \<open>ServerProps\<close> has what the client sees of single commands, refusals and
    replies the server does not recover from; \<open>Turns\<close> the turns of the client's socket;
    \<open>Session\<close> whole sessions from the start of the server; \<open>Front\<close> an abstract state machine of
    requests and answers that the main loop refines.
  \<^item> \<open>Settings\<close>, \<open>Window\<close>: src/ui, BgThread.cpp, log.cpp and main.cpp; \<open>app_step\<close> is what
    the user, the thread pool and Qt's event queue can do.
  \<^item> \<open>Addresses\<close>, \<open>PortableAddress\<close>: the classes of the vendored asio that turn the settings
    into socket endpoints, and asio's own address text conversions.  Those are compiled only for
    the Windows Runtime (\<open>ASIO_WINDOWS_RUNTIME\<close>); the builds of this program call the operating
    system's, which are a parameter (\<open>os_addresses\<close>).  Locale \<open>dotted_addresses\<close> is what the server
    needs of them; asio's own are the concrete functions it is interpreted on.  \<open>Startup\<close> and the
    last section of this theory follow the settings from the panel's text fields to the endpoint
    that \<open>attemptConnection\<close> builds, and to the end of a server whose address cannot be read.
  \<^item> \<open>DummySpidr\<close>: the board's stand-in of src/test, run against the server's protocol.
  \<^item> \<open>Utf8\<close>, \<open>TomlReader\<close>, \<open>TomlBuffer\<close>: what stands below the parser of toml++, the vendored
    library that reads configuration files: classes of code points, the UTF-8 decoder, the
    reader in blocks, and the buffered reader that can step back.  Locale \<open>codepoint_source\<close>
    is what the second needs of the first, interpreted on it (\<open>utf8\<close>).

  State and operations.  Classes are records with the members' names; \<open>tpx_manager\<close>,
  \<open>client_manager\<close> and \<open>server\<close> extend each other because the three objects refer to each
  other.  Every handler is one function of the state and of what the outside gave it.  Log
  signals, bytes sent and messages published are kept in the state in order.  Undefined
  behaviour (an access out of bounds, a conversion out of range, a deleted object, a socket
  used out of turn) is the left side of a \<open>result\<close>, so that a theorem that a run is
  \<open>Inr\<close> says that nothing undefined happens.  Exceptions are values.

  What the lemmas show.  \<open>ServerInvariant\<close>: an answer is only sent when one is owed, at most
  one command is outstanding, no pointer to a replaced client is followed; \<open>Turns\<close>: the server
  receives out of turn only after a reply without a handler; \<open>Session\<close>: a command goes to the
  board and its reply to its client; \<open>ServerProps\<close>: refused ones are answered at once, and the
  replies the server does not recover from.  \<open>Timepix\<close>, \<open>DummySpidr\<close>: the bytes do not depend
  on the host, and the two ends understand each other.  \<open>ToaRollover\<close>: published times are
  true times modulo \<open>2 ^ 38\<close> under bounded disorder, up to the one case that is late, and no
  rollover is seen without a click in the middle half of a period.
  \<open>RawFile\<close>, \<open>ClusterManager\<close>: files read back as written.  \<open>ClusterInvariants\<close>, \<open>ClusterRun\<close>:
  batches never fault within the stated ranges, a click ends in an open cluster, and closed
  clusters are those that are old; \<open>Centroids\<close>: a reported position lies amid the clicks it
  stands for.  \<open>Histogram\<close>: nothing is lost or counted twice.  \<open>Window\<close>: one server at a time.
  \<open>TomlReader\<close>: reading a text gives its code points or an error, and nothing undefined.

  Termination and bounds.  All loops of the model end: \<open>newlines_to_br\<close> by the newlines
  left, \<open>absorb\<close> by the clusters not yet visited, \<open>expire\<close> by its index, \<open>pton_loop\<close> by the
  characters unread and the rank of the state, \<open>read_all\<close>, \<open>vector_mask\<close> and \<open>decode_loop\<close> by the
  bytes left, the others by their input.  No definition has
  fuel.  The threads' endless loops are runs over the list of what happens in each turn.
  Buffers of the Timepix connection have 1024 bytes, a datagram's clicks fit the 16-bit chunk
  size; clusters are exact for settings in range (\<open>settings_ok\<close>: no 32-bit sum wraps) and times below
  \<open>2 ^ 38\<close> as long as the weights stay below \<open>2 ^ 45\<close> (\<open>room\<close>; 185000 clicks of any weight from
  an empty list always fit).  The rollover theorem assumes a first click in the first three
  quarters of its period, and gaps and disorder that together stay below a quarter period.

  Parameters.  Sockets, the clock and the order of events are arguments: the inputs of an
  iteration of the main loop say which addresses can be read, what is stale or in error on the
  old connection, whether opening a socket fails, and which operations have completed.  The
  operating system's list of adaptors, the view that toml++ gives of a parsed configuration
  file, and the extraction of a number from a stream are arguments of \<open>Settings\<close>.  The static
  variables (\<open>Cluster::settings\<close> among them) are fields of the first manager of the process.  Of ZeroMQ only the
  alternation of a REP socket is modelled.  The host's byte order is an argument throughout.

  Defects found.  A reply cut short, of unknown code or with a wrong length field stops
  the server or reads out of bounds; long pixel configurations overflow the command buffer;
  a UDP command after a client reset blocks the main thread; misaligned commands end a
  worker thread; the merge loop passes over the last cluster and counts a click twice; two
  weightless clicks divide zero by zero; flushed clusters are not saved; a late click of the
  old period is stamped one period late, a rollover without clicks in the middle of a period
  is missed, and resetting the rollover counter can provoke one; stopping the server while its
  end is queued uses a deleted thread; when the client's port cannot be bound again the other
  threads go on; lines and values of a pixel file beyond the 256th are dropped silently; a
  predicate of toml++ runs into code declared unreachable.  The theorems
  named after them, and the manifest's findings, give the places.

  Not modelled.  src/clustering_test.cpp is commented out.  Debug output, window geometry,
  styles and icons and the wiring of Qt signals have no logic.  The parser, nodes and formatters
  of toml++, libzmq, Qt and the rest of asio (reactors, executors, sockets) are libraries: what
  the server uses of them is input.  The capacity of Qt's thread pool is not bounded.  Three
  details are left out where they occur: \<open>reply_data\<close> has no \<open>reserve\<close>, which for a length field
  below 16 asks for gigabytes before the copy that reads out of bounds; \<open>attemptConnection\<close>
  replaces the I/O context without asking whether a socket that failed to close still refers
  to the old one; and \<open>thread_ends\<close> emits \<open>threadDone\<close> and deletes the thread object in one step.
\<close>

section \<open>From the settings to the socket\<close>

lemma port_of_text: "stoul (to_string (int n)) = Inr w \<Longrightarrow> ucast w = (of_nat n :: u16)"
proof -
  have "ucast (of_nat n :: u32) = (of_nat n :: u16)" by (rule bit_word_eqI) (auto simp: bit_simps)
  moreover assume "stoul (to_string (int n)) = Inr w"
  ultimately show ?thesis by (auto simp: port_text_roundtrip split: if_splits)
qed

text \<open>C36. For any functions of the operating system that read a dotted address as its four bytes
  and not as an IPv6 address: the endpoint \<open>attemptConnection\<close> builds from the address and port
  that the user enters for the Timepix holds the four bytes of the dotted address and the port
  modulo 65536, both in network order on every host; and the server, bound, starts by
  connecting.\<close>

theorem panel_to_endpoint:
  assumes "dotted_addresses os" and "getSettings p = Inr st" and "timepix_ip_text p = dotted a b c d"
    and "timepix_port_text p = to_string (int n)" and "reads_addresses os e st i" and "bind_error i = None"
  shows "\<exists>port_field addr.
    tpx_endpoint os e (timepix_ip st) (timepix_port st) = Some (Sockaddr_In port_field addr) \<and>
    store e 2 port_field = to_be 2 (of_nat n :: u16) \<and> store e 4 addr = [a, b, c, d] \<and>
    tpx_pending (initial_server i st ce he) = Some Connecting"
proof -
  from assms have st: "timepix_ip st = dotted a b c d" "stoul (to_string (int n)) = Inr (timepix_port st)"
    by (auto simp: getSettings_def and_then_eq_Inr)
  have "address_error i = None"
    using assms(5) dotted_addresses.make_dotted [OF assms(1)] by (simp add: reads_addresses_def st(1))
  then have "tpx_pending (initial_server i st ce he) = Some Connecting"
    using assms(6) by (simp add: initial_server_defs run_catch_def)
  then show ?thesis
    using dotted_addresses.dotted_endpoint [OF assms(1), of e a b c d "timepix_port st"] st by (simp add: port_of_text)
qed

theorem panel_to_endpoint_witness:
  "\<exists>st port_field addr. getSettings (new_settings_panel (Some [[''192.168.100.1'']])) = Inr st \<and>
    tpx_endpoint (portable_os of_nat) Little ''192.168.100.10'' 50000 = Some (Sockaddr_In port_field addr) \<and>
    store Little 2 port_field = [0xC3, 0x50] \<and> store Little 4 addr = [192, 168, 100, 10] \<and>
    tpx_pending (initial_server first_inputs st (''a'', ''b'') (''c'', ''d'')) = Some Connecting"
proof -
  let ?p = "new_settings_panel (Some [[''192.168.100.1'']])"
  have d: "dotted 192 168 100 10 = ''192.168.100.10''"
    and h: "dotted 192 168 100 1 = ''192.168.100.1''"
    by (simp_all add: dotted_def to_string_def show_base.simps digit_char_def char_of_def bit_0)
  have t: "to_string (int 50000) = ''50000''"
    by (simp add: to_string_def show_base.simps digit_char_def char_of_def bit_0)
  obtain st where st: "getSettings ?p = Inr st" "timepix_ip st = dotted 192 168 100 10" "timepix_port st = 50000"
      "host_ip st = dotted 192 168 100 1"
    unfolding d h by (simp add: getSettings_def new_settings_panel_def updateIpList_def enumerate_ips_win32_def port_texts)
  have p: "timepix_ip_text ?p = dotted 192 168 100 10" "timepix_port_text ?p = to_string (int 50000)"
    unfolding d t by (simp_all add: new_settings_panel_def updateIpList_def Let_def)
  have "make_address (portable_os of_nat) Little (timepix_ip st) \<noteq> None"
    "make_address (portable_os of_nat) Little (host_ip st) \<noteq> None"
    unfolding st(2,4) by (simp_all add: portable.make_dotted)
  then have "reads_addresses (portable_os of_nat) Little st first_inputs"
    by (simp add: reads_addresses_def first_inputs_def)
  from panel_to_endpoint [OF portable.dotted_addresses_axioms st(1) p this _, of "(''a'', ''b'')" "(''c'', ''d'')"] st
  show ?thesis by (simp add: to_be_2 first_inputs_def d)
qed
end
